(* ===== verification/Prelude.thy ===== *)
theory Prelude
  imports Main "HOL-Library.Word" "HOL-Library.Monad_Syntax"
begin

unbundle bit_operations_syntax

text \<open>
  Shared vocabulary of the development: Go's machine integers, byte slices and
  run-time panics, and the generic list lemmas the components use.

  A Go \<open>int\<close> is an \<open>int\<close> here; where an operation of the code could leave the
  64-bit range its result goes through \<open>wrap64\<close>, two's complement wrap-around.
  A byte slice is a list of 8-bit words: its contents when it is read. A nil
  slice and an empty slice are both \<open>[]\<close> unless the code tests for nil, in
  which case the model uses an option. A run-time panic of a pure operation is
  \<open>None\<close>.
\<close>

named_theorems go_defs \<open>definitions of the Go slice primitives\<close>

type_synonym byte = "8 word"
type_synonym bytes = "byte list"

subsection \<open>Machine integers\<close>

definition wrap64 :: "int \<Rightarrow> int" where
  "wrap64 x = signed_take_bit 63 x"

lemma wrap64_id [simp]: "- (2 ^ 63) \<le> x \<Longrightarrow> x < 2 ^ 63 \<Longrightarrow> wrap64 x = x"
  unfolding wrap64_def by (rule signed_take_bit_int_eq_self) simp_all

lemma wrap64_nonneg: "0 \<le> x \<Longrightarrow> x < 2 ^ 63 \<Longrightarrow> wrap64 x = x"
  by simp

definition is_pow2 :: "int \<Rightarrow> bool" where
  "is_pow2 x \<longleftrightarrow> (\<exists>k \<in> {..<63::nat}. x = 2 ^ k)"

lemma is_pow2_pos: "is_pow2 x \<Longrightarrow> 0 < x"
  by (auto simp: is_pow2_def)

lemma not_is_pow2_0 [simp]: "\<not> is_pow2 0"
  by (simp add: is_pow2_def)

lemma is_pow2I: "k < 63 \<Longrightarrow> is_pow2 (2 ^ k)"
  by (auto simp: is_pow2_def)

text \<open>The masking idiom \<open>x & (size - 1)\<close> is reduction modulo a power of two.\<close>

lemma and_pow2_mask:
  assumes "is_pow2 s"
  shows "x AND (s - 1) = x mod s"
proof -
  from assms obtain k where "s = 2 ^ k" by (auto simp: is_pow2_def)
  then show ?thesis
    by (simp add: take_bit_eq_mod [symmetric] take_bit_eq_mask mask_eq_exp_minus_1)
qed

subsection \<open>Slices\<close>

text \<open>
  \<open>slice xs i j\<close> is Go's \<open>xs[i:j]\<close>; it panics out of bounds. (Go bounds \<open>j\<close> by the
  capacity: every slice expression of the code that the development models stays
  within the length, which the no-panic theorems establish.)
\<close>

definition slice :: "'a list \<Rightarrow> int \<Rightarrow> int \<Rightarrow> 'a list option" where
  "slice xs i j =
     (if 0 \<le> i \<and> i \<le> j \<and> j \<le> int (length xs)
      then Some (take (nat (j - i)) (drop (nat i) xs)) else None)"

definition index_get :: "'a list \<Rightarrow> int \<Rightarrow> 'a option" where
  "index_get xs i = (if 0 \<le> i \<and> i < int (length xs) then Some (xs ! nat i) else None)"

definition index_set :: "'a list \<Rightarrow> int \<Rightarrow> 'a \<Rightarrow> 'a list option" where
  "index_set xs i x = (if 0 \<le> i \<and> i < int (length xs) then Some (xs[nat i := x]) else None)"

text \<open>
  \<open>go_copy dst src\<close> is the destination after \<open>copy(dst, src)\<close>; \<open>copy_at xs i src\<close> is
  \<open>xs\<close> after \<open>copy(xs[i:], src)\<close>, which writes through the subslice.
\<close>

definition go_copy :: "'a list \<Rightarrow> 'a list \<Rightarrow> 'a list" where
  "go_copy dst src = take (length dst) src @ drop (length src) dst"

definition copy_at :: "'a list \<Rightarrow> int \<Rightarrow> 'a list \<Rightarrow> 'a list option" where
  "copy_at xs i src =
     (if 0 \<le> i \<and> i \<le> int (length xs)
      then Some (take (nat i) xs @ go_copy (drop (nat i) xs) src) else None)"

text \<open>
  \<open>make([]byte, n)\<close>: the Go runtime panics (\<open>makeslice: len out of range\<close>) on a
  negative length and above the address space of the platform, 48 bits on amd64.
\<close>

definition maxAlloc :: int where
  "maxAlloc = 2 ^ 48"

definition make_bytes :: "int \<Rightarrow> bytes option" where
  "make_bytes n = (if 0 \<le> n \<and> n \<le> maxAlloc then Some (replicate (nat n) 0) else None)"

lemmas [go_defs] = slice_def index_get_def index_set_def go_copy_def copy_at_def

lemma split2:
  assumes "0 \<le> i" "i \<le> int (length xs)"
  obtains A B where "xs = A @ B" "i = int (length A)"
proof -
  have "xs = take (nat i) xs @ drop (nat i) xs" "i = int (length (take (nat i) xs))"
    using assms by simp_all
  then show thesis by (rule that)
qed

lemma nonempty_len: "xs \<noteq> [] \<Longrightarrow> 1 \<le> int (length xs)"
  by (cases xs) simp_all

lemma length_go_copy [simp]: "length (go_copy dst src) = length dst"
  by (simp add: go_copy_def)

lemma copy_at_length: "copy_at xs i src = Some ys \<Longrightarrow> length ys = length xs"
  by (auto simp: copy_at_def split: if_splits)

lemma slice_append_left:
  "slice (A @ B) 0 (int (length A)) = Some A"
  by (simp add: slice_def)

lemma slice_mid:
  "i = int (length A) \<Longrightarrow> j = int (length A) + int (length C) \<Longrightarrow>
   slice (A @ C @ B) i j = Some C"
  by (simp add: slice_def)

lemma slice_suffix:
  "i = int (length A) \<Longrightarrow> j = int (length A) + int (length B) \<Longrightarrow>
   slice (A @ B) i j = Some B"
  by (simp add: slice_def)

lemma copy_at_mid:
  "i = int (length A) \<Longrightarrow> length C = length P \<Longrightarrow>
   copy_at (A @ C @ B) i P = Some (A @ P @ B)"
  by (simp add: copy_at_def go_copy_def)

lemma copy_at_suffix:
  "i = int (length A) \<Longrightarrow> length C = length P \<Longrightarrow> copy_at (A @ C) i P = Some (A @ P)"
  using copy_at_mid [of i A C P "[]"] by simp

lemma copy_at_prefix:
  "length C = length P \<Longrightarrow> copy_at (C @ B) 0 P = Some (P @ B)"
  using copy_at_mid [of 0 "[]" C P B] by simp

end
