(* ===== verification/Power_Of_Two.thy ===== *)
theory Power_Of_Two
  imports Prelude
begin

text \<open>
  \<open>CeilToPowerOfTwo\<close> and \<open>fillBits\<close> of pkg/ringbuffer/ringbuffer.go on a 64-bit
  platform (\<open>bitsize = 64\<close>), and the proof that the bit-smearing computes the least
  power of two that is at least 2 and at least the argument.
\<close>

definition maxintHeadBit :: int where
  "maxintHeadBit = 2 ^ 62"

definition fillBits :: "int \<Rightarrow> int" where
  "fillBits n0 =
     (let n1 = n0 OR drop_bit 1 n0;
          n2 = n1 OR drop_bit 2 n1;
          n3 = n2 OR drop_bit 4 n2;
          n4 = n3 OR drop_bit 8 n3;
          n5 = n4 OR drop_bit 16 n4;
          n6 = n5 OR drop_bit 32 n5
      in n6)"

definition CeilToPowerOfTwo :: "int \<Rightarrow> int option" where
  "CeilToPowerOfTwo n =
     (if n AND maxintHeadBit \<noteq> 0 \<and> n > maxintHeadBit then None
      else if n \<le> 2 then Some 2
      else Some (wrap64 (fillBits (n - 1) + 1)))"

subsection \<open>Bit smearing\<close>

definition smeared :: "nat \<Rightarrow> int \<Rightarrow> int \<Rightarrow> bool" where
  "smeared m n x \<longleftrightarrow> (\<forall>i. bit x i \<longleftrightarrow> (\<exists>j<m. bit n (i + j)))"

lemma smeared_step:
  assumes "smeared m n x"
  shows "smeared (m + m) n (x OR drop_bit m x)"
  unfolding smeared_def
proof
  fix i
  have "bit (x OR drop_bit m x) i \<longleftrightarrow> (\<exists>j<m. bit n (i + j)) \<or> (\<exists>j<m. bit n (m + i + j))"
    using assms by (simp add: smeared_def bit_or_iff bit_drop_bit_eq)
  also have "\<dots> \<longleftrightarrow> (\<exists>j<m + m. bit n (i + j))"
  proof
    assume "(\<exists>j<m. bit n (i + j)) \<or> (\<exists>j<m. bit n (m + i + j))"
    then show "\<exists>j<m + m. bit n (i + j)"
    proof
      assume "\<exists>j<m. bit n (i + j)"
      then show ?thesis by (meson trans_less_add1)
    next
      assume "\<exists>j<m. bit n (m + i + j)"
      then obtain j where "j < m" "bit n (m + i + j)" by blast
      then show ?thesis by (intro exI [of _ "m + j"]) (simp add: ac_simps)
    qed
  next
    assume "\<exists>j<m + m. bit n (i + j)"
    then obtain j where j: "j < m + m" "bit n (i + j)" by blast
    show "(\<exists>j<m. bit n (i + j)) \<or> (\<exists>j<m. bit n (m + i + j))"
    proof (cases "j < m")
      case True
      with j show ?thesis by blast
    next
      case False
      with j have "j - m < m" "bit n (m + i + (j - m))" by (simp_all add: ac_simps)
      then show ?thesis by blast
    qed
  qed
  finally show "bit (x OR drop_bit m x) i = (\<exists>j<m + m. bit n (i + j))" .
qed

lemma fillBits_smeared: "smeared 64 n (fillBits n)"
proof -
  have s1: "smeared 1 n n" by (simp add: smeared_def)
  define n1 where "n1 = n OR drop_bit 1 n"
  define n2 where "n2 = n1 OR drop_bit 2 n1"
  define n3 where "n3 = n2 OR drop_bit 4 n2"
  define n4 where "n4 = n3 OR drop_bit 8 n3"
  define n5 where "n5 = n4 OR drop_bit 16 n4"
  have s2: "smeared 2 n n1" using smeared_step [OF s1] by (simp add: n1_def numeral_2_eq_2)
  have s4: "smeared 4 n n2" using smeared_step [OF s2] by (simp add: n2_def)
  have s8: "smeared 8 n n3" using smeared_step [OF s4] by (simp add: n3_def)
  have s16: "smeared 16 n n4" using smeared_step [OF s8] by (simp add: n4_def)
  have s32: "smeared 32 n n5" using smeared_step [OF s16] by (simp add: n5_def)
  have "fillBits n = n5 OR drop_bit 32 n5"
    by (simp add: fillBits_def n1_def n2_def n3_def n4_def n5_def Let_def)
  then show ?thesis using smeared_step [OF s32] by simp
qed

lemma bit_int_below:
  fixes n :: int
  assumes "0 \<le> n" "n < 2 ^ Suc k" "k < i"
  shows "\<not> bit n i"
proof -
  have "take_bit (Suc k) n = n" using assms by (simp add: take_bit_int_eq_self)
  then have "bit n i \<longleftrightarrow> i < Suc k \<and> bit n i"
    using bit_take_bit_iff [of "Suc k" n i] by simp
  with assms(3) show ?thesis by simp
qed

lemma bit_int_top:
  fixes n :: int
  assumes "2 ^ k \<le> n" "n < 2 ^ Suc k"
  shows "bit n k"
proof -
  have "n div 2 ^ k = 1"
    using assms by (intro int_div_pos_eq [where r = "n - 2 ^ k"]) simp_all
  then show ?thesis by (simp add: bit_iff_odd)
qed

lemma fillBits_eq:
  assumes "2 ^ k \<le> n" "n < 2 ^ Suc k" "k < 64"
  shows "fillBits n = 2 ^ Suc k - 1"
proof -
  have pos: "0 \<le> n" by (rule order_trans [OF _ assms(1)]) simp
  have "bit (fillBits n) i \<longleftrightarrow> bit (mask (Suc k) :: int) i" for i
  proof -
    have "bit (fillBits n) i \<longleftrightarrow> (\<exists>j<64. bit n (i + j))"
      using fillBits_smeared by (simp add: smeared_def)
    also have "\<dots> \<longleftrightarrow> i \<le> k"
    proof
      assume "\<exists>j<64. bit n (i + j)"
      then obtain j where "bit n (i + j)" by blast
      then have "\<not> k < i + j" using bit_int_below [OF pos assms(2)] by blast
      then show "i \<le> k" by simp
    next
      assume "i \<le> k"
      then have "bit n (i + (k - i))" "k - i < 64"
        using bit_int_top [OF assms(1,2)] assms(3) by simp_all
      then show "\<exists>j<64. bit n (i + j)" by blast
    qed
    finally show ?thesis by (simp add: bit_mask_iff less_Suc_eq_le)
  qed
  then have "fillBits n = mask (Suc k)" by (rule bit_eqI)
  then show ?thesis by (simp add: mask_eq_exp_minus_1)
qed

lemma int_log2:
  fixes n :: int
  assumes "0 < n"
  obtains k where "2 ^ k \<le> n" "n < 2 ^ Suc k"
proof -
  have "\<exists>k. 2 ^ k \<le> nat n \<and> nat n < 2 ^ (k + 1)"
    by (rule ex_power_ivl1) (use assms in simp_all)
  then obtain k where "2 ^ k \<le> nat n" "nat n < 2 ^ Suc k" by auto
  then have "int (2 ^ k) \<le> n" "n < int (2 ^ Suc k)"
    using assms by (simp_all only: le_nat_iff nat_less_iff less_imp_le)
  then show thesis by (intro that) simp_all
qed

subsection \<open>The specification of CeilToPowerOfTwo\<close>

lemma and_headbit_above:
  assumes "maxintHeadBit < n" "n < 2 ^ 63"
  shows "n AND maxintHeadBit \<noteq> 0"
proof -
  have "bit n 62" using assms by (intro bit_int_top) (simp_all add: maxintHeadBit_def)
  then have "bit (n AND maxintHeadBit) 62"
    by (simp add: bit_and_iff maxintHeadBit_def bit_exp_iff)
  then show ?thesis by auto
qed

lemma CeilToPowerOfTwo_eq:
  assumes "2 < n" "n \<le> 2 ^ 62"
  obtains k where "CeilToPowerOfTwo n = Some (2 ^ Suc k)" "2 ^ k < n" "n \<le> 2 ^ Suc k"
    "0 < k" "k < 62"
proof -
  from assms obtain k where k: "2 ^ k \<le> n - 1" "n - 1 < 2 ^ Suc k"
    using int_log2 [of "n - 1"] by auto
  have k62: "k < 62"
  proof (rule ccontr)
    assume "\<not> k < 62"
    then have "(2::int) ^ 62 \<le> 2 ^ k" by (intro power_increasing) simp_all
    with k(1) assms(2) show False by simp
  qed
  have "k \<noteq> 0" using k(2) assms(1) by (intro notI) simp
  have le: "(2::int) ^ Suc k \<le> 2 ^ 62" using k62 by (intro power_increasing) simp_all
  have "wrap64 (2 ^ Suc k) = 2 ^ Suc k"
    by (rule wrap64_nonneg) (use le in simp_all)
  moreover have "fillBits (n - 1) = 2 ^ Suc k - 1"
    by (rule fillBits_eq) (use k k62 in simp_all)
  ultimately have "CeilToPowerOfTwo n = Some (2 ^ Suc k)"
    using assms by (simp add: CeilToPowerOfTwo_def maxintHeadBit_def)
  then show thesis
    by (rule that) (use k k62 \<open>k \<noteq> 0\<close> in simp_all)
qed

lemma CeilToPowerOfTwo_small: "n \<le> 2 \<Longrightarrow> CeilToPowerOfTwo n = Some 2"
  by (simp add: CeilToPowerOfTwo_def maxintHeadBit_def)

end
