(* ===== verification/Ring_Buffer.thy ===== *)
theory Ring_Buffer
  imports Power_Of_Two
begin

text \<open>
  The ring buffer of pkg/ringbuffer/ringbuffer.go: the struct as a record, every
  method as a function that returns its results and the new buffer. A method that
  slices, indexes or allocates returns an option; \<open>None\<close> is the run-time panic.
\<close>

record ring_buffer =
  rb_buf :: bytes
  rb_size :: int
  rb_mask :: int
  rb_r :: int
  rb_w :: int
  rb_isEmpty :: bool

datatype rb_error = ErrIsEmpty

definition initSize :: int where
  "initSize = 4096"

definition rb_New :: "int \<Rightarrow> ring_buffer option" where
  "rb_New size0 =
     (if size0 = 0
      then Some \<lparr>rb_buf = [], rb_size = 0, rb_mask = 0, rb_r = 0, rb_w = 0, rb_isEmpty = True\<rparr>
      else do {
        size \<leftarrow> CeilToPowerOfTwo size0;
        buf \<leftarrow> make_bytes size;
        Some \<lparr>rb_buf = buf, rb_size = size, rb_mask = size - 1, rb_r = 0, rb_w = 0,
              rb_isEmpty = True\<rparr>
      })"

definition rb_Length :: "ring_buffer \<Rightarrow> int" where
  "rb_Length rb =
     (if rb_r rb = rb_w rb then (if rb_isEmpty rb then 0 else rb_size rb)
      else if rb_w rb > rb_r rb then rb_w rb - rb_r rb
      else rb_size rb - rb_r rb + rb_w rb)"

definition rb_Len :: "ring_buffer \<Rightarrow> int" where
  "rb_Len rb = int (length (rb_buf rb))"

definition rb_Cap :: "ring_buffer \<Rightarrow> int" where
  "rb_Cap rb = rb_size rb"

definition rb_Free :: "ring_buffer \<Rightarrow> int" where
  "rb_Free rb =
     (if rb_r rb = rb_w rb then (if rb_isEmpty rb then rb_size rb else 0)
      else if rb_w rb < rb_r rb then rb_r rb - rb_w rb
      else rb_size rb - rb_w rb + rb_r rb)"

definition rb_IsFull :: "ring_buffer \<Rightarrow> bool" where
  "rb_IsFull rb \<longleftrightarrow> rb_r rb = rb_w rb \<and> \<not> rb_isEmpty rb"

definition rb_IsEmpty :: "ring_buffer \<Rightarrow> bool" where
  "rb_IsEmpty rb = rb_isEmpty rb"

definition rb_Reset :: "ring_buffer \<Rightarrow> ring_buffer" where
  "rb_Reset rb = rb\<lparr>rb_r := 0, rb_w := 0, rb_isEmpty := True\<rparr>"

text \<open>The results \<open>head\<close> and \<open>tail\<close> are nil exactly where they are empty.\<close>

definition rb_LazyRead :: "ring_buffer \<Rightarrow> int \<Rightarrow> (bytes \<times> bytes) option" where
  "rb_LazyRead rb len =
     (if rb_isEmpty rb then Some ([], [])
      else if len \<le> 0 then Some ([], [])
      else if rb_w rb > rb_r rb then
        (let n0 = rb_w rb - rb_r rb; n = (if n0 > len then len else n0)
         in do { head \<leftarrow> slice (rb_buf rb) (rb_r rb) (rb_r rb + n); Some (head, []) })
      else
        (let n0 = rb_size rb - rb_r rb + rb_w rb; n = (if n0 > len then len else n0)
         in if rb_r rb + n \<le> rb_size rb
            then do { head \<leftarrow> slice (rb_buf rb) (rb_r rb) (rb_r rb + n); Some (head, []) }
            else (let c1 = rb_size rb - rb_r rb; c2 = n - c1
                  in do {
                    head \<leftarrow> slice (rb_buf rb) (rb_r rb) (rb_Len rb);
                    tail \<leftarrow> slice (rb_buf rb) 0 c2;
                    Some (head, tail)
                  })))"

definition rb_LazyReadAll :: "ring_buffer \<Rightarrow> (bytes \<times> bytes) option" where
  "rb_LazyReadAll rb =
     (if rb_isEmpty rb then Some ([], [])
      else if rb_w rb > rb_r rb then
        do { head \<leftarrow> slice (rb_buf rb) (rb_r rb) (rb_w rb); Some (head, []) }
      else do {
        head \<leftarrow> slice (rb_buf rb) (rb_r rb) (rb_Len rb);
        tail \<leftarrow> (if rb_w rb \<noteq> 0 then slice (rb_buf rb) 0 (rb_w rb) else Some []);
        Some (head, tail)
      })"

definition rb_Shift :: "ring_buffer \<Rightarrow> int \<Rightarrow> ring_buffer" where
  "rb_Shift rb n =
     (if n \<le> 0 then rb
      else if n < rb_Length rb then
        (let rb' = rb\<lparr>rb_r := (rb_r rb + n) AND rb_mask rb\<rparr>
         in if rb_r rb' = rb_w rb' then rb'\<lparr>rb_isEmpty := True\<rparr> else rb')
      else rb_Reset rb)"

text \<open>
  \<open>Read(p)\<close> fills the caller's slice: the result is \<open>n\<close>, the error, the new contents
  of \<open>p\<close> and the new buffer.
\<close>

definition rb_Read ::
  "ring_buffer \<Rightarrow> bytes \<Rightarrow> (int \<times> rb_error option \<times> bytes \<times> ring_buffer) option" where
  "rb_Read rb p =
     (if length p = 0 then Some (0, None, p, rb)
      else if rb_isEmpty rb then Some (0, Some ErrIsEmpty, p, rb)
      else if rb_w rb > rb_r rb then
        (let n0 = rb_w rb - rb_r rb;
             n = (if n0 > int (length p) then int (length p) else n0)
         in do {
           s \<leftarrow> slice (rb_buf rb) (rb_r rb) (rb_r rb + n);
           let rb1 = rb\<lparr>rb_r := rb_r rb + n\<rparr>;
           let rb2 = (if rb_r rb1 = rb_w rb1 then rb1\<lparr>rb_isEmpty := True\<rparr> else rb1);
           Some (n, None, go_copy p s, rb2)
         })
      else
        (let n0 = rb_size rb - rb_r rb + rb_w rb;
             n = (if n0 > int (length p) then int (length p) else n0)
         in do {
           p' \<leftarrow> (if rb_r rb + n \<le> rb_size rb
                 then do {
                   s \<leftarrow> slice (rb_buf rb) (rb_r rb) (rb_r rb + n);
                   Some (go_copy p s)
                 }
                 else do {
                   let c1 = rb_size rb - rb_r rb;
                   s1 \<leftarrow> slice (rb_buf rb) (rb_r rb) (rb_Len rb);
                   let p1 = go_copy p s1;
                   let c2 = n - c1;
                   s2 \<leftarrow> slice (rb_buf rb) 0 c2;
                   copy_at p1 c1 s2
                 });
           let rb1 = rb\<lparr>rb_r := (rb_r rb + n) AND rb_mask rb\<rparr>;
           let rb2 = (if rb_r rb1 = rb_w rb1 then rb1\<lparr>rb_isEmpty := True\<rparr> else rb1);
           Some (n, None, p', rb2)
         }))"

definition rb_ReadByte ::
  "ring_buffer \<Rightarrow> (byte \<times> rb_error option \<times> ring_buffer) option" where
  "rb_ReadByte rb =
     (if rb_isEmpty rb then Some (0, Some ErrIsEmpty, rb)
      else do {
        b \<leftarrow> index_get (rb_buf rb) (rb_r rb);
        let rb1 = rb\<lparr>rb_r := rb_r rb + 1\<rparr>;
        let rb2 = (if rb_r rb1 = rb_size rb1 then rb1\<lparr>rb_r := 0\<rparr> else rb1);
        let rb3 = (if rb_r rb2 = rb_w rb2 then rb2\<lparr>rb_isEmpty := True\<rparr> else rb2);
        Some (b, None, rb3)
      })"

definition rb_malloc :: "ring_buffer \<Rightarrow> int \<Rightarrow> ring_buffer option" where
  "rb_malloc rb cap =
     do {
       newCap \<leftarrow> (if rb_size rb = 0 \<and> initSize \<ge> cap then Some initSize
                  else CeilToPowerOfTwo (wrap64 (rb_size rb + cap)));
       newBuf \<leftarrow> make_bytes newCap;
       let oldLen = rb_Length rb;
       (_, _, newBuf', rb') \<leftarrow> rb_Read rb newBuf;
       Some (rb'\<lparr>rb_r := 0, rb_w := oldLen, rb_size := newCap, rb_mask := newCap - 1,
                 rb_buf := newBuf'\<rparr>)
     }"

text \<open>
  The part of Write after the growth check: copy \<open>p\<close> at the write position, wrapping
  round the end, and advance it.
\<close>

definition rb_Write_copy :: "ring_buffer \<Rightarrow> bytes \<Rightarrow> ring_buffer option" where
  "rb_Write_copy rb p =
     (let n = int (length p) in
      do {
        rb1 \<leftarrow> (if rb_w rb \<ge> rb_r rb then
                 (let c1 = rb_size rb - rb_w rb in
                  if c1 \<ge> n then do {
                    b \<leftarrow> copy_at (rb_buf rb) (rb_w rb) p;
                    Some (rb\<lparr>rb_buf := b, rb_w := rb_w rb + n\<rparr>)
                  }
                  else do {
                    p1 \<leftarrow> slice p 0 c1;
                    b1 \<leftarrow> copy_at (rb_buf rb) (rb_w rb) p1;
                    let c2 = n - c1;
                    p2 \<leftarrow> slice p c1 n;
                    let b2 = go_copy b1 p2;
                    Some (rb\<lparr>rb_buf := b2, rb_w := c2\<rparr>)
                  })
               else do {
                 b \<leftarrow> copy_at (rb_buf rb) (rb_w rb) p;
                 Some (rb\<lparr>rb_buf := b, rb_w := rb_w rb + n\<rparr>)
               });
        let rb2 = (if rb_w rb1 = rb_size rb1 then rb1\<lparr>rb_w := 0\<rparr> else rb1);
        Some (rb2\<lparr>rb_isEmpty := False\<rparr>)
      })"

definition rb_Write :: "ring_buffer \<Rightarrow> bytes \<Rightarrow> (int \<times> ring_buffer) option" where
  "rb_Write rb p =
     (let n = int (length p) in
      if n = 0 then Some (0, rb)
      else do {
        let free = rb_Free rb;
        rb1 \<leftarrow> (if n > free then rb_malloc rb (n - free) else Some rb);
        rb2 \<leftarrow> rb_Write_copy rb1 p;
        Some (n, rb2)
      })"

definition rb_WriteByte :: "ring_buffer \<Rightarrow> byte \<Rightarrow> ring_buffer option" where
  "rb_WriteByte rb c =
     do {
       rb1 \<leftarrow> (if rb_Free rb < 1 then rb_malloc rb 1 else Some rb);
       b \<leftarrow> index_set (rb_buf rb1) (rb_w rb1) c;
       let rb2 = rb1\<lparr>rb_buf := b, rb_w := rb_w rb1 + 1\<rparr>;
       let rb3 = (if rb_w rb2 = rb_size rb2 then rb2\<lparr>rb_w := 0\<rparr> else rb2);
       Some (rb3\<lparr>rb_isEmpty := False\<rparr>)
     }"

text \<open>
  A Go string is a byte sequence; the code reinterprets its header as a slice header
  without copying and writes the bytes.
\<close>

definition rb_WriteString :: "ring_buffer \<Rightarrow> bytes \<Rightarrow> (int \<times> ring_buffer) option" where
  "rb_WriteString rb s = rb_Write rb s"

subsection \<open>The byte buffers of github.com/valyala/bytebufferpool\<close>

text \<open>
  \<open>bytebuffer.ByteBuffer\<close> is a third-party type: its operations are a parameter of
  the model. What the code relies on (a pooled buffer is empty when obtained, Write
  appends, the literal \<open>&ByteBuffer{B: b}\<close> holds \<open>b\<close>) is \<open>bb_laws\<close>.
\<close>

record 'b bb_api =
  bb_Get :: 'b
  bb_Lit :: "bytes \<Rightarrow> 'b"
  bb_Write :: "'b \<Rightarrow> bytes \<Rightarrow> 'b"
  bb_Bytes :: "'b \<Rightarrow> bytes"

definition bb_laws :: "'b bb_api \<Rightarrow> bool" where
  "bb_laws A \<longleftrightarrow>
     bb_Bytes A (bb_Get A) = [] \<and>
     (\<forall>p. bb_Bytes A (bb_Lit A p) = p) \<and>
     (\<forall>b p. bb_Bytes A (bb_Write A b p) = bb_Bytes A b @ p)"

text \<open>An instance of the parameter, for the witnesses: a byte buffer is its bytes.\<close>

definition bb_list :: "bytes bb_api" where
  "bb_list = \<lparr>bb_Get = [], bb_Lit = (\<lambda>p. p), bb_Write = (@), bb_Bytes = (\<lambda>b. b)\<rparr>"

lemma bb_list_laws: "bb_laws bb_list"
  by (simp add: bb_laws_def bb_list_def)

definition rb_ByteBuffer :: "'b bb_api \<Rightarrow> ring_buffer \<Rightarrow> 'b option option" where
  "rb_ByteBuffer A rb =
     (if rb_isEmpty rb then Some None
      else if rb_w rb = rb_r rb then do {
        s1 \<leftarrow> slice (rb_buf rb) (rb_r rb) (rb_Len rb);
        s2 \<leftarrow> slice (rb_buf rb) 0 (rb_w rb);
        Some (Some (bb_Write A (bb_Write A (bb_Get A) s1) s2))
      }
      else if rb_w rb > rb_r rb then do {
        s \<leftarrow> slice (rb_buf rb) (rb_r rb) (rb_w rb);
        Some (Some (bb_Write A (bb_Get A) s))
      }
      else do {
        s1 \<leftarrow> slice (rb_buf rb) (rb_r rb) (rb_Len rb);
        let bb = bb_Write A (bb_Get A) s1;
        bb' \<leftarrow> (if rb_w rb \<noteq> 0
                then do { s2 \<leftarrow> slice (rb_buf rb) 0 (rb_w rb); Some (bb_Write A bb s2) }
                else Some bb);
        Some (Some bb')
      })"

definition rb_WithByteBuffer :: "'b bb_api \<Rightarrow> ring_buffer \<Rightarrow> bytes \<Rightarrow> 'b option" where
  "rb_WithByteBuffer A rb b =
     (if rb_isEmpty rb then Some (bb_Lit A b)
      else if rb_w rb = rb_r rb then do {
        s1 \<leftarrow> slice (rb_buf rb) (rb_r rb) (rb_Len rb);
        s2 \<leftarrow> slice (rb_buf rb) 0 (rb_w rb);
        Some (bb_Write A (bb_Write A (bb_Write A (bb_Get A) s1) s2) b)
      }
      else if rb_w rb > rb_r rb then do {
        s \<leftarrow> slice (rb_buf rb) (rb_r rb) (rb_w rb);
        Some (bb_Write A (bb_Write A (bb_Get A) s) b)
      }
      else do {
        s1 \<leftarrow> slice (rb_buf rb) (rb_r rb) (rb_Len rb);
        let bb = bb_Write A (bb_Get A) s1;
        bb' \<leftarrow> (if rb_w rb \<noteq> 0
                then do { s2 \<leftarrow> slice (rb_buf rb) 0 (rb_w rb); Some (bb_Write A bb s2) }
                else Some bb);
        Some (bb_Write A bb' b)
      })"

end
