(* ===== verification/Byte_Stream.thy ===== *)
theory Byte_Stream
  imports Prelude
begin

text \<open>
  The contract between a connection and its buffers. A connection uses a ring buffer
  as a first-in first-out queue of bytes: it looks at the front without consuming
  (\<open>LazyRead\<close>, \<open>LazyReadAll\<close>), consumes (\<open>Shift\<close>, \<open>Reset\<close>) and appends (\<open>Write\<close>).
  \<open>byte_source\<close> is the consuming side, \<open>byte_fifo\<close> adds the producing side; the
  lemmas inside the locales are what the connection's proofs use.
\<close>

locale byte_source =
  fixes inv :: "'s \<Rightarrow> bool"
    and contents :: "'s \<Rightarrow> 'a list"
    and len :: "'s \<Rightarrow> int"
    and is_empty :: "'s \<Rightarrow> bool"
    and lazy_read :: "'s \<Rightarrow> int \<Rightarrow> ('a list \<times> 'a list) option"
    and lazy_read_all :: "'s \<Rightarrow> ('a list \<times> 'a list) option"
    and shift :: "'s \<Rightarrow> int \<Rightarrow> 's"
    and reset :: "'s \<Rightarrow> 's"
  assumes len_law: "inv s \<Longrightarrow> len s = int (length (contents s))"
    and empty_law: "inv s \<Longrightarrow> is_empty s \<longleftrightarrow> contents s = []"
    and lazy_read_law:
      "inv s \<Longrightarrow> \<exists>h t. lazy_read s n = Some (h, t) \<and> h @ t = take (nat n) (contents s)"
    and lazy_read_all_law:
      "inv s \<Longrightarrow> \<exists>h t. lazy_read_all s = Some (h, t) \<and> h @ t = contents s"
    and shift_inv: "inv s \<Longrightarrow> inv (shift s n)"
    and shift_contents: "inv s \<Longrightarrow> contents (shift s n) = drop (nat n) (contents s)"
    and reset_inv: "inv s \<Longrightarrow> inv (reset s)"
    and reset_contents: "inv s \<Longrightarrow> contents (reset s) = []"
begin

lemma len_zero_iff: "inv s \<Longrightarrow> len s = 0 \<longleftrightarrow> is_empty s"
  by (simp add: len_law empty_law)

lemma len_nonneg: "inv s \<Longrightarrow> 0 \<le> len s"
  by (simp add: len_law)

text \<open>Looking at \<open>n\<close> elements and then consuming them splits the queue.\<close>

lemma peek_then_shift:
  assumes "inv s" "lazy_read s n = Some (h, t)"
  shows "h @ t @ contents (shift s n) = contents s"
  using assms lazy_read_law [of s n] by (auto simp: shift_contents simp flip: append_assoc)

text \<open>
  A partial write of the front region, then a partial write of the back region after
  the whole front region went out: what was handed to the kernel and what is still
  queued is the old content.
\<close>

lemma flush_front:
  assumes "inv s" "lazy_read_all s = Some (h, t)" "0 \<le> n" "n \<le> int (length h)"
  shows "take (nat n) h @ contents (shift s n) = contents s"
proof -
  have ht: "contents s = h @ t" using lazy_read_all_law [OF assms(1)] assms(2) by auto
  then show ?thesis using assms by (simp add: shift_contents)
qed

lemma flush_both:
  assumes "inv s" "lazy_read_all s = Some (h, t)" "0 \<le> m" "m \<le> int (length t)"
  shows "h @ take (nat m) t @ contents (shift (shift s (int (length h))) m) = contents s"
proof -
  have ht: "contents s = h @ t" using lazy_read_all_law [OF assms(1)] assms(2) by auto
  then have "contents (shift s (int (length h))) = t"
    using assms(1) by (simp add: shift_contents)
  then show ?thesis
    using assms(1) ht by (simp add: shift_contents shift_inv)
qed

end

locale byte_fifo = byte_source inv contents len is_empty lazy_read lazy_read_all shift reset
  for inv :: "'s \<Rightarrow> bool" and contents :: "'s \<Rightarrow> 'a list" and len :: "'s \<Rightarrow> int"
    and is_empty :: "'s \<Rightarrow> bool"
    and lazy_read :: "'s \<Rightarrow> int \<Rightarrow> ('a list \<times> 'a list) option"
    and lazy_read_all :: "'s \<Rightarrow> ('a list \<times> 'a list) option"
    and shift :: "'s \<Rightarrow> int \<Rightarrow> 's" and reset :: "'s \<Rightarrow> 's" +
  fixes room :: "'s \<Rightarrow> nat \<Rightarrow> bool"
    and put :: "'s \<Rightarrow> 'a list \<Rightarrow> (int \<times> 's) option"
  assumes write_law: "inv s \<Longrightarrow> room s (length p) \<Longrightarrow>
      \<exists>s'. put s p = Some (int (length p), s') \<and> inv s' \<and> contents s' = contents s @ p"
    and room_write: "inv s \<Longrightarrow> room s (length p + k) \<Longrightarrow> put s p = Some (n, s') \<Longrightarrow> room s' k"
    and room_mono: "room s k \<Longrightarrow> j \<le> k \<Longrightarrow> room s j"
begin

lemma write_inv: "inv s \<Longrightarrow> room s (length p) \<Longrightarrow> put s p = Some (n, s') \<Longrightarrow> inv s'"
  using write_law [of s p] by auto

lemma write_contents:
  "inv s \<Longrightarrow> room s (length p) \<Longrightarrow> put s p = Some (n, s') \<Longrightarrow> contents s' = contents s @ p"
  using write_law [of s p] by auto

lemma write_empty_iff:
  "inv s \<Longrightarrow> room s (length p) \<Longrightarrow> put s p = Some (n, s') \<Longrightarrow>
   is_empty s' \<longleftrightarrow> is_empty s \<and> p = []"
  using write_law [of s p] by (auto simp: empty_law)

end

end
