(* ===== verification/Ring_Buffer_Correct.thy ===== *)
theory Ring_Buffer_Correct
  imports Ring_Buffer Byte_Stream
begin

text \<open>
  Correctness of the ring buffer: its representation invariant \<open>rb_inv\<close>, the bytes it
  holds \<open>rb_contents\<close> (oldest first), and for every operation that it keeps the
  invariant, does not panic and commutes with the operation on the list of bytes.

  A buffer satisfying the invariant has one of three layouts: no storage at all, a
  linear region \<open>buf = A @ C @ B\<close> with the content in the middle, or a wrapped region
  \<open>buf = C2 @ B @ C1\<close> with the content in \<open>C1\<close> and then \<open>C2\<close>. Every operation is
  proved on the layouts, where slices are appends.
\<close>

definition rb_inv :: "ring_buffer \<Rightarrow> bool" where
  "rb_inv rb \<longleftrightarrow>
     int (length (rb_buf rb)) = rb_size rb \<and>
     (if rb_size rb = 0
      then rb_mask rb = 0 \<and> rb_r rb = 0 \<and> rb_w rb = 0 \<and> rb_isEmpty rb
      else is_pow2 (rb_size rb) \<and> rb_mask rb = rb_size rb - 1 \<and>
           0 \<le> rb_r rb \<and> rb_r rb < rb_size rb \<and> 0 \<le> rb_w rb \<and> rb_w rb < rb_size rb \<and>
           (rb_isEmpty rb \<longrightarrow> rb_r rb = rb_w rb))"

definition rb_contents :: "ring_buffer \<Rightarrow> bytes" where
  "rb_contents rb =
     (if rb_isEmpty rb then []
      else if rb_w rb > rb_r rb
      then take (nat (rb_w rb - rb_r rb)) (drop (nat (rb_r rb)) (rb_buf rb))
      else drop (nat (rb_r rb)) (rb_buf rb) @ take (nat (rb_w rb)) (rb_buf rb))"

subsection \<open>Layouts\<close>

definition rb_zero :: ring_buffer where
  "rb_zero =
     \<lparr>rb_buf = [], rb_size = 0, rb_mask = 0, rb_r = 0, rb_w = 0, rb_isEmpty = True\<rparr>"

definition rb_lin :: "bool \<Rightarrow> bytes \<Rightarrow> bytes \<Rightarrow> bytes \<Rightarrow> ring_buffer" where
  "rb_lin e A C B =
     \<lparr>rb_buf = A @ C @ B, rb_size = int (length A + length C + length B),
      rb_mask = int (length A + length C + length B) - 1,
      rb_r = int (length A), rb_w = int (length A) + int (length C), rb_isEmpty = e\<rparr>"

definition rb_wrap :: "bytes \<Rightarrow> bytes \<Rightarrow> bytes \<Rightarrow> ring_buffer" where
  "rb_wrap C2 B C1 =
     \<lparr>rb_buf = C2 @ B @ C1, rb_size = int (length C2 + length B + length C1),
      rb_mask = int (length C2 + length B + length C1) - 1,
      rb_r = int (length C2) + int (length B), rb_w = int (length C2), rb_isEmpty = False\<rparr>"

abbreviation pow2_len :: "bytes \<Rightarrow> bool" where
  "pow2_len xs \<equiv> is_pow2 (int (length xs))"

named_theorems rb_layout \<open>the three layouts\<close>

lemmas [rb_layout] = rb_zero_def rb_lin_def rb_wrap_def

lemma rb_zero_inv [simp]: "rb_inv rb_zero" and rb_zero_contents [simp]: "rb_contents rb_zero = []"
  by (simp_all add: rb_inv_def rb_contents_def rb_zero_def)

lemma rb_lin_sel [simp]:
  "rb_buf (rb_lin e A C B) = A @ C @ B"
  "rb_size (rb_lin e A C B) = int (length A + length C + length B)"
  "rb_mask (rb_lin e A C B) = int (length A + length C + length B) - 1"
  "rb_r (rb_lin e A C B) = int (length A)"
  "rb_w (rb_lin e A C B) = int (length A) + int (length C)"
  "rb_isEmpty (rb_lin e A C B) = e"
  by (simp_all add: rb_lin_def)

lemma rb_wrap_sel [simp]:
  "rb_buf (rb_wrap C2 B C1) = C2 @ B @ C1"
  "rb_size (rb_wrap C2 B C1) = int (length C2 + length B + length C1)"
  "rb_mask (rb_wrap C2 B C1) = int (length C2 + length B + length C1) - 1"
  "rb_r (rb_wrap C2 B C1) = int (length C2) + int (length B)"
  "rb_w (rb_wrap C2 B C1) = int (length C2)"
  "rb_isEmpty (rb_wrap C2 B C1) = False"
  by (simp_all add: rb_wrap_def)

lemma rb_zero_sel [simp]:
  "rb_buf rb_zero = []" "rb_size rb_zero = 0" "rb_mask rb_zero = 0"
  "rb_r rb_zero = 0" "rb_w rb_zero = 0" "rb_isEmpty rb_zero = True"
  by (simp_all add: rb_zero_def)

lemma rb_lin_inv [simp]:
  assumes "pow2_len (A @ C @ B)" "B \<noteq> []" "e = (C = [])"
  shows "rb_inv (rb_lin e A C B)" "rb_contents (rb_lin e A C B) = C"
  using assms nonempty_len [of B] by (auto simp: rb_inv_def rb_contents_def add.assoc)

lemma rb_wrap_inv [simp]:
  assumes "pow2_len (C2 @ B @ C1)" "C1 \<noteq> []"
  shows "rb_inv (rb_wrap C2 B C1)" "rb_contents (rb_wrap C2 B C1) = C1 @ C2"
  using assms nonempty_len [of C1]
  by (auto simp: rb_inv_def rb_contents_def add.assoc nat_add_distrib)

lemma split3:
  assumes "0 \<le> i" "i \<le> j" "j \<le> int (length xs)"
  obtains A C B where "xs = A @ C @ B" "i = int (length A)" "j = int (length A) + int (length C)"
proof -
  let ?A = "take (nat i) xs" and ?C = "take (nat (j - i)) (drop (nat i) xs)"
    and ?B = "drop (nat (j - i)) (drop (nat i) xs)"
  have "xs = ?A @ ?C @ ?B" by (simp only: append_take_drop_id)
  moreover have "i = int (length ?A)" "j = int (length ?A) + int (length ?C)"
    using assms by (simp_all add: min_def; arith)+
  ultimately show thesis by (rule that)
qed

lemma rb_inv_layout:
  assumes "rb_inv rb"
  obtains (zero) "rb = rb_zero"
  | (lin) A C B where "rb = rb_lin (C = []) A C B" "pow2_len (A @ C @ B)" "B \<noteq> []"
  | (wrap) C2 B C1 where "rb = rb_wrap C2 B C1" "pow2_len (C2 @ B @ C1)" "C1 \<noteq> []"
proof -
  consider "rb_size rb = 0" | "rb_size rb \<noteq> 0" "rb_isEmpty rb \<or> rb_r rb < rb_w rb"
    | "rb_size rb \<noteq> 0" "\<not> rb_isEmpty rb" "rb_w rb \<le> rb_r rb" by fastforce
  then show thesis
  proof cases
    case 1
    with assms have "rb = rb_zero"
      by (cases rb) (simp add: rb_inv_def rb_zero_def)
    then show thesis by (rule zero)
  next
    case 2
    with assms have "0 \<le> rb_r rb" "rb_r rb \<le> rb_w rb" "rb_w rb \<le> int (length (rb_buf rb))"
      by (auto simp: rb_inv_def)
    then obtain A C B where s: "rb_buf rb = A @ C @ B" "rb_r rb = int (length A)"
      "rb_w rb = int (length A) + int (length C)" by (rule split3)
    show thesis
    proof (rule lin)
      show "rb = rb_lin (C = []) A C B"
        using 2 assms s by (cases rb) (auto simp: rb_inv_def rb_lin_def)
      show "pow2_len (A @ C @ B)" "B \<noteq> []"
        using 2 assms s by (auto simp: rb_inv_def)
    qed
  next
    case 3
    with assms have "0 \<le> rb_w rb" "rb_w rb \<le> rb_r rb" "rb_r rb \<le> int (length (rb_buf rb))"
      by (auto simp: rb_inv_def)
    then obtain C2 B C1 where s: "rb_buf rb = C2 @ B @ C1" "rb_w rb = int (length C2)"
      "rb_r rb = int (length C2) + int (length B)" by (rule split3)
    show thesis
    proof (rule wrap)
      show "rb = rb_wrap C2 B C1"
        using 3 assms s by (cases rb) (auto simp: rb_inv_def rb_wrap_def)
      show "pow2_len (C2 @ B @ C1)" "C1 \<noteq> []"
        using 3 assms s by (auto simp: rb_inv_def)
    qed
  qed
qed

subsection \<open>Observers\<close>

lemma rb_Length_eq: "rb_inv rb \<Longrightarrow> rb_Length rb = int (length (rb_contents rb))"
  by (erule rb_inv_layout) (auto simp: rb_Length_def)

lemma rb_isEmpty_iff: "rb_inv rb \<Longrightarrow> rb_isEmpty rb \<longleftrightarrow> rb_contents rb = []"
  by (erule rb_inv_layout) simp_all

lemma rb_Free_eq: "rb_inv rb \<Longrightarrow> rb_Free rb = rb_size rb - rb_Length rb"
  by (erule rb_inv_layout) (auto simp: rb_Free_def rb_Length_def)

lemma rb_size_eq: "rb_inv rb \<Longrightarrow> rb_size rb = int (length (rb_buf rb))"
  by (simp add: rb_inv_def)

lemma rb_Length_bounds: "rb_inv rb \<Longrightarrow> 0 \<le> rb_Length rb \<and> rb_Length rb \<le> rb_size rb"
  by (erule rb_inv_layout) (auto simp: rb_Length_def)

lemma rb_LazyReadAll_eq:
  assumes "rb_inv rb"
  obtains h t where "rb_LazyReadAll rb = Some (h, t)" "h @ t = rb_contents rb"
    "rb_contents rb \<noteq> [] \<Longrightarrow> h \<noteq> []"
  using assms
proof (cases rule: rb_inv_layout)
  case zero
  then show thesis by (intro that [of "[]" "[]"]) (simp_all add: rb_LazyReadAll_def)
next
  case (lin A C B)
  then show thesis
    by (intro that [of C "[]"]) (auto simp: rb_LazyReadAll_def slice_def)
next
  case (wrap C2 B C1)
  then show thesis
    by (intro that [of C1 C2])
       (auto simp: rb_LazyReadAll_def rb_Len_def slice_def nat_add_distrib)
qed

lemma rb_LazyRead_eq:
  assumes "rb_inv rb"
  obtains h t where "rb_LazyRead rb n = Some (h, t)" "h @ t = take (nat n) (rb_contents rb)"
  using assms
proof (cases rule: rb_inv_layout)
  case zero
  then show thesis by (intro that [of "[]" "[]"]) (simp_all add: rb_LazyRead_def)
next
  case (lin A C B)
  then show thesis
    by (intro that [of "take (nat n) C" "[]"])
       (auto simp: rb_LazyRead_def Let_def slice_def)
next
  case (wrap C2 B C1)
  show thesis
  proof (cases "n \<le> int (length C1)")
    case True
    with wrap nonempty_len [of C2] show thesis
      by (intro that [of "take (nat n) C1" "[]"])
         (auto simp: rb_LazyRead_def Let_def slice_def nat_add_distrib)
  next
    case False
    with wrap show thesis
      by (intro that [of C1 "take (nat (n - int (length C1))) C2"])
         (auto simp: rb_LazyRead_def rb_Len_def Let_def slice_def nat_add_distrib nat_diff_distrib')
  qed
qed

subsection \<open>Consuming\<close>

text \<open>
  Read, ReadByte and Shift move the read position by the same step, written three
  ways in the code; \<open>rb_advance\<close> is that step.
\<close>

definition rb_advance :: "ring_buffer \<Rightarrow> int \<Rightarrow> ring_buffer" where
  "rb_advance rb n =
     (let rb' = rb\<lparr>rb_r := (rb_r rb + n) AND rb_mask rb\<rparr>
      in if rb_r rb' = rb_w rb' then rb'\<lparr>rb_isEmpty := True\<rparr> else rb')"

lemma rb_advance_lin:
  assumes "pow2_len (A @ Ca @ Cb @ B)" "B \<noteq> []"
  shows "rb_advance (rb_lin e A (Ca @ Cb) B) (int (length Ca)) =
         rb_lin (if Cb = [] then True else e) (A @ Ca) Cb B"
proof -
  have "(int (length A) + int (length Ca)) AND (int (length (A @ Ca @ Cb @ B)) - 1) =
        int (length A) + int (length Ca)"
    using assms nonempty_len [of B] by (subst and_pow2_mask) simp_all
  then show ?thesis
    by (simp add: rb_advance_def Let_def rb_lin_def add.assoc)
qed

lemma rb_advance_wrap_part:
  assumes "pow2_len (C2 @ B @ Ca @ Cb)" "Ca \<noteq> []" "Cb \<noteq> []"
  shows "rb_advance (rb_wrap C2 B (Ca @ Cb)) (int (length Ca)) = rb_wrap C2 (B @ Ca) Cb"
proof -
  have "(int (length C2) + int (length B) + int (length Ca)) AND
          (int (length (C2 @ B @ Ca @ Cb)) - 1) =
        int (length C2) + int (length B) + int (length Ca)"
    using assms nonempty_len [of Cb] by (subst and_pow2_mask) auto
  then show ?thesis
    using assms nonempty_len [of Ca] by (simp add: rb_advance_def Let_def rb_wrap_def add.assoc)
qed

lemma rb_advance_wrap_end:
  assumes "pow2_len (C2 @ B @ C1)"
  shows "rb_advance (rb_wrap C2 B C1) (int (length C1)) = rb_lin (C2 = []) [] C2 (B @ C1)"
proof -
  have "(int (length C2) + int (length B) + int (length C1)) AND
          (int (length (C2 @ B @ C1)) - 1) = 0"
    using assms by (subst and_pow2_mask) (simp_all add: add.assoc)
  then show ?thesis
    by (auto simp add: rb_advance_def Let_def rb_lin_def rb_wrap_def add.assoc)
qed

lemma rb_advance_wrap_over:
  assumes "pow2_len ((Ca @ Cb) @ B @ C1)" "C1 \<noteq> []"
  shows "rb_advance (rb_wrap (Ca @ Cb) B C1) (int (length C1) + int (length Ca)) =
         rb_lin (Cb = []) Ca Cb (B @ C1)"
proof -
  let ?s = "int (length ((Ca @ Cb) @ B @ C1))"
  have "(int (length Ca) + int (length Cb) + int (length B) + (int (length C1) + int (length Ca)))
          AND (?s - 1) = (int (length Ca) + ?s) mod ?s"
    using assms by (subst and_pow2_mask) (simp_all add: algebra_simps)
  also have "\<dots> = int (length Ca)"
    by (subst mod_add_self2, rule mod_pos_pos_trivial)
       (use assms nonempty_len [of C1] in simp_all)
  finally show ?thesis
    by (auto simp add: rb_advance_def Let_def rb_lin_def rb_wrap_def add.assoc)
qed

text \<open>Advancing by a positive number of held bytes drops them.\<close>

lemma rb_advance:
  assumes inv: "rb_inv rb" and n: "0 < n" "n \<le> rb_Length rb"
  shows "rb_inv (rb_advance rb n)"
    and "rb_contents (rb_advance rb n) = drop (nat n) (rb_contents rb)"
    and "rb_size (rb_advance rb n) = rb_size rb"
proof -
  have "rb_inv (rb_advance rb n) \<and>
        rb_contents (rb_advance rb n) = drop (nat n) (rb_contents rb)"
    using inv
  proof (cases rule: rb_inv_layout)
    case zero
    with n show ?thesis by (simp add: rb_Length_def)
  next
    case (lin A C B)
    then have "n \<le> int (length C)" using n by (simp add: rb_Length_def split: if_splits)
    then obtain Ca Cb where C: "C = Ca @ Cb" "n = int (length Ca)"
      using n split2 [of n C] by auto
    then have "C \<noteq> []" using n by auto
    then have "rb_advance rb n = rb_lin (Cb = []) (A @ Ca) Cb B"
      using rb_advance_lin [of A Ca Cb B "C = []"] lin C by simp
    then show ?thesis using lin C by simp
  next
    case (wrap C2 B C1)
    then have len: "n \<le> int (length C1) + int (length C2)"
      using n by (simp add: rb_Length_def split: if_splits)
    consider "n < int (length C1)" | "n = int (length C1)" | "int (length C1) < n" by linarith
    then show ?thesis
    proof cases
      case 1
      then obtain Ca Cb where C: "C1 = Ca @ Cb" "n = int (length Ca)"
        using n split2 [of n C1] by auto
      then have "Ca \<noteq> []" "Cb \<noteq> []" using 1 n by auto
      then show ?thesis using rb_advance_wrap_part [of C2 B Ca Cb] wrap C by simp
    next
      case 2
      then show ?thesis using rb_advance_wrap_end [of C2 B C1] wrap by simp
    next
      case 3
      then obtain Ca Cb where C: "C2 = Ca @ Cb" "n - int (length C1) = int (length Ca)"
        using len split2 [of "n - int (length C1)" C2] by auto
      have "n = int (length C1) + int (length Ca)" using C by simp
      then show ?thesis
        using rb_advance_wrap_over [of Ca Cb B C1] wrap C(1) by (simp add: nat_add_distrib)
    qed
  qed
  then show "rb_inv (rb_advance rb n)"
    and "rb_contents (rb_advance rb n) = drop (nat n) (rb_contents rb)" by simp_all
  show "rb_size (rb_advance rb n) = rb_size rb"
    by (simp add: rb_advance_def Let_def)
qed

lemma rb_Reset_correct [simp]:
  assumes "rb_inv rb"
  shows "rb_inv (rb_Reset rb)" "rb_contents (rb_Reset rb) = []" "rb_size (rb_Reset rb) = rb_size rb"
  using assms is_pow2_pos by (auto simp: rb_Reset_def rb_inv_def rb_contents_def)

lemma rb_Shift_correct:
  assumes "rb_inv rb"
  shows "rb_inv (rb_Shift rb n)" "rb_contents (rb_Shift rb n) = drop (nat n) (rb_contents rb)"
    "rb_size (rb_Shift rb n) = rb_size rb"
proof -
  have eq: "rb_Shift rb n =
    (if n \<le> 0 then rb else if n < rb_Length rb then rb_advance rb n else rb_Reset rb)"
    by (simp add: rb_Shift_def rb_advance_def)
  show "rb_inv (rb_Shift rb n)" "rb_size (rb_Shift rb n) = rb_size rb"
    using assms by (simp_all add: eq rb_advance)
  show "rb_contents (rb_Shift rb n) = drop (nat n) (rb_contents rb)"
    using assms by (auto simp: eq rb_advance rb_Length_eq)
qed

lemma rb_Read_nothing:
  "rb_Read rb [] = Some (0, None, [], rb)"
  "rb_isEmpty rb \<Longrightarrow> p \<noteq> [] \<Longrightarrow> rb_Read rb p = Some (0, Some ErrIsEmpty, p, rb)"
  by (simp_all add: rb_Read_def)

lemma go_copy_two:
  assumes "length s1 \<le> length p" "length s1 + length s2 \<le> length p"
  shows "copy_at (go_copy p s1) (int (length s1)) s2 =
         Some (s1 @ s2 @ drop (length s1 + length s2) p)"
  using assms by (simp add: copy_at_def go_copy_def add.commute)

lemma rb_Read_eq:
  assumes inv: "rb_inv rb" and ne: "p \<noteq> []" "rb_contents rb \<noteq> []"
    and n: "n = min (length p) (length (rb_contents rb))"
  shows "rb_Read rb p =
    Some (int n, None, take n (rb_contents rb) @ drop n p, rb_advance rb (int n))"
  using inv
proof (cases rule: rb_inv_layout)
  case zero
  with ne show ?thesis by simp
next
  case (lin A C B)
  then have C: "C \<noteq> []" using ne by simp
  have cond: "\<not> rb_isEmpty rb" "rb_r rb < rb_w rb"
    "(if rb_w rb - rb_r rb > int (length p) then int (length p) else rb_w rb - rb_r rb) = int n"
    using lin C n by auto
  have sl: "slice (rb_buf rb) (rb_r rb) (rb_r rb + int n) = Some (take n C)"
    using lin C n by (auto simp: slice_def)
  have msk: "(rb_r rb + int n) AND rb_mask rb = rb_r rb + int n"
    using lin n nonempty_len [of B] and_pow2_mask [of "rb_size rb"] by (simp add: add.assoc)
  have "rb_Read rb p = Some (int n, None, go_copy p (take n C), rb_advance rb (int n))"
    using ne by (simp add: rb_Read_def cond(1,2) cond(3) sl rb_advance_def msk Let_def)
  then show ?thesis using n lin by (simp add: go_copy_def)
next
  case (wrap C2 B C1)
  have cond: "\<not> rb_isEmpty rb" "\<not> rb_r rb < rb_w rb"
    "(if rb_size rb - rb_r rb + rb_w rb > int (length p) then int (length p)
      else rb_size rb - rb_r rb + rb_w rb) = int n"
    using wrap n by auto
  have "rb_Read rb p = Some (int n, None, take n (C1 @ C2) @ drop n p, rb_advance rb (int n))"
  proof (cases "n \<le> length C1")
    case True
    then have "rb_r rb + int n \<le> rb_size rb"
      "slice (rb_buf rb) (rb_r rb) (rb_r rb + int n) = Some (take n C1)"
      using wrap by (auto simp: slice_def nat_add_distrib)
    moreover have "go_copy p (take n C1) = take n C1 @ drop n p"
      using True n by (simp add: go_copy_def)
    ultimately show ?thesis using True ne
      by (simp add: rb_Read_def cond(1,2) cond(3) rb_advance_def Let_def)
  next
    case False
    then have "copy_at (go_copy p C1) (rb_size rb - rb_r rb) (take (n - length C1) C2) =
        Some (C1 @ take (n - length C1) C2 @ drop n p)"
      using n wrap go_copy_two [of C1 p "take (n - length C1) C2"] by simp
    moreover have "\<not> rb_r rb + int n \<le> rb_size rb"
      using wrap False by auto
    moreover have "slice (rb_buf rb) (rb_r rb) (rb_Len rb) = Some C1"
      "slice (rb_buf rb) 0 (int n - (rb_size rb - rb_r rb)) = Some (take (n - length C1) C2)"
      using wrap False n by (auto simp: slice_def rb_Len_def nat_add_distrib nat_diff_distrib')
    ultimately show ?thesis using False ne
      by (simp add: rb_Read_def cond(1,2) cond(3) rb_advance_def Let_def)
  qed
  with wrap show ?thesis by simp
qed

lemma rb_ReadByte_correct:
  assumes inv: "rb_inv rb" and ne: "rb_contents rb \<noteq> []"
  shows "rb_ReadByte rb = Some (hd (rb_contents rb), None, rb_advance rb 1)"
proof -
  from inv ne have size: "is_pow2 (rb_size rb)" "rb_mask rb = rb_size rb - 1"
    "0 \<le> rb_r rb" "rb_r rb < rb_size rb" "\<not> rb_isEmpty rb"
    by (auto simp: rb_inv_def rb_contents_def split: if_splits)
  have "index_get (rb_buf rb) (rb_r rb) = Some (hd (rb_contents rb))"
    using inv
  proof (cases rule: rb_inv_layout)
    case zero
    with ne show ?thesis by simp
  next
    case (lin A C B)
    with ne show ?thesis by (cases C) (simp_all add: index_get_def nth_append)
  next
    case (wrap C2 B C1)
    then show ?thesis by (cases C1) (simp_all add: index_get_def nth_append nat_add_distrib)
  qed
  moreover have "(rb_r rb + 1) AND rb_mask rb = (if rb_r rb + 1 = rb_size rb then 0 else rb_r rb + 1)"
    using size by (auto simp: and_pow2_mask)
  ultimately show ?thesis
    using size by (auto simp: rb_ReadByte_def rb_advance_def Let_def)
qed

subsection \<open>Producing\<close>

lemma rb_Write_copy_lin:
  assumes "pow2_len (A @ C @ B)" "B \<noteq> []" "p \<noteq> []" "length p \<le> length A + length B"
  shows "\<exists>rb'. rb_Write_copy (rb_lin e A C B) p = Some rb' \<and> rb_inv rb' \<and>
    rb_contents rb' = C @ p \<and> rb_size rb' = int (length (A @ C @ B))"
proof -
  consider "length p < length B" | "length p = length B" | "length B < length p" by linarith
  then show ?thesis
  proof cases
    case 1
    then obtain B1 B2 where B: "B = B1 @ B2" "length p = length B1"
      using split2 [of "int (length p)" B] by auto
    then have "B2 \<noteq> []" using 1 by auto
    have cp: "copy_at (A @ C @ B1 @ B2) (int (length A) + int (length C)) p = Some (A @ C @ p @ B2)"
      using copy_at_mid [of _ "A @ C" B1 p B2] B by simp
    have "rb_Write_copy (rb_lin e A C B) p = Some (rb_lin False A (C @ p) B2)"
      using B \<open>B2 \<noteq> []\<close> nonempty_len [OF \<open>B2 \<noteq> []\<close>] cp
      by (simp add: rb_Write_copy_def rb_lin_def Let_def)
    then show ?thesis using assms B \<open>B2 \<noteq> []\<close> by simp
  next
    case 2
    have cp: "copy_at (A @ C @ B) (int (length A) + int (length C)) p = Some (A @ C @ p)"
      using copy_at_suffix [of _ "A @ C" B p] 2 by simp
    have "rb_Write_copy (rb_lin e A C B) p = Some (rb_wrap [] A (C @ p))"
      using 2 cp by (simp add: rb_Write_copy_def rb_lin_def rb_wrap_def Let_def)
    then show ?thesis using assms 2 by simp
  next
    case 3
    then obtain P1 P2 where p: "p = P1 @ P2" "length B = length P1"
      using split2 [of "int (length B)" p] by auto
    then obtain A1 A2 where A: "A = A1 @ A2" "length P2 = length A1"
      using assms split2 [of "int (length P2)" A] by auto
    have sl: "slice (P1 @ P2) 0 (int (length P1)) = Some P1"
      "slice (P1 @ P2) (int (length P1)) (int (length P1) + int (length P2)) = Some P2"
      by (simp_all add: slice_def)
    have cp: "copy_at (A1 @ A2 @ C @ B) (int (length A1) + int (length A2) + int (length C)) P1 =
        Some (A1 @ A2 @ C @ P1)"
      using copy_at_suffix [of _ "A1 @ A2 @ C" B P1] p by (simp add: add.assoc)
    have gc: "go_copy (A1 @ A2 @ C @ P1) P2 = P2 @ A2 @ C @ P1"
      using A by (simp add: go_copy_def)
    have "P1 \<noteq> []" "A1 \<noteq> []" using 3 p A assms(2) by auto
    have c1: "\<not> int (length p) \<le> int (length B)" "int (length p) - int (length B) = int (length P2)"
      using p 3 by simp_all
    have "rb_Write_copy (rb_lin e A C B) p = Some (rb_wrap P2 A2 (C @ P1))"
      using c1 p A sl cp gc \<open>A1 \<noteq> []\<close> \<open>P1 \<noteq> []\<close> nonempty_len [of P1]
      by (simp only: rb_Write_copy_def Let_def rb_lin_sel rb_wrap_sel)
         (simp add: rb_lin_def rb_wrap_def)
    moreover have "length (A @ C @ B) = length (P2 @ A2 @ C @ P1)" using p A by simp
    then have "pow2_len (P2 @ A2 @ C @ P1)" using assms(1) by (simp only:)
    ultimately show ?thesis
      using rb_wrap_inv [of P2 A2 "C @ P1"] \<open>P1 \<noteq> []\<close> p A by simp
  qed
qed

lemma rb_Write_copy_wrap:
  assumes "pow2_len (C2 @ B @ C1)" "C1 \<noteq> []" "p \<noteq> []" "length p \<le> length B"
  shows "\<exists>rb'. rb_Write_copy (rb_wrap C2 B C1) p = Some rb' \<and> rb_inv rb' \<and>
    rb_contents rb' = C1 @ C2 @ p \<and> rb_size rb' = int (length (C2 @ B @ C1))"
proof -
  obtain B1 B2 where B: "B = B1 @ B2" "length p = length B1"
    using assms split2 [of "int (length p)" B] by auto
  have "B1 \<noteq> []" using B assms by auto
  have cp: "copy_at (C2 @ B1 @ B2 @ C1) (int (length C2)) p = Some (C2 @ p @ B2 @ C1)"
    using copy_at_mid [of _ C2 B1 p "B2 @ C1"] B by simp
  have "rb_Write_copy (rb_wrap C2 B C1) p = Some (rb_wrap (C2 @ p) B2 C1)"
    using B cp assms nonempty_len [OF assms(2)] nonempty_len [OF \<open>B1 \<noteq> []\<close>]
    by (simp add: rb_Write_copy_def rb_wrap_def Let_def)
  then show ?thesis using assms B by simp
qed

lemma rb_Write_copy_correct:
  assumes "rb_inv rb" "p \<noteq> []" "int (length p) \<le> rb_Free rb"
  shows "\<exists>rb'. rb_Write_copy rb p = Some rb' \<and> rb_inv rb' \<and>
    rb_contents rb' = rb_contents rb @ p \<and> rb_size rb' = rb_size rb"
  using assms(1)
proof (cases rule: rb_inv_layout)
  case zero
  with assms show ?thesis by (simp add: rb_Free_def)
next
  case (lin A C B)
  then have "length p \<le> length A + length B"
    using assms by (auto simp: rb_Free_def split: if_splits)
  with lin assms rb_Write_copy_lin [of A C B p "C = []"] show ?thesis by (simp add: add.assoc)
next
  case (wrap C2 B C1)
  then have "length p \<le> length B"
    using assms nonempty_len [of p] by (auto simp: rb_Free_def split: if_splits)
  with wrap assms rb_Write_copy_wrap [of C2 B C1 p] show ?thesis by (simp add: add.assoc)
qed

text \<open>The capacity malloc chooses, for a request that fits the address space.\<close>

lemma malloc_newCap:
  assumes "0 < cap" "0 \<le> sz" "sz + cap \<le> maxAlloc"
  obtains N where "(if sz = 0 \<and> initSize \<ge> cap then Some initSize
        else CeilToPowerOfTwo (sz + cap)) = Some N"
      "is_pow2 N" "sz + cap \<le> N" "N \<le> maxAlloc" "N \<le> max initSize (2 * (sz + cap))"
proof -
  consider "sz = 0" "cap \<le> initSize" | "\<not> (sz = 0 \<and> initSize \<ge> cap)" "sz + cap \<le> 2"
    | "\<not> (sz = 0 \<and> initSize \<ge> cap)" "2 < sz + cap" by linarith
  then show thesis
  proof cases
    case 1
    moreover have "is_pow2 initSize" using is_pow2I [of 12] by (simp add: initSize_def)
    ultimately show thesis by (intro that [of initSize]) (simp_all add: initSize_def maxAlloc_def)
  next
    case 2
    moreover have "is_pow2 2" using is_pow2I [of 1] by simp
    ultimately show thesis
      by (intro that [of 2])
         (simp_all only: CeilToPowerOfTwo_small if_False, simp_all add: maxAlloc_def initSize_def)
  next
    case 3
    obtain k where k: "CeilToPowerOfTwo (sz + cap) = Some (2 ^ Suc k)" "2 ^ k < sz + cap"
      "sz + cap \<le> 2 ^ Suc k" "k < 62"
      using CeilToPowerOfTwo_eq [of "sz + cap"] 3 assms(3) by (auto simp: maxAlloc_def)
    have "k < 48"
    proof (rule ccontr)
      assume "\<not> k < 48"
      then have "(2::int) ^ 48 \<le> 2 ^ k" by (intro power_increasing) simp_all
      with k(2) assms(3) show False by (simp add: maxAlloc_def)
    qed
    then have "(2::int) ^ Suc k \<le> 2 ^ 48" by (intro power_increasing) simp_all
    then show thesis
      using k 3 is_pow2I [of "Suc k"]
      by (intro that [of "2 ^ Suc k"]) (auto simp add: maxAlloc_def)
  qed
qed

lemma rb_Read_all:
  assumes inv: "rb_inv rb" and n: "n \<noteq> 0" "length (rb_contents rb) \<le> n"
  shows "\<exists>m er rb'. rb_Read rb (replicate n 0) = Some (m, er,
          rb_contents rb @ replicate (n - length (rb_contents rb)) 0, rb') \<and> rb_isEmpty rb'"
proof (cases "rb_contents rb = []")
  case True
  then show ?thesis
    using rb_isEmpty_iff [OF inv] n by (simp add: rb_Read_nothing)
next
  case False
  let ?m = "length (rb_contents rb)"
  have "rb_Read rb (replicate n 0) = Some (int ?m, None,
      take ?m (rb_contents rb) @ drop ?m (replicate n 0), rb_advance rb (int ?m))"
    by (rule rb_Read_eq) (use inv False n in simp_all)
  moreover have "rb_isEmpty (rb_advance rb (int ?m))"
    using rb_advance [OF inv, of "int ?m"] False rb_isEmpty_iff rb_Length_eq [OF inv] by simp
  ultimately show ?thesis by simp
qed

lemma rb_malloc_correct:
  assumes inv: "rb_inv rb" and cap: "0 < cap" "rb_size rb + cap \<le> maxAlloc"
  shows "\<exists>N. rb_malloc rb cap = Some (rb_lin True [] (rb_contents rb)
             (replicate (nat N - length (rb_contents rb)) 0)) \<and>
           is_pow2 N \<and> rb_size rb + cap \<le> N \<and> N \<le> maxAlloc \<and>
           N \<le> max initSize (2 * (rb_size rb + cap))"
proof -
  have len: "0 \<le> rb_Length rb" "rb_Length rb \<le> rb_size rb" and
    lenc: "rb_Length rb = int (length (rb_contents rb))"
    using rb_Length_bounds [OF inv] rb_Length_eq [OF inv] by simp_all
  have w64: "wrap64 (rb_size rb + cap) = rb_size rb + cap"
    by (rule wrap64_nonneg) (use cap len in \<open>simp_all add: maxAlloc_def\<close>)
  obtain N where N: "(if rb_size rb = 0 \<and> initSize \<ge> cap then Some initSize
        else CeilToPowerOfTwo (wrap64 (rb_size rb + cap))) = Some N"
      "is_pow2 N" "rb_size rb + cap \<le> N" "N \<le> maxAlloc"
      "N \<le> max initSize (2 * (rb_size rb + cap))"
    unfolding w64 by (rule malloc_newCap [OF cap(1) _ cap(2)]) (use len in simp)
  let ?buf = "replicate (nat N) (0::byte)"
  have mk: "make_bytes N = Some ?buf"
    using N is_pow2_pos [of N] by (simp add: make_bytes_def)
  have "\<exists>n er rb'. rb_Read rb ?buf = Some (n, er,
          rb_contents rb @ replicate (nat N - length (rb_contents rb)) 0, rb') \<and> rb_isEmpty rb'"
    by (rule rb_Read_all [OF inv]) (use N len lenc cap in simp_all)
  then obtain n er rb' where rd: "rb_Read rb ?buf = Some (n, er,
          rb_contents rb @ replicate (nat N - length (rb_contents rb)) 0, rb')" "rb_isEmpty rb'"
    by blast
  have "rb_malloc rb cap = Some (rb_lin True [] (rb_contents rb)
             (replicate (nat N - length (rb_contents rb)) 0))"
    using N(1) mk rd lenc is_pow2_pos [OF N(2)] N(3) len cap
    by (simp add: rb_malloc_def Let_def rb_lin_def)
  with N show ?thesis by blast
qed

text \<open>
  The effect of Write: the bytes are appended, the storage only grows, and only when
  they do not fit. The request must fit the address space, or \<open>make\<close> panics.
\<close>

lemma rb_Write_correct:
  assumes inv: "rb_inv rb" and room: "int (length (rb_contents rb) + length p) \<le> maxAlloc"
  shows "\<exists>rb'. rb_Write rb p = Some (int (length p), rb') \<and> rb_inv rb' \<and>
    rb_contents rb' = rb_contents rb @ p \<and>
    rb_size rb' = (if int (length p) \<le> rb_Free rb then rb_size rb else rb_size rb') \<and>
    rb_size rb \<le> rb_size rb' \<and>
    rb_size rb' \<le> max (rb_size rb) (max initSize (2 * int (length (rb_contents rb @ p))))"
proof (cases "p = []")
  case True
  with assms show ?thesis by (simp add: rb_Write_def)
next
  case ne: False
  show ?thesis
  proof (cases "int (length p) \<le> rb_Free rb")
    case True
    with rb_Write_copy_correct [OF inv ne] ne room show ?thesis by (auto simp: rb_Write_def)
  next
    case False
    have len: "0 \<le> rb_Length rb" "rb_Free rb = rb_size rb - rb_Length rb"
      "rb_Length rb = int (length (rb_contents rb))" "rb_Length rb \<le> rb_size rb"
      using rb_Length_bounds [OF inv] rb_Free_eq [OF inv] rb_Length_eq [OF inv] by simp_all
    obtain N where N: "rb_malloc rb (int (length p) - rb_Free rb) = Some (rb_lin True []
        (rb_contents rb) (replicate (nat N - length (rb_contents rb)) 0))" "is_pow2 N"
      "rb_size rb + (int (length p) - rb_Free rb) \<le> N" "N \<le> maxAlloc"
      "N \<le> max initSize (2 * (rb_size rb + (int (length p) - rb_Free rb)))"
      using rb_malloc_correct [OF inv, of "int (length p) - rb_Free rb"] False len room by auto
    let ?B = "replicate (nat N - length (rb_contents rb)) (0::byte)"
    have "int (length (rb_contents rb)) + int (length p) \<le> N" using N(3) len by simp
    then have B: "length p \<le> length ?B" "?B \<noteq> []"
      "int (length ([] @ rb_contents rb @ ?B)) = N"
      using ne nonempty_len [OF ne] by auto
    obtain rb' where "rb_Write_copy (rb_lin True [] (rb_contents rb) ?B) p = Some rb'"
      "rb_inv rb'" "rb_contents rb' = rb_contents rb @ p" "rb_size rb' = N"
      using rb_Write_copy_lin [of "[]" "rb_contents rb" ?B p True] N(2) B ne by auto
    moreover have "N \<le> max (rb_size rb) (max initSize (2 * int (length (rb_contents rb @ p))))"
      "rb_size rb \<le> N"
      using N(3,5) len False by (auto simp: max_def split: if_splits)
    ultimately show ?thesis using N ne False by (simp add: rb_Write_def Let_def)
  qed
qed

lemma rb_Write_copy_byte:
  assumes "0 \<le> rb_w rb" "rb_w rb < rb_size rb" "int (length (rb_buf rb)) = rb_size rb"
  shows "rb_Write_copy rb [c] =
    do {
      b \<leftarrow> index_set (rb_buf rb) (rb_w rb) c;
      let rb2 = rb\<lparr>rb_buf := b, rb_w := rb_w rb + 1\<rparr>;
      let rb3 = (if rb_w rb2 = rb_size rb2 then rb2\<lparr>rb_w := 0\<rparr> else rb2);
      Some (rb3\<lparr>rb_isEmpty := False\<rparr>)
    }"
proof -
  have i: "nat (rb_w rb) < length (rb_buf rb)" using assms by simp
  then have "copy_at (rb_buf rb) (rb_w rb) [c] = index_set (rb_buf rb) (rb_w rb) c"
    using assms by (simp add: index_set_def copy_at_def go_copy_def upd_conv_take_nth_drop)
  then show ?thesis using assms by (simp add: rb_Write_copy_def Let_def)
qed

text \<open>WriteByte is Write of a one-byte slice.\<close>

lemma rb_WriteByte_eq_Write:
  assumes inv: "rb_inv rb" and room: "int (length (rb_contents rb) + 1) \<le> maxAlloc"
  shows "rb_WriteByte rb c = map_option snd (rb_Write rb [c])"
proof (cases "rb_Free rb < 1")
  case False
  then have "0 \<le> rb_w rb" "rb_w rb < rb_size rb" "int (length (rb_buf rb)) = rb_size rb"
    using inv by (auto simp: rb_inv_def rb_Free_def split: if_splits)
  from rb_Write_copy_byte [OF this, of c] False show ?thesis
    by (simp add: rb_WriteByte_def rb_Write_def Let_def map_option_bind comp_def)
next
  case True
  have f: "rb_Free rb = 0"
    using True rb_Length_bounds [OF inv] rb_Free_eq [OF inv] by simp
  obtain N where N: "rb_malloc rb 1 = Some (rb_lin True []
      (rb_contents rb) (replicate (nat N - length (rb_contents rb)) 0))"
    "rb_size rb + 1 \<le> N"
    using rb_malloc_correct [OF inv, of 1] room f rb_Free_eq [OF inv] rb_Length_eq [OF inv] by auto
  define rb1 where "rb1 = rb_lin True []
      (rb_contents rb) (replicate (nat N - length (rb_contents rb)) 0)"
  have "int (length (rb_contents rb)) < N" "0 \<le> N"
    using N(2) rb_Length_bounds [OF inv] rb_Length_eq [OF inv] by linarith+
  then have "0 \<le> rb_w rb1" "rb_w rb1 < rb_size rb1" "int (length (rb_buf rb1)) = rb_size rb1"
    by (simp_all add: rb1_def)
  from rb_Write_copy_byte [OF this, of c] N f True show ?thesis
    by (simp add: rb_WriteByte_def rb_Write_def rb1_def [symmetric] Let_def map_option_bind comp_def)
qed

subsection \<open>Creation\<close>

lemma rb_New_correct:
  assumes "n \<le> maxAlloc"
  shows "\<exists>rb. rb_New n = Some rb \<and> rb_inv rb \<and> rb_contents rb = [] \<and> n \<le> rb_size rb \<and>
    rb_size rb \<le> maxAlloc"
proof (cases "n = 0")
  case True
  then show ?thesis
    by (auto simp: rb_New_def rb_zero_def [symmetric] maxAlloc_def)
next
  case n0: False
  obtain N where N: "CeilToPowerOfTwo n = Some N" "is_pow2 N" "n \<le> N" "N \<le> maxAlloc"
  proof (cases "n \<le> 2")
    case True
    then show thesis
      using is_pow2I [of 1] by (intro that [of 2]) (simp_all add: CeilToPowerOfTwo_small maxAlloc_def)
  next
    case False
    then show thesis using malloc_newCap [of "n - 1" 1] assms that by auto
  qed
  let ?rb = "rb_lin True [] [] (replicate (nat N) 0)"
  have N0: "0 < N" using N(2) by (rule is_pow2_pos)
  have "rb_New n = Some ?rb"
    using n0 N N0 by (simp add: rb_New_def make_bytes_def rb_lin_def)
  moreover have "rb_inv ?rb" "rb_contents ?rb = []" "rb_size ?rb = N"
    using N N0 by simp_all
  ultimately show ?thesis using N by auto
qed

subsection \<open>Copies of the content\<close>

lemma rb_slices:
  assumes "rb_inv rb" "\<not> rb_isEmpty rb"
  shows "rb_w rb > rb_r rb \<Longrightarrow> slice (rb_buf rb) (rb_r rb) (rb_w rb) = Some (rb_contents rb)"
    and "\<not> rb_w rb > rb_r rb \<Longrightarrow> \<exists>C1 C2. slice (rb_buf rb) (rb_r rb) (rb_Len rb) = Some C1 \<and>
      slice (rb_buf rb) 0 (rb_w rb) = Some C2 \<and> rb_contents rb = C1 @ C2 \<and>
      (rb_w rb = 0 \<longrightarrow> C2 = [])"
  using assms
  by (cases rule: rb_inv_layout; auto simp: slice_def rb_Len_def nat_add_distrib)+

lemma rb_ByteBuffer_correct:
  assumes inv: "rb_inv rb" and A: "bb_laws A"
  shows "rb_isEmpty rb \<Longrightarrow> rb_ByteBuffer A rb = Some None"
    and "\<not> rb_isEmpty rb \<Longrightarrow> \<exists>bb. rb_ByteBuffer A rb = Some (Some bb) \<and> bb_Bytes A bb = rb_contents rb"
proof -
  show "rb_isEmpty rb \<Longrightarrow> rb_ByteBuffer A rb = Some None" by (simp add: rb_ByteBuffer_def)
  assume e: "\<not> rb_isEmpty rb"
  show "\<exists>bb. rb_ByteBuffer A rb = Some (Some bb) \<and> bb_Bytes A bb = rb_contents rb"
  proof (cases "rb_w rb > rb_r rb")
    case True
    with rb_slices(1) [OF inv e] A e show ?thesis by (auto simp: rb_ByteBuffer_def bb_laws_def)
  next
    case False
    with rb_slices(2) [OF inv e] A e show ?thesis by (auto simp: rb_ByteBuffer_def bb_laws_def Let_def)
  qed
qed

lemma rb_WithByteBuffer_correct:
  assumes inv: "rb_inv rb" and A: "bb_laws A"
  shows "\<exists>bb. rb_WithByteBuffer A rb b = Some bb \<and> bb_Bytes A bb = rb_contents rb @ b"
proof (cases "rb_isEmpty rb")
  case True
  then show ?thesis using A by (simp add: rb_WithByteBuffer_def rb_contents_def bb_laws_def)
next
  case e: False
  show ?thesis
  proof (cases "rb_w rb > rb_r rb")
    case True
    with rb_slices(1) [OF inv e] A e show ?thesis by (auto simp: rb_WithByteBuffer_def bb_laws_def)
  next
    case False
    with rb_slices(2) [OF inv e] A e show ?thesis
      by (auto simp: rb_WithByteBuffer_def bb_laws_def Let_def)
  qed
qed

subsection \<open>The ring buffer provides the byte stream contract\<close>

definition rb_room :: "ring_buffer \<Rightarrow> nat \<Rightarrow> bool" where
  "rb_room rb k \<longleftrightarrow> int (length (rb_contents rb) + k) \<le> maxAlloc"

interpretation rbq: byte_fifo rb_inv rb_contents rb_Length rb_IsEmpty rb_LazyRead rb_LazyReadAll
  rb_Shift rb_Reset rb_room rb_Write
proof unfold_locales
  show "rb_inv s \<Longrightarrow> \<exists>h t. rb_LazyRead s n = Some (h, t) \<and> h @ t = take (nat n) (rb_contents s)"
    for s n by (rule rb_LazyRead_eq [of s n]) auto
  show "rb_inv s \<Longrightarrow> \<exists>h t. rb_LazyReadAll s = Some (h, t) \<and> h @ t = rb_contents s" for s
    by (rule rb_LazyReadAll_eq [of s]) auto
  show "rb_inv s \<Longrightarrow> rb_room s (length p) \<Longrightarrow>
    \<exists>s'. rb_Write s p = Some (int (length p), s') \<and> rb_inv s' \<and> rb_contents s' = rb_contents s @ p"
    for s p using rb_Write_correct [of s p] by (auto simp: rb_room_def)
  show "rb_inv s \<Longrightarrow> rb_room s (length p + k) \<Longrightarrow> rb_Write s p = Some (n, s') \<Longrightarrow> rb_room s' k"
    for s p k n s' using rb_Write_correct [of s p] by (auto simp: rb_room_def)
qed (auto simp: rb_Length_eq rb_isEmpty_iff rb_IsEmpty_def rb_Shift_correct rb_room_def)

text \<open>A full buffer of capacity 2 whose content wraps round the end.\<close>

definition ring_wrapped :: ring_buffer where
  "ring_wrapped = rb_wrap [2] [] [1]"

lemma ring_wrapped_inv: "rb_inv ring_wrapped"
  "rb_contents ring_wrapped = [1, 2]"
  using is_pow2I [of 1] by (simp_all add: ring_wrapped_def)

end
