(* ===== verification/Ring_Buffer_Props.thy ===== *)
theory Ring_Buffer_Props
  imports Ring_Buffer_Correct
begin

text \<open>
  The properties of the ring buffer. The main one is a refinement: any sequence of
  method calls returns, call by call, what a plain list of bytes returns, whatever the
  capacity, the wrap-around position and the reallocations on the way.
\<close>

subsection \<open>Call sequences and their specification\<close>

datatype rb_op =
    OpWrite bytes | OpWriteByte byte | OpWriteString bytes
  | OpRead bytes | OpReadByte | OpLazyRead int | OpLazyReadAll
  | OpShift int | OpReset | OpLength | OpIsEmpty

datatype rb_out =
    OutUnit | OutInt int | OutBool bool | OutBytes bytes
  | OutRead int "rb_error option" bytes | OutByte byte "rb_error option"

text \<open>A call on the ring buffer; the two regions of a lazy read are observed joined.\<close>

fun rb_exec :: "rb_op \<Rightarrow> ring_buffer \<Rightarrow> (rb_out \<times> ring_buffer) option" where
  "rb_exec (OpWrite p) rb = do { (n, rb') \<leftarrow> rb_Write rb p; Some (OutInt n, rb') }"
| "rb_exec (OpWriteByte c) rb = do { rb' \<leftarrow> rb_WriteByte rb c; Some (OutUnit, rb') }"
| "rb_exec (OpWriteString s) rb = do { (n, rb') \<leftarrow> rb_WriteString rb s; Some (OutInt n, rb') }"
| "rb_exec (OpRead p) rb = do { (n, e, p', rb') \<leftarrow> rb_Read rb p; Some (OutRead n e p', rb') }"
| "rb_exec OpReadByte rb = do { (b, e, rb') \<leftarrow> rb_ReadByte rb; Some (OutByte b e, rb') }"
| "rb_exec (OpLazyRead n) rb = do { (h, t) \<leftarrow> rb_LazyRead rb n; Some (OutBytes (h @ t), rb) }"
| "rb_exec OpLazyReadAll rb = do { (h, t) \<leftarrow> rb_LazyReadAll rb; Some (OutBytes (h @ t), rb) }"
| "rb_exec (OpShift n) rb = Some (OutUnit, rb_Shift rb n)"
| "rb_exec OpReset rb = Some (OutUnit, rb_Reset rb)"
| "rb_exec OpLength rb = Some (OutInt (rb_Length rb), rb)"
| "rb_exec OpIsEmpty rb = Some (OutBool (rb_IsEmpty rb), rb)"

text \<open>The same call on a list of bytes.\<close>

fun spec_exec :: "rb_op \<Rightarrow> bytes \<Rightarrow> rb_out \<times> bytes" where
  "spec_exec (OpWrite p) q = (OutInt (int (length p)), q @ p)"
| "spec_exec (OpWriteByte c) q = (OutUnit, q @ [c])"
| "spec_exec (OpWriteString s) q = (OutInt (int (length s)), q @ s)"
| "spec_exec (OpRead p) q =
     (if p = [] then (OutRead 0 None p, q)
      else if q = [] then (OutRead 0 (Some ErrIsEmpty) p, q)
      else (let n = min (length p) (length q)
            in (OutRead (int n) None (take n q @ drop n p), drop n q)))"
| "spec_exec OpReadByte q =
     (case q of [] \<Rightarrow> (OutByte 0 (Some ErrIsEmpty), []) | b # q' \<Rightarrow> (OutByte b None, q'))"
| "spec_exec (OpLazyRead n) q = (OutBytes (take (nat n) q), q)"
| "spec_exec OpLazyReadAll q = (OutBytes q, q)"
| "spec_exec (OpShift n) q = (OutUnit, drop (nat n) q)"
| "spec_exec OpReset q = (OutUnit, [])"
| "spec_exec OpLength q = (OutInt (int (length q)), q)"
| "spec_exec OpIsEmpty q = (OutBool (q = []), q)"

fun rb_run :: "rb_op list \<Rightarrow> ring_buffer \<Rightarrow> (rb_out list \<times> ring_buffer) option" where
  "rb_run [] rb = Some ([], rb)"
| "rb_run (op # ops) rb =
     do { (out, rb1) \<leftarrow> rb_exec op rb; (outs, rb2) \<leftarrow> rb_run ops rb1; Some (out # outs, rb2) }"

fun spec_run :: "rb_op list \<Rightarrow> bytes \<Rightarrow> rb_out list \<times> bytes" where
  "spec_run [] q = ([], q)"
| "spec_run (op # ops) q =
     (let (out, q1) = spec_exec op q; (outs, q2) = spec_run ops q1 in (out # outs, q2))"

fun op_adds :: "rb_op \<Rightarrow> nat" where
  "op_adds (OpWrite p) = length p"
| "op_adds (OpWriteByte c) = 1"
| "op_adds (OpWriteString s) = length s"
| "op_adds _ = 0"

fun ops_add :: "rb_op list \<Rightarrow> nat" where
  "ops_add [] = 0"
| "ops_add (op # ops) = op_adds op + ops_add ops"

lemma rb_WriteByte_correct:
  assumes "rb_inv rb" "rb_room rb 1"
  shows "\<exists>rb'. rb_WriteByte rb c = Some rb' \<and> rb_inv rb' \<and> rb_contents rb' = rb_contents rb @ [c]"
  using rb_WriteByte_eq_Write [OF assms(1), of c] rbq.write_law [of rb "[c]"] assms
  by (auto simp: rb_room_def)

lemma spec_exec_length: "length (snd (spec_exec op q)) \<le> length q + op_adds op"
  by (cases op) (auto split: list.splits simp: Let_def)

lemma rb_exec_refines:
  assumes inv: "rb_inv rb" and room: "rb_room rb (op_adds op)"
  shows "\<exists>rb'. rb_exec op rb = Some (fst (spec_exec op (rb_contents rb)), rb') \<and> rb_inv rb' \<and>
    rb_contents rb' = snd (spec_exec op (rb_contents rb))"
proof (cases op)
  case (OpRead p)
  show ?thesis
  proof (cases "p = [] \<or> rb_contents rb = []")
    case True
    then show ?thesis using OpRead inv rb_isEmpty_iff [OF inv]
      by (auto simp: rb_Read_nothing)
  next
    case False
    then have "rb_Read rb p \<noteq> None"
      using rb_Read_eq [OF inv] by auto
    with False show ?thesis
      using OpRead rb_Read_eq [OF inv, of p] rb_advance [OF inv] rb_Length_eq [OF inv]
      by (auto simp: Let_def)
  qed
next
  case OpReadByte
  show ?thesis
  proof (cases "rb_contents rb")
    case Nil
    then show ?thesis using OpReadByte inv rb_isEmpty_iff [OF inv] by (simp add: rb_ReadByte_def)
  next
    case (Cons b q)
    then show ?thesis using OpReadByte rb_ReadByte_correct [OF inv] rb_advance [OF inv, of 1]
        rb_Length_eq [OF inv] by simp
  qed
next
  case (OpLazyRead n)
  then show ?thesis using rbq.lazy_read_law [OF inv, of n] inv by auto
next
  case OpLazyReadAll
  then show ?thesis using rbq.lazy_read_all_law [OF inv] inv by auto
next
  case (OpWrite p)
  then show ?thesis using rbq.write_law [OF inv, of p] room by auto
next
  case (OpWriteString p)
  then show ?thesis using rbq.write_law [OF inv, of p] room by (auto simp: rb_WriteString_def)
next
  case (OpWriteByte c)
  then show ?thesis using rb_WriteByte_correct [OF inv, of c] room by auto
qed (use inv in \<open>auto simp: rbq.shift_contents rbq.len_law rbq.empty_law rbq.shift_inv\<close>)

text \<open>
  C1. For every sequence of calls the ring buffer returns, call by call, exactly what a
  plain list of bytes returns: writes append, reads and shifts consume from the front,
  lazy reads show the front without consuming, no call panics, and the representation
  invariant holds at the end. This is so whatever the capacity, the positions and the
  reallocations, as long as the bytes held and the bytes to be written fit the address
  space together.
\<close>
theorem ring_refines_fifo:
  assumes "rb_inv rb" "rb_room rb (ops_add ops)"
  shows "\<exists>rb'. rb_run ops rb = Some (fst (spec_run ops (rb_contents rb)), rb') \<and> rb_inv rb' \<and>
    rb_contents rb' = snd (spec_run ops (rb_contents rb))"
  using assms
proof (induction ops arbitrary: rb)
  case Nil
  then show ?case by simp
next
  case (Cons op ops)
  have "rb_room rb (op_adds op)" using Cons.prems(2) by (simp add: rb_room_def)
  then obtain rb1 where rb1: "rb_exec op rb = Some (fst (spec_exec op (rb_contents rb)), rb1)"
    "rb_inv rb1" "rb_contents rb1 = snd (spec_exec op (rb_contents rb))"
    using rb_exec_refines [OF Cons.prems(1)] by blast
  then have "rb_room rb1 (ops_add ops)"
    using Cons.prems(2) spec_exec_length [of op "rb_contents rb"] by (simp add: rb_room_def)
  from Cons.IH [OF rb1(2) this] rb1 show ?case
    by (auto simp: split_beta Let_def)
qed

definition ring_ops_example :: "rb_op list" where
  "ring_ops_example =
     [OpWrite [1, 2, 3], OpRead [0, 0], OpWriteByte 4, OpLazyRead 9, OpShift 1, OpLength]"

theorem ring_refines_fifo_witness:
  "\<exists>rb'. rb_run ring_ops_example rb_zero =
      Some ([OutInt 3, OutRead 2 None [1, 2], OutUnit, OutBytes [3, 4], OutUnit, OutInt 1], rb') \<and>
    rb_inv rb' \<and> rb_contents rb' = [4]"
proof -
  have "rb_room rb_zero (ops_add ring_ops_example)"
    by (simp add: rb_room_def ring_ops_example_def maxAlloc_def)
  from ring_refines_fifo [OF rb_zero_inv this] show ?thesis
    by (simp add: ring_ops_example_def Let_def)
qed

text \<open>
  C14. Write appends all of its argument and reports its length; it never panics and
  never loses a byte already held. When the bytes fit the free space the storage is
  kept; otherwise it grows to at most twice the bytes then held (or the initial size),
  and remains zero or a power of two with the mask one below it.
\<close>
theorem write_appends_and_grows:
  assumes "rb_inv rb" "int (length (rb_contents rb) + length p) \<le> maxAlloc"
  shows "\<exists>rb'. rb_Write rb p = Some (int (length p), rb') \<and> rb_inv rb' \<and>
    rb_contents rb' = rb_contents rb @ p \<and>
    (if int (length p) \<le> rb_Free rb then rb_Cap rb' = rb_Cap rb
     else rb_Cap rb \<le> rb_Cap rb' \<and>
          rb_Cap rb' \<le> max (rb_Cap rb) (max initSize (2 * int (length (rb_contents rb @ p))))) \<and>
    (p \<noteq> [] \<longrightarrow> is_pow2 (rb_Cap rb') \<and> rb_mask rb' = rb_Cap rb' - 1)"
proof -
  obtain rb' where w: "rb_Write rb p = Some (int (length p), rb')" "rb_inv rb'"
    "rb_contents rb' = rb_contents rb @ p"
    "rb_size rb' = (if int (length p) \<le> rb_Free rb then rb_size rb else rb_size rb')"
    "rb_size rb \<le> rb_size rb'"
    "rb_size rb' \<le> max (rb_size rb) (max initSize (2 * int (length (rb_contents rb @ p))))"
    using rb_Write_correct [OF assms] by blast
  have "p \<noteq> [] \<Longrightarrow> is_pow2 (rb_size rb') \<and> rb_mask rb' = rb_size rb' - 1"
    using w(2,3) by (auto simp: rb_inv_def rb_contents_def split: if_splits)
  with w show ?thesis by (auto simp: rb_Cap_def split: if_splits)
qed

theorem write_appends_and_grows_witness:
  "\<exists>rb'. rb_Write rb_zero [7, 8] = Some (2, rb') \<and> rb_contents rb' = [7, 8] \<and>
    rb_Cap rb' \<le> 4096"
proof -
  have "int (length (rb_contents rb_zero) + length [7, 8 :: byte]) \<le> maxAlloc"
    by (simp add: maxAlloc_def)
  from write_appends_and_grows [OF rb_zero_inv this] show ?thesis
    by (auto simp: initSize_def rb_Cap_def rb_Free_def)
qed



text \<open>
  Read is a lazy read followed by a shift: it copies into the caller's slice the
  bytes that LazyRead of the slice's length shows, leaves the rest of the slice alone,
  returns their number, and leaves the same content behind as Shift does. On an empty
  buffer it returns ErrIsEmpty and changes nothing.
\<close>
theorem read_is_lazy_read_then_shift:
  assumes "rb_inv rb" "p \<noteq> []"
  shows "\<exists>h t rb'. rb_LazyRead rb (int (length p)) = Some (h, t) \<and> rb_inv rb' \<and>
    rb_contents rb' = rb_contents (rb_Shift rb (int (length p))) \<and>
    h @ t @ rb_contents rb' = rb_contents rb \<and>
    rb_Read rb p =
      (if rb_IsEmpty rb then Some (0, Some ErrIsEmpty, p, rb')
       else Some (int (length (h @ t)), None, (h @ t) @ drop (length (h @ t)) p, rb'))"
proof -
  obtain h t where ht: "rb_LazyRead rb (int (length p)) = Some (h, t)"
    "h @ t = take (length p) (rb_contents rb)"
    using rbq.lazy_read_law [OF assms(1), of "int (length p)"] by auto
  note peek = rbq.peek_then_shift [OF assms(1) ht(1)]
  show ?thesis
  proof (cases "rb_contents rb = []")
    case True
    then have "rb_IsEmpty rb" using rbq.empty_law [OF assms(1)] by simp
    with True assms ht show ?thesis
      by (intro exI [of _ h] exI [of _ t] exI [of _ rb])
         (simp add: rb_Read_nothing rb_IsEmpty_def rb_Shift_correct)
  next
    case False
    let ?n = "min (length p) (length (rb_contents rb))"
    have adv: "rb_inv (rb_advance rb (int ?n))"
      "rb_contents (rb_advance rb (int ?n)) = drop ?n (rb_contents rb)"
      using rb_advance [OF assms(1), of "int ?n"] False assms rb_Length_eq [OF assms(1)] by auto
    have len: "length (h @ t) = ?n" using ht(2) by simp
    have "drop ?n (rb_contents rb) = drop (length p) (rb_contents rb)" by (simp add: min_def)
    moreover have "take ?n (rb_contents rb) = h @ t" using ht(2) by (simp add: min_def)
    moreover have "\<not> rb_IsEmpty rb" using False rbq.empty_law [OF assms(1)] by simp
    ultimately show ?thesis
      using rb_Read_eq [OF assms(1,2) False refl] adv peek ht len
        rb_Shift_correct [OF assms(1), of "int (length p)"]
      by (intro exI [of _ h] exI [of _ t] exI [of _ "rb_advance rb (int ?n)"]) simp
  qed
qed

theorem read_is_lazy_read_then_shift_witness:
  "\<exists>rb'. rb_Read ring_wrapped [0, 0, 9] = Some (2, None, [1, 2, 9], rb') \<and>
     rb_contents rb' = []"
proof -
  have "[0, 0, 9 :: byte] \<noteq> []" by simp
  from read_is_lazy_read_then_shift [OF ring_wrapped_inv(1) this]
  obtain h t rb' where r: "rb_LazyRead ring_wrapped 3 = Some (h, t)"
    "h @ t @ rb_contents rb' = [1, 2]"
    "rb_contents rb' = rb_contents (rb_Shift ring_wrapped 3)"
    "rb_Read ring_wrapped [0, 0, 9] =
      Some (int (length (h @ t)), None, (h @ t) @ drop (length (h @ t)) [0, 0, 9], rb')"
    using ring_wrapped_inv
    by (auto simp: rb_IsEmpty_def ring_wrapped_def)
  then have "rb_contents rb' = []"
    using rb_Shift_correct(2) [OF ring_wrapped_inv(1), of 3] ring_wrapped_inv(2)
    by simp
  moreover from this r have "h @ t = [1, 2]" by simp
  ultimately show ?thesis using r(4) by simp
qed

text \<open>
  WithByteBuffer returns a byte buffer holding the ring's content followed by the
  given bytes and ByteBuffer one holding the ring's content (nil for an empty ring),
  for every layout of the ring, and neither panics nor consumes; given that the
  third-party byte buffers append what is written to them.
\<close>
theorem byte_buffers_hold_contents:
  assumes "rb_inv rb" "bb_laws A"
  shows "(\<exists>bb. rb_WithByteBuffer A rb b = Some bb \<and> bb_Bytes A bb = rb_contents rb @ b) \<and>
    (if rb_IsEmpty rb then rb_ByteBuffer A rb = Some None
     else \<exists>bb. rb_ByteBuffer A rb = Some (Some bb) \<and> bb_Bytes A bb = rb_contents rb)"
  using rb_WithByteBuffer_correct [OF assms] rb_ByteBuffer_correct [OF assms]
  by (auto simp: rb_IsEmpty_def)

theorem byte_buffers_hold_contents_witness:
  "\<exists>bb. rb_WithByteBuffer bb_list ring_wrapped [5] = Some bb \<and> bb = [1, 2, 5]"
  using byte_buffers_hold_contents [OF ring_wrapped_inv(1) bb_list_laws, of "[5]"]
    ring_wrapped_inv(2) by (auto simp: bb_list_def)

end
