(* ===== verification/Pool.thy ===== *)
theory Pool
  imports Ring_Buffer_Correct "HOL-Library.Multiset"
begin

text \<open>
  The size-calibrating buffer pool of pkg/ringbuffer/pool.go. \<open>sync.Pool\<close> is a bag of
  buffers from which the runtime may hand out any one, or none: the choice is an
  argument of \<open>Pool_Get\<close>. \<open>sort.Sort\<close> orders a slice by its Less method and leaves the
  order of equal elements open: it is the argument \<open>srt\<close> of \<open>calibrate\<close>, with its
  documented behaviour in \<open>sorts_by_calls\<close>. The float64 product of the percentile is
  computed exactly, with IEEE rounding to 53 significant bits.
\<close>

definition minBitSize :: nat where "minBitSize = 6"
definition steps :: nat where "steps = 20"
definition minSize :: "64 word" where "minSize = 64"
definition calibrateCallsThreshold :: nat where "calibrateCallsThreshold = 42000"

record pool =
  pool_calls :: "64 word list"
  pool_calibrating :: "64 word"
  pool_defaultSize :: "64 word"
  pool_maxSize :: "64 word"
  pool_items :: "ring_buffer list"

text \<open>The zero value of Pool, as \<open>defaultPool\<close> starts.\<close>

definition defaultPool :: pool where
  "defaultPool =
     \<lparr>pool_calls = replicate steps 0, pool_calibrating = 0, pool_defaultSize = 0,
      pool_maxSize = 0, pool_items = []\<rparr>"

datatype call_size = CallSize (cs_calls: "64 word") (cs_size: "64 word")

definition callSizes_Less :: "call_size list \<Rightarrow> nat \<Rightarrow> nat \<Rightarrow> bool" where
  "callSizes_Less ci i j \<longleftrightarrow> cs_calls (ci ! i) > cs_calls (ci ! j)"

definition callSizes_Len :: "call_size list \<Rightarrow> nat" where
  "callSizes_Len ci = length ci"

definition callSizes_Swap :: "nat \<Rightarrow> nat \<Rightarrow> call_size list \<Rightarrow> call_size list option" where
  "callSizes_Swap i j ci =
     (if i < length ci \<and> j < length ci then Some (ci[i := ci ! j, j := ci ! i]) else None)"

text \<open>sort.Sort changes a slice by Swap alone, below Len: it rearranges it and never panics.\<close>

lemma swaps_rearrange:
  assumes "\<forall>(i, j) \<in> set is. i < callSizes_Len ci \<and> j < callSizes_Len ci"
  shows "\<exists>ci'. fold (\<lambda>(i, j) r. Option.bind r (callSizes_Swap i j)) is (Some ci) = Some ci' \<and> mset ci' = mset ci"
  using assms
proof (induction "is" arbitrary: ci)
  case (Cons p ps)
  obtain i j where p: "p = (i, j)" by fastforce
  with Cons.prems have ij: "i < length ci" "j < length ci" by (auto simp: callSizes_Len_def)
  with Cons.IH [of "ci[i := ci ! j, j := ci ! i]"] Cons.prems p show ?case
    by (simp add: callSizes_Swap_def callSizes_Len_def mset_swap)
qed simp

definition sorts_by_calls :: "(call_size list \<Rightarrow> call_size list) \<Rightarrow> bool" where
  "sorts_by_calls srt \<longleftrightarrow>
     (\<forall>a. mset (srt a) = mset a \<and>
          (\<forall>i j. i < j \<and> j < length a \<longrightarrow> \<not> callSizes_Less (srt a) j i))"

text \<open>A total order that refines Less, so that the library's sort is such a function.\<close>

instantiation call_size :: linorder
begin

definition less_eq_call_size :: "call_size \<Rightarrow> call_size \<Rightarrow> bool" where
  "less_eq_call_size x y \<longleftrightarrow>
     cs_calls y < cs_calls x \<or> (cs_calls x = cs_calls y \<and> cs_size x \<le> cs_size y)"

definition less_call_size :: "call_size \<Rightarrow> call_size \<Rightarrow> bool" where
  "less_call_size x y \<longleftrightarrow>
     cs_calls y < cs_calls x \<or> (cs_calls x = cs_calls y \<and> cs_size x < cs_size y)"

instance
  by standard (auto simp: less_eq_call_size_def less_call_size_def call_size.expand)

end

lemma sort_sorts_by_calls: "sorts_by_calls sort"
proof -
  have "\<not> callSizes_Less (sort a) j i" if "i < j" "j < length a" for a i j
    using that sorted_nth_mono [of "sort a" i j]
    by (auto simp: callSizes_Less_def less_eq_call_size_def)
  then show ?thesis by (simp add: sorts_by_calls_def)
qed

subsection \<open>float64\<close>

fun bit_length :: "nat \<Rightarrow> nat" where
  "bit_length n = (if n = 0 then 0 else Suc (bit_length (n div 2)))"

declare bit_length.simps [simp del]

text \<open>Rounding a natural number to 53 significant bits, to nearest, ties to even.\<close>

definition round53 :: "nat \<Rightarrow> nat" where
  "round53 x =
     (if x < 2 ^ 53 then x
      else (let e = bit_length x - 53; q = x div 2 ^ e; r = x mod 2 ^ e; half = 2 ^ (e - 1)
            in (if r > half \<or> r = half \<and> odd q then Suc q else q) * 2 ^ e))"

text \<open>\<open>0.95\<close> as a float64 is \<open>8556839292003942 / 2^53\<close>.\<close>

definition maxPercentile_mant :: nat where
  "maxPercentile_mant = 8556839292003942"

definition percentile_sum :: "64 word \<Rightarrow> 64 word" where
  "percentile_sum callsSum =
     word_of_nat (round53 (round53 (unat callsSum) * maxPercentile_mant) div 2 ^ 53)"

subsection \<open>Size classes\<close>

function index_loop :: "int \<Rightarrow> int \<Rightarrow> int" where
  "index_loop n idx = (if n > 0 then index_loop (drop_bit 1 n) (idx + 1) else idx)"
  by pat_completeness auto
termination
  by (relation "measure (\<lambda>(n, idx). nat n)") (auto simp: drop_bit_Suc)

declare index_loop.simps [simp del]

definition index :: "int \<Rightarrow> int" where
  "index n0 =
     (let n = drop_bit minBitSize (wrap64 (n0 - 1));
          idx = index_loop n 0
      in if idx \<ge> int steps then int steps - 1 else idx)"

subsection \<open>The pool's operations\<close>

fun calibrate_loop :: "64 word \<Rightarrow> 64 word \<Rightarrow> 64 word \<Rightarrow> call_size list \<Rightarrow> 64 word" where
  "calibrate_loop maxSum callsSum maxSize [] = maxSize"
| "calibrate_loop maxSum callsSum maxSize (c # a) =
     (if callsSum > maxSum then maxSize
      else calibrate_loop maxSum (callsSum + cs_calls c)
             (if cs_size c > maxSize then cs_size c else maxSize) a)"

definition call_sizes :: "64 word list \<Rightarrow> call_size list" where
  "call_sizes calls = map (\<lambda>i. CallSize (calls ! i) (push_bit i minSize)) [0..<steps]"

definition calibrate :: "(call_size list \<Rightarrow> call_size list) \<Rightarrow> pool \<Rightarrow> pool" where
  "calibrate srt p =
     (if pool_calibrating p \<noteq> 0 then p
      else (let p1 = p\<lparr>pool_calibrating := 1\<rparr>;
                a0 = call_sizes (pool_calls p1);
                callsSum = sum_list (map cs_calls a0);
                p2 = p1\<lparr>pool_calls := replicate steps 0\<rparr>;
                a = srt a0;
                defaultSize = cs_size (a ! 0);
                maxSum = percentile_sum callsSum;
                maxSize = calibrate_loop maxSum 0 defaultSize a;
                p3 = p2\<lparr>pool_defaultSize := defaultSize\<rparr>;
                p4 = p3\<lparr>pool_maxSize := maxSize\<rparr>
            in p4\<lparr>pool_calibrating := 0\<rparr>))"

definition Pool_Get :: "nat option \<Rightarrow> pool \<Rightarrow> (ring_buffer \<times> pool) option" where
  "Pool_Get pick p =
     (case pick of
        Some i \<Rightarrow>
          (if i < length (pool_items p)
           then Some (pool_items p ! i,
                      p\<lparr>pool_items := take i (pool_items p) @ drop (Suc i) (pool_items p)\<rparr>)
           else map_option (\<lambda>b. (b, p)) (rb_New (sint (pool_defaultSize p))))
      | None \<Rightarrow> map_option (\<lambda>b. (b, p)) (rb_New (sint (pool_defaultSize p))))"

definition Pool_Put ::
  "(call_size list \<Rightarrow> call_size list) \<Rightarrow> ring_buffer \<Rightarrow> pool \<Rightarrow> pool option" where
  "Pool_Put srt b p =
     do {
       let idx = index (rb_Len b);
       c \<leftarrow> index_get (pool_calls p) idx;
       calls \<leftarrow> index_set (pool_calls p) idx (c + 1);
       let p1 = p\<lparr>pool_calls := calls\<rparr>;
       let p2 = (if unat (c + 1) > calibrateCallsThreshold then calibrate srt p1 else p1);
       let maxSize = sint (pool_maxSize p2);
       Some (if maxSize = 0 \<or> rb_Cap b \<le> maxSize
             then p2\<lparr>pool_items := rb_Reset b # pool_items p2\<rparr> else p2)
     }"

subsection \<open>Size classes: the loop counts bits\<close>

lemma bit_length_0 [simp]: "bit_length 0 = 0"
  by (subst bit_length.simps) simp

lemma bit_length_pos: "n \<noteq> 0 \<Longrightarrow> bit_length n = Suc (bit_length (n div 2))"
  by (subst bit_length.simps) simp

lemma bit_length_le_iff: "bit_length n \<le> k \<longleftrightarrow> n < 2 ^ k"
proof (induction n arbitrary: k rule: bit_length.induct)
  case (1 n)
  show ?case
  proof (cases "n = 0")
    case True
    then show ?thesis by simp
  next
    case False
    note IH = "1.IH" [OF False]
    show ?thesis
    proof (cases k)
      case 0
      with False show ?thesis by (simp add: bit_length_pos [of n])
    next
      case (Suc m)
      have "bit_length n \<le> k \<longleftrightarrow> bit_length (n div 2) \<le> m"
        using False Suc by (simp add: bit_length_pos [of n])
      also have "\<dots> \<longleftrightarrow> n div 2 < 2 ^ m" by (rule IH)
      also have "\<dots> \<longleftrightarrow> n < 2 ^ k" by (simp add: Suc div_less_iff_less_mult mult.commute)
      finally show ?thesis .
    qed
  qed
qed

lemma index_loop_eq: "index_loop n idx = idx + int (bit_length (nat n))"
proof (induction n idx rule: index_loop.induct)
  case (1 n idx)
  show ?case
  proof (cases "n > 0")
    case True
    then have "nat (drop_bit 1 n) = nat n div 2"
      by (simp add: drop_bit_Suc nat_div_distrib)
    with 1 True show ?thesis
      by (simp add: index_loop.simps [of n] bit_length_pos [of "nat n"])
  next
    case False
    then show ?thesis by (simp add: index_loop.simps [of n])
  qed
qed

lemma index_eq:
  assumes "0 \<le> n" "n < 2 ^ 63"
  shows "index n = min 19 (int (bit_length (nat ((n - 1) div 64))))"
proof -
  have "wrap64 (n - 1) = n - 1" using assms by simp
  then have "drop_bit minBitSize (wrap64 (n - 1)) = (n - 1) div 64"
    by (simp add: minBitSize_def drop_bit_eq_div)
  then show ?thesis by (simp add: index_def index_loop_eq steps_def Let_def min_def)
qed

lemma index_bounds: "0 \<le> index n \<and> index n < 20"
  by (simp add: index_def index_loop_eq steps_def Let_def)

lemma div_lt_iff64: "x div 64 < y \<longleftrightarrow> x < 64 * (y::int)"
proof -
  have "x = 64 * (x div 64) + x mod 64" by simp
  moreover have "0 \<le> x mod 64" "x mod 64 < 64" by simp_all
  ultimately show ?thesis by linarith
qed

lemma index_class:
  assumes "0 \<le> n" "n < 2 ^ 63"
  shows "index n \<le> int i \<longleftrightarrow> n \<le> 64 * 2 ^ i \<or> 19 \<le> i"
proof -
  have "bit_length (nat ((n - 1) div 64)) \<le> i \<longleftrightarrow> n \<le> 64 * 2 ^ i"
  proof (cases "n = 0")
    case True
    then show ?thesis by simp
  next
    case False
    have "nat ((n - 1) div 64) < 2 ^ i \<longleftrightarrow> (n - 1) div 64 < 2 ^ i"
      using False assms(1) by (simp add: nat_less_iff pos_imp_zdiv_nonneg_iff)
    also have "\<dots> \<longleftrightarrow> n - 1 < 64 * 2 ^ i" by (rule div_lt_iff64)
    finally show ?thesis by (auto simp: bit_length_le_iff)
  qed
  then show ?thesis by (auto simp: index_eq [OF assms] min_le_iff_disj)
qed

subsection \<open>Calibration\<close>

definition size_class :: "64 word \<Rightarrow> bool" where
  "size_class w \<longleftrightarrow> (\<exists>i \<in> {..<steps}. w = push_bit i minSize)"

abbreviation usum :: "call_size list \<Rightarrow> nat" where
  "usum a \<equiv> sum_list (map (\<lambda>c. unat (cs_calls c)) a)"

lemma length_call_sizes [simp]: "length (call_sizes calls) = steps"
  by (simp add: call_sizes_def)

lemma call_sizes_class: "c \<in> set (call_sizes calls) \<Longrightarrow> size_class (cs_size c)"
  by (auto simp: call_sizes_def size_class_def)

lemma size_class_sint:
  assumes "size_class w"
  shows "64 \<le> sint w" "sint w \<le> 2 ^ 25"
proof -
  obtain i where i: "i < 20" "w = push_bit i minSize"
    using assms by (auto simp: size_class_def steps_def)
  then have "i \<in> set [0..<20]" by simp
  then have "64 \<le> sint w \<and> sint w \<le> 2 ^ 25"
    unfolding i(2) minSize_def by (simp add: upt_rec, elim disjE; simp)
  then show "64 \<le> sint w" "sint w \<le> 2 ^ 25" by simp_all
qed

lemma unat_sum_list_words:
  "usum a < 2 ^ 64 \<Longrightarrow> unat (sum_list (map cs_calls a)) = usum a"
proof (induction a)
  case (Cons c a)
  then have "unat (sum_list (map cs_calls a)) = usum a" by simp
  with Cons.prems show ?case by (simp add: unat_word_ariths)
qed simp

lemma calibrate_loop_ge: "maxSize \<le> calibrate_loop maxSum callsSum maxSize a"
  by (induction maxSum callsSum maxSize a rule: calibrate_loop.induct)
     (auto intro: order_trans split: if_splits)

lemma calibrate_loop_class:
  "size_class maxSize \<Longrightarrow> \<forall>c \<in> set a. size_class (cs_size c) \<Longrightarrow>
   size_class (calibrate_loop maxSum callsSum maxSize a)"
  by (induction maxSum callsSum maxSize a rule: calibrate_loop.induct) auto

text \<open>
  The loop stops only when the classes seen, all of size at most the result, carry more
  than the wanted number of calls.
\<close>

lemma calibrate_loop_covers:
  assumes "unat callsSum + usum a < 2 ^ 64"
    and "res = calibrate_loop maxSum callsSum maxSize a"
  shows "unat maxSum < unat callsSum + usum (filter (\<lambda>c. cs_size c \<le> res) a) \<or>
         (\<forall>c \<in> set a. cs_size c \<le> res)"
  using assms
proof (induction maxSum callsSum maxSize a rule: calibrate_loop.induct)
  case (1 maxSum callsSum maxSize)
  then show ?case by simp
next
  case (2 maxSum callsSum maxSize c a)
  show ?case
  proof (cases "callsSum > maxSum")
    case True
    then show ?thesis by (simp add: word_less_nat_alt trans_less_add1)
  next
    case False
    let ?m = "if cs_size c > maxSize then cs_size c else maxSize"
    have un: "unat (callsSum + cs_calls c) = unat callsSum + unat (cs_calls c)"
      using 2(2) by (simp add: unat_word_ariths)
    have res: "res = calibrate_loop maxSum (callsSum + cs_calls c) ?m a"
      using 2(3) False by simp
    have "unat maxSum < unat (callsSum + cs_calls c) + usum (filter (\<lambda>c. cs_size c \<le> res) a) \<or>
         (\<forall>c \<in> set a. cs_size c \<le> res)"
      by (rule 2(1) [OF False _ res]) (use 2(2) un in simp)
    moreover have "cs_size c \<le> res"
    proof -
      have "cs_size c \<le> ?m" by (simp add: linorder_not_less)
      also have "?m \<le> res" unfolding res by (rule calibrate_loop_ge)
      finally show ?thesis .
    qed
    ultimately show ?thesis unfolding un by (simp add: add.assoc)
  qed
qed

lemma usum_filter_mset: "mset a = mset b \<Longrightarrow> usum (filter P a) = usum (filter P b)"
proof -
  assume "mset a = mset b"
  then have "image_mset (\<lambda>c. unat (cs_calls c)) (filter_mset P (mset a)) =
    image_mset (\<lambda>c. unat (cs_calls c)) (filter_mset P (mset b))" by simp
  then show ?thesis by (simp flip: sum_mset_sum_list mset_map mset_filter)
qed

lemma sorts_by_calls_max:
  assumes "sorts_by_calls srt" "a \<noteq> []"
  shows "srt a ! 0 \<in> set a" "c \<in> set a \<Longrightarrow> cs_calls c \<le> cs_calls (srt a ! 0)"
proof -
  have ms: "mset (srt a) = mset a" using assms by (simp add: sorts_by_calls_def)
  then have len: "length (srt a) = length a" and st: "set (srt a) = set a"
    by (metis size_mset, metis set_mset_mset)
  show "srt a ! 0 \<in> set a" using assms(2) len st by (metis length_greater_0_conv nth_mem)
  assume "c \<in> set a"
  then obtain j where j: "j < length a" "srt a ! j = c" using st len by (metis in_set_conv_nth)
  show "cs_calls c \<le> cs_calls (srt a ! 0)"
  proof (cases "j = 0")
    case False
    then have "\<not> callSizes_Less (srt a) j 0" using assms j by (auto simp: sorts_by_calls_def)
    then show ?thesis using j by (simp add: callSizes_Less_def)
  qed (use j in simp)
qed

end
