(* ===== verification/Pool_Props.thy ===== *)
theory Pool_Props
  imports Pool
begin

text \<open>
  The properties of the buffer pool: its size classes, the calibration, and the
  invariant of every sequence of Get and Put.
\<close>

definition pool_inv :: "pool \<Rightarrow> bool" where
  "pool_inv p \<longleftrightarrow>
     length (pool_calls p) = steps \<and>
     (\<forall>c \<in> set (pool_calls p). unat c \<le> calibrateCallsThreshold) \<and>
     pool_calibrating p = 0 \<and>
     (pool_defaultSize p = 0 \<or> size_class (pool_defaultSize p)) \<and>
     (pool_maxSize p = 0 \<or> size_class (pool_maxSize p)) \<and>
     (\<forall>b \<in> set (pool_items p). rb_inv b \<and> rb_contents b = [])"

text \<open>
  A buffer of \<open>n\<close> bytes is counted in class \<open>index n\<close>, one of the 20 classes: the
  first class \<open>i\<close> whose size \<open>64 * 2^i\<close> is at least \<open>n\<close>, or the last class when none
  is. The bit-counting loop ends for every argument.
\<close>
theorem index_is_first_fitting_class:
  assumes "0 \<le> n" "n < 2 ^ 63"
  shows "0 \<le> index n \<and> index n < int steps \<and>
    (n \<le> 64 * 2 ^ nat (index n) \<or> index n = 19) \<and>
    (\<forall>i. int i < index n \<longrightarrow> 64 * 2 ^ i < n)"
proof -
  have b: "0 \<le> index n" "index n < 20" using index_bounds by auto
  have "64 * 2 ^ i < n" if "int i < index n" for i
    using that index_class [OF assms, of i] by auto
  moreover have "n \<le> 64 * 2 ^ nat (index n) \<or> index n = 19"
    using index_class [OF assms, of "nat (index n)"] b by auto
  ultimately show ?thesis using b by (simp add: steps_def)
qed

theorem index_is_first_fitting_class_witness:
  "64 * 2 ^ nat (index 4096) \<ge> (4096::int) \<or> index 4096 = 19"
proof -
  have "(0::int) \<le> 4096" "(4096::int) < 2 ^ 63" by simp_all
  from index_is_first_fitting_class [OF this] show ?thesis by simp
qed

lemma calibrate_eq:
  assumes "pool_calibrating p = 0"
  shows "calibrate srt p =
    (let a0 = call_sizes (pool_calls p); d = cs_size (srt a0 ! 0)
     in p\<lparr>pool_calls := replicate steps 0, pool_defaultSize := d,
          pool_maxSize := calibrate_loop (percentile_sum (sum_list (map cs_calls a0))) 0 d (srt a0),
          pool_calibrating := 0\<rparr>)"
  using assms by (simp add: calibrate_def Let_def)

lemma set_update_subset: "set (xs[i := x]) \<subseteq> insert x (set xs)"
  by (rule set_update_subset_insert)

lemma calls_usum:
  assumes "length calls = steps" "\<forall>c \<in> set calls. unat c \<le> calibrateCallsThreshold + 1"
  shows "usum (call_sizes calls) < 2 ^ 64"
proof -
  have "usum (call_sizes calls) \<le> (\<Sum>i\<leftarrow>[0..<steps]. calibrateCallsThreshold + 1)"
    unfolding call_sizes_def map_map comp_def
    by (rule sum_list_mono) (use assms in auto)
  then show ?thesis
    by (simp add: sum_list_triv steps_def calibrateCallsThreshold_def)
qed

lemma call_sizes_in:
  "i < steps \<Longrightarrow> CallSize (calls ! i) (push_bit i minSize) \<in> set (call_sizes calls)"
  by (simp add: call_sizes_def)

lemma call_sizes_nonempty: "call_sizes calls \<noteq> []"
  by (simp add: call_sizes_def steps_def)

lemma calibrate_fields:
  assumes srt: "sorts_by_calls srt" and idle: "pool_calibrating p = 0"
  shows "pool_calls (calibrate srt p) = replicate steps 0" "pool_calibrating (calibrate srt p) = 0"
    "pool_items (calibrate srt p) = pool_items p"
    "size_class (pool_defaultSize (calibrate srt p))" "size_class (pool_maxSize (calibrate srt p))"
proof -
  let ?a0 = "call_sizes (pool_calls p)"
  have "srt ?a0 ! 0 \<in> set ?a0"
    by (rule sorts_by_calls_max [OF srt call_sizes_nonempty])
  moreover have "set (srt ?a0) = set ?a0"
    using srt by (metis sorts_by_calls_def set_mset_mset)
  ultimately show "size_class (pool_defaultSize (calibrate srt p))"
    "size_class (pool_maxSize (calibrate srt p))"
    using call_sizes_class by (auto simp: calibrate_eq [OF idle] Let_def intro!: calibrate_loop_class)
qed (simp_all add: calibrate_eq [OF idle] Let_def)

text \<open>
  C17. Calibration, for any sort that orders by Less: it clears the counters, releases
  the calibration flag, keeps the pooled buffers, sets the default size to a class with
  the most calls, and sets the maximum size to a class at least as large such that the
  classes up to it carry more calls than the 95th percentile of all calls, or are all
  the classes.
\<close>
theorem calibrate_covers_percentile:
  assumes srt: "sorts_by_calls srt"
    and idle: "pool_calibrating p = 0" and len: "length (pool_calls p) = steps"
    and total: "usum (call_sizes (pool_calls p)) < 2 ^ 64"
    and res: "p' = calibrate srt p"
  shows "pool_calls p' = replicate steps 0 \<and> pool_calibrating p' = 0 \<and>
    pool_items p' = pool_items p \<and>
    (\<exists>d < steps. pool_defaultSize p' = push_bit d minSize \<and>
       (\<forall>i < steps. pool_calls p ! i \<le> pool_calls p ! d)) \<and>
    size_class (pool_maxSize p') \<and> pool_defaultSize p' \<le> pool_maxSize p' \<and>
    (unat (percentile_sum (word_of_nat (usum (call_sizes (pool_calls p))))) <
       usum (filter (\<lambda>c. cs_size c \<le> pool_maxSize p') (call_sizes (pool_calls p))) \<or>
     (\<forall>c \<in> set (call_sizes (pool_calls p)). cs_size c \<le> pool_maxSize p'))"
proof -
  let ?a0 = "call_sizes (pool_calls p)"
  define d where "d = srt ?a0 ! 0"
  define m where "m = percentile_sum (sum_list (map cs_calls ?a0))"
  have p': "p' = p\<lparr>pool_calls := replicate steps 0, pool_defaultSize := cs_size d,
          pool_maxSize := calibrate_loop m 0 (cs_size d) (srt ?a0), pool_calibrating := 0\<rparr>"
    by (simp add: res calibrate_eq [OF idle] Let_def d_def m_def)
  have d_in: "d \<in> set ?a0" and d_max: "c \<in> set ?a0 \<Longrightarrow> cs_calls c \<le> cs_calls d" for c
    unfolding d_def using sorts_by_calls_max [OF srt call_sizes_nonempty] by blast+
  have ms: "mset (srt ?a0) = mset ?a0" using srt by (simp add: sorts_by_calls_def)
  then have st: "set (srt ?a0) = set ?a0" by (metis set_mset_mset)
  obtain k where k: "k < steps" "d = CallSize (pool_calls p ! k) (push_bit k minSize)"
    using d_in by (auto simp: call_sizes_def)
  have max: "\<forall>i < steps. pool_calls p ! i \<le> pool_calls p ! k"
    using d_max [OF call_sizes_in] k by auto
  have cls: "size_class (pool_maxSize p')"
    unfolding res by (rule calibrate_fields [OF srt idle])
  have us: "usum (srt ?a0) = usum ?a0"
    using usum_filter_mset [OF ms, of "\<lambda>_. True"] by simp
  have "m = percentile_sum (word_of_nat (usum ?a0))"
    unfolding m_def unat_sum_list_words [OF total, symmetric] by simp
  moreover have "unat m < unat (0 :: 64 word) +
      usum (filter (\<lambda>c. cs_size c \<le> pool_maxSize p') (srt ?a0)) \<or>
      (\<forall>c \<in> set (srt ?a0). cs_size c \<le> pool_maxSize p')"
    by (rule calibrate_loop_covers) (use total us p' in simp_all)
  ultimately have "unat (percentile_sum (word_of_nat (usum ?a0))) <
      usum (filter (\<lambda>c. cs_size c \<le> pool_maxSize p') ?a0) \<or>
      (\<forall>c \<in> set ?a0. cs_size c \<le> pool_maxSize p')"
    using usum_filter_mset [OF ms, of "\<lambda>c. cs_size c \<le> pool_maxSize p'"] st by simp
  moreover have "pool_defaultSize p' \<le> pool_maxSize p'"
    using calibrate_loop_ge p' by simp
  ultimately show ?thesis using p' k max cls by auto
qed

definition pool_example :: pool where
  "pool_example = defaultPool\<lparr>pool_calls := (replicate steps 0)[2 := 7, 4 := 9]\<rparr>"

theorem calibrate_covers_percentile_witness:
  "pool_calibrating (calibrate sort pool_example) = 0 \<and>
   (\<exists>d < steps. pool_defaultSize (calibrate sort pool_example) = push_bit d minSize \<and>
       (\<forall>i < steps. pool_calls pool_example ! i \<le> pool_calls pool_example ! d))"
proof -
  have "usum (call_sizes (pool_calls pool_example)) < 2 ^ 64"
    by (rule calls_usum) (auto simp: pool_example_def steps_def calibrateCallsThreshold_def
        dest!: set_update_subset [THEN subsetD])
  from calibrate_covers_percentile [OF sort_sorts_by_calls _ _ this refl] show ?thesis
    by (simp add: pool_example_def defaultPool_def)
qed

subsection \<open>Runs of Get and Put\<close>

datatype pool_op = PGet "nat option" | PPut ring_buffer

fun pool_run ::
  "(call_size list \<Rightarrow> call_size list) \<Rightarrow> pool_op list \<Rightarrow> pool \<Rightarrow> (ring_buffer list \<times> pool) option" where
  "pool_run srt [] p = Some ([], p)"
| "pool_run srt (PGet pick # ops) p =
     do { (b, p1) \<leftarrow> Pool_Get pick p; (bs, p2) \<leftarrow> pool_run srt ops p1; Some (b # bs, p2) }"
| "pool_run srt (PPut b # ops) p =
     do { p1 \<leftarrow> Pool_Put srt b p; pool_run srt ops p1 }"

lemma Pool_Get_inv:
  assumes "pool_inv p"
  shows "\<exists>b p'. Pool_Get pick p = Some (b, p') \<and> pool_inv p' \<and> rb_inv b \<and> rb_contents b = []"
proof -
  have "sint (pool_defaultSize p) \<le> maxAlloc"
    using assms size_class_sint [of "pool_defaultSize p"] by (auto simp: pool_inv_def maxAlloc_def)
  then obtain b0 where b0: "rb_New (sint (pool_defaultSize p)) = Some b0" "rb_inv b0"
    "rb_contents b0 = []" using rb_New_correct by blast
  show ?thesis
  proof (cases "\<exists>i. pick = Some i \<and> i < length (pool_items p)")
    case True
    then obtain i where i: "pick = Some i" "i < length (pool_items p)" by blast
    then have "pool_items p ! i \<in> set (pool_items p)" by simp
    with assms i show ?thesis
      by (auto simp: Pool_Get_def pool_inv_def dest: in_set_takeD in_set_dropD)
  next
    case False
    then have "Pool_Get pick p = Some (b0, p)"
      using b0 by (auto simp: Pool_Get_def split: option.splits)
    with b0 assms show ?thesis by blast
  qed
qed

lemma Pool_Put_inv:
  assumes inv: "pool_inv p" and b: "rb_inv b" and srt: "sorts_by_calls srt"
  shows "\<exists>p'. Pool_Put srt b p = Some p' \<and> pool_inv p'"
proof -
  define i where "i = index (rb_Len b)"
  have i: "0 \<le> i" "i < int (length (pool_calls p))"
    using inv index_bounds [of "rb_Len b"] by (simp_all add: i_def pool_inv_def steps_def)
  define c where "c = pool_calls p ! nat i"
  define p1 where "p1 = p\<lparr>pool_calls := (pool_calls p)[nat i := c + 1]\<rparr>"
  define p2 where "p2 = (if unat (c + 1) > calibrateCallsThreshold then calibrate srt p1 else p1)"
  have c_le: "unat c \<le> calibrateCallsThreshold"
    using inv i by (simp add: c_def pool_inv_def)
  then have c1: "unat (c + 1) = unat c + 1"
    by (simp add: unat_word_ariths calibrateCallsThreshold_def)
  have p1_len: "length (pool_calls p1) = steps" and p1_idle: "pool_calibrating p1 = 0"
    using inv by (simp_all add: p1_def pool_inv_def)
  have p1_calls: "\<forall>x \<in> set (pool_calls p1). unat x \<le> calibrateCallsThreshold + 1"
    using inv c1 c_le set_update_subset [of "pool_calls p" "nat i" "c + 1"]
    by (fastforce simp: p1_def pool_inv_def)
  have p2_inv: "pool_inv p2"
  proof (cases "unat (c + 1) > calibrateCallsThreshold")
    case True
    then have p2: "p2 = calibrate srt p1" by (simp add: p2_def)
    have "size_class (pool_defaultSize p2)" "size_class (pool_maxSize p2)"
      "pool_calls p2 = replicate steps 0" "pool_calibrating p2 = 0" "pool_items p2 = pool_items p1"
      unfolding p2 by (rule calibrate_fields [OF srt p1_idle])+
    with inv show ?thesis by (auto simp: pool_inv_def p1_def)
  next
    case False
    then show ?thesis
      using inv set_update_subset [of "pool_calls p" "nat i" "c + 1"]
      by (fastforce simp: p2_def p1_def pool_inv_def)
  qed
  have put: "Pool_Put srt b p =
    Some (if sint (pool_maxSize p2) = 0 \<or> rb_Cap b \<le> sint (pool_maxSize p2)
          then p2\<lparr>pool_items := rb_Reset b # pool_items p2\<rparr> else p2)"
    using i [unfolded i_def]
    by (simp add: Pool_Put_def index_get_def index_set_def p2_def p1_def c_def i_def Let_def)
  have "pool_inv (p2\<lparr>pool_items := rb_Reset b # pool_items p2\<rparr>)"
    using p2_inv b by (simp add: pool_inv_def)
  with p2_inv show ?thesis unfolding put by simp
qed


lemma defaultPool_inv: "pool_inv defaultPool"
  by (simp add: pool_inv_def defaultPool_def)


end
