(* ===== verification/Poller_Contract.thy ===== *)
theory Poller_Contract
  imports Prelude
begin

text \<open>
  pkg/limpoller/poller.go and the contract of the Poller type, which the package
  implements twice, on epoll and on kqueue, under build tags. The connection and the
  event loop use AddRead, EnableReadWrite, EnableRead and Del; a poller registers for
  every descriptor an interest in reading and in writing.

  \<open>poller_base\<close> is what both implementations give: registration for reading and
  switching on the interest in writing. \<open>poller_full\<close> adds that the interest can be
  switched off again and that a deleted descriptor is not reported.
\<close>

type_synonym event = "32 word"

definition EventRead :: event where "EventRead = 0x1"
definition EventWrite :: event where "EventWrite = 0x2"
definition EventErr :: event where "EventErr = 0x80"
definition EventNone :: event where "EventNone = 0"

definition waitEventsBegin :: nat where "waitEventsBegin = 1024"

definition has_event :: "event \<Rightarrow> event \<Rightarrow> bool" where
  "has_event e flag \<longleftrightarrow> e AND flag \<noteq> 0"

text \<open>The errors of the package and the error numbers of the kernel.\<close>

datatype poll_error = ErrClosed | SyncMapLoad | Errno nat

locale poller_base =
  fixes ok :: "'s \<Rightarrow> bool"
    and rd :: "'s \<Rightarrow> int \<Rightarrow> bool"
    and wr :: "'s \<Rightarrow> int \<Rightarrow> bool"
    and AddRead :: "int \<Rightarrow> 's \<Rightarrow> poll_error option \<times> 's"
    and EnableReadWrite :: "int \<Rightarrow> 's \<Rightarrow> poll_error option \<times> 's"
  assumes add_ok: "ok s \<Longrightarrow> AddRead fd s = (None, s') \<Longrightarrow> ok s'"
    and add_rd: "ok s \<Longrightarrow> AddRead fd s = (None, s') \<Longrightarrow> rd s' = (rd s)(fd := True)"
    and add_wr: "ok s \<Longrightarrow> AddRead fd s = (None, s') \<Longrightarrow> \<not> wr s fd \<Longrightarrow> wr s' = wr s"
    and enrw_ok: "ok s \<Longrightarrow> EnableReadWrite fd s = (None, s') \<Longrightarrow> ok s'"
    and enrw_rd: "ok s \<Longrightarrow> rd s fd \<Longrightarrow> EnableReadWrite fd s = (None, s') \<Longrightarrow> rd s' = rd s"
    and enrw_wr: "ok s \<Longrightarrow> EnableReadWrite fd s = (None, s') \<Longrightarrow> wr s' = (wr s)(fd := True)"
begin

text \<open>A registered connection whose output blocks is watched for both.\<close>

lemma add_then_block:
  assumes "ok s" "AddRead fd s = (None, s1)" "EnableReadWrite fd s1 = (None, s2)"
  shows "rd s2 fd \<and> wr s2 fd \<and> ok s2"
proof -
  have "ok s1" "rd s1 fd"
    using add_ok [OF assms(1,2)] add_rd [OF assms(1,2)] by simp_all
  then show ?thesis
    using enrw_ok [OF _ assms(3)] enrw_rd [OF _ _ assms(3)] enrw_wr [OF _ assms(3)] by simp
qed

lemma others_unchanged:
  assumes "ok s" "rd s fd" "EnableReadWrite fd s = (None, s')" "fd' \<noteq> fd"
  shows "rd s' fd' = rd s fd'" "wr s' fd' = wr s fd'"
  using enrw_rd [OF assms(1-3)] enrw_wr [OF assms(1,3)] assms(4) by simp_all

end

locale poller_full = poller_base ok rd wr AddRead EnableReadWrite
  for ok :: "'s \<Rightarrow> bool" and rd :: "'s \<Rightarrow> int \<Rightarrow> bool" and wr :: "'s \<Rightarrow> int \<Rightarrow> bool"
    and AddRead :: "int \<Rightarrow> 's \<Rightarrow> poll_error option \<times> 's"
    and EnableReadWrite :: "int \<Rightarrow> 's \<Rightarrow> poll_error option \<times> 's" +
  fixes EnableRead :: "int \<Rightarrow> 's \<Rightarrow> poll_error option \<times> 's"
    and Del :: "int \<Rightarrow> 's \<Rightarrow> poll_error option \<times> 's"
  assumes enr_ok: "ok s \<Longrightarrow> EnableRead fd s = (None, s') \<Longrightarrow> ok s'"
    and enr_rd: "ok s \<Longrightarrow> rd s fd \<Longrightarrow> EnableRead fd s = (None, s') \<Longrightarrow> rd s' = rd s"
    and enr_wr: "ok s \<Longrightarrow> EnableRead fd s = (None, s') \<Longrightarrow> wr s' = (wr s)(fd := False)"
    and del_ok: "ok s \<Longrightarrow> Del fd s = (None, s') \<Longrightarrow> ok s'"
    and del_rd: "ok s \<Longrightarrow> Del fd s = (None, s') \<Longrightarrow> rd s' = (rd s)(fd := False)"
    and del_wr: "ok s \<Longrightarrow> Del fd s = (None, s') \<Longrightarrow> wr s' = (wr s)(fd := False)"
begin

text \<open>Blocking and draining restores the interests of before.\<close>

lemma block_then_drain:
  assumes "ok s" "rd s fd" "\<not> wr s fd"
    and "EnableReadWrite fd s = (None, s1)" "EnableRead fd s1 = (None, s2)"
  shows "rd s2 = rd s \<and> wr s2 = wr s"
proof -
  have s1: "ok s1" "rd s1 = rd s" "wr s1 = (wr s)(fd := True)"
    using enrw_ok [OF assms(1,4)] enrw_rd [OF assms(1,2,4)] enrw_wr [OF assms(1,4)] by simp_all
  have "rd s2 = rd s1" "wr s2 = (wr s1)(fd := False)"
    using enr_rd [OF s1(1) _ assms(5)] enr_wr [OF s1(1) assms(5)] s1(2) assms(2) by simp_all
  with s1 assms(3) show ?thesis by (auto simp: fun_upd_idem_iff)
qed

lemma add_then_del:
  assumes "ok s" "\<not> rd s fd" "\<not> wr s fd"
    and "AddRead fd s = (None, s1)" "Del fd s1 = (None, s2)"
  shows "rd s2 = rd s \<and> wr s2 = wr s"
proof -
  have s1: "ok s1" "rd s1 = (rd s)(fd := True)" "wr s1 = wr s"
    using add_ok [OF assms(1,4)] add_rd [OF assms(1,4)] add_wr [OF assms(1,4,3)] by simp_all
  then show ?thesis
    using del_rd [OF s1(1) assms(5)] del_wr [OF s1(1) assms(5)] assms(2,3) by (auto simp: fun_upd_idem_iff)
qed

end

end
