(* ===== verification/Event_Loop.thy ===== *)
theory Event_Loop
  imports Poller_Contract
begin

text \<open>
  pkg/eventloop: the job queue (queue.go) and the event loop (eventloop.go), as the loop
  goroutine runs them. The state is a record that the connection and server models
  extend; the handlers bound to descriptors and the queued jobs are data, and what they
  do when called is an argument (\<open>handle\<close>, \<open>exec\<close>) that may change the whole state.

  A call ends by returning nil, by returning an error, or by a panic. The deferred
  function of handleEvent recovers a panic and asserts that its value is an error: a
  panic with any other value makes that assertion panic in turn and escapes.
\<close>

datatype panic_value = ErrorValue | OtherValue

datatype outcome = Returned | Failed | Panicked panic_value

record ('h, 'j) event_loop =
  el_jobs :: "'j list"
  el_handlers :: "int \<Rightarrow> 'h option"
  el_eventHandling :: bool
  el_wakes :: nat

subsection \<open>The job queue\<close>

definition Push :: "'j \<Rightarrow> ('h, 'j, 'm) event_loop_scheme \<Rightarrow> nat \<times> ('h, 'j, 'm) event_loop_scheme" where
  "Push job s =
     (let s' = s\<lparr>el_jobs := el_jobs s @ [job]\<rparr> in (length (el_jobs s'), s'))"

text \<open>
  The batch loop: an error is logged and the loop goes on, a panic leaves it and the
  rest of the batch is dropped.
\<close>

fun run_jobs :: "('j \<Rightarrow> 's \<Rightarrow> outcome \<times> 's) \<Rightarrow> 'j list \<Rightarrow> 's \<Rightarrow> outcome \<times> 's" where
  "run_jobs exec [] s = (Returned, s)"
| "run_jobs exec (job # jobs) s =
     (case exec job s of
        (Panicked v, s') \<Rightarrow> (Panicked v, s')
      | (_, s') \<Rightarrow> run_jobs exec jobs s')"

definition ExecuteJobs ::
  "('j \<Rightarrow> ('h, 'j, 'm) event_loop_scheme \<Rightarrow> outcome \<times> ('h, 'j, 'm) event_loop_scheme) \<Rightarrow>
   ('h, 'j, 'm) event_loop_scheme \<Rightarrow> outcome \<times> ('h, 'j, 'm) event_loop_scheme" where
  "ExecuteJobs exec s =
     (let jobs = el_jobs s; s' = s\<lparr>el_jobs := []\<rparr> in run_jobs exec jobs s')"

subsection \<open>The loop\<close>

text \<open>Wake adds one to the counter of the poller's wake-up descriptor.\<close>

definition Wake :: "('h, 'j, 'm) event_loop_scheme \<Rightarrow> ('h, 'j, 'm) event_loop_scheme" where
  "Wake s = s\<lparr>el_wakes := Suc (el_wakes s)\<rparr>"

definition Trigger :: "'j \<Rightarrow> ('h, 'j, 'm) event_loop_scheme \<Rightarrow> ('h, 'j, 'm) event_loop_scheme" where
  "Trigger job s =
     (let (_, s') = Push job s in if \<not> el_eventHandling s' then Wake s' else s')"

text \<open>
  BindHandler and DeleteFdInLoop, with the outcome of the poller's call as an argument.
\<close>

definition BindHandler ::
  "int \<Rightarrow> 'h \<Rightarrow> poll_error option \<Rightarrow> ('h, 'j, 'm) event_loop_scheme \<Rightarrow>
   poll_error option \<times> ('h, 'j, 'm) event_loop_scheme" where
  "BindHandler fd h addRead s =
     (let s1 = s\<lparr>el_handlers := (el_handlers s)(fd := Some h)\<rparr> in
      case addRead of
        Some err \<Rightarrow> (Some err, s1\<lparr>el_handlers := (el_handlers s1)(fd := None)\<rparr>)
      | None \<Rightarrow> (None, s1))"

definition DeleteFdInLoop ::
  "int \<Rightarrow> ('h, 'j, 'm) event_loop_scheme \<Rightarrow> ('h, 'j, 'm) event_loop_scheme" where
  "DeleteFdInLoop fd s = s\<lparr>el_handlers := (el_handlers s)(fd := None)\<rparr>"

text \<open>
  handleEvent returns whether it returned: a panic with an error value is logged and
  swallowed, any other escapes to Poll.
\<close>

definition recovered :: "panic_value \<Rightarrow> bool" where
  "recovered v \<longleftrightarrow> v = ErrorValue"

definition handleEvent ::
  "('h \<Rightarrow> int \<Rightarrow> event \<Rightarrow> ('h, 'j, 'm) event_loop_scheme \<Rightarrow> outcome \<times> ('h, 'j, 'm) event_loop_scheme) \<Rightarrow>
   ('j \<Rightarrow> ('h, 'j, 'm) event_loop_scheme \<Rightarrow> outcome \<times> ('h, 'j, 'm) event_loop_scheme) \<Rightarrow>
   int \<Rightarrow> event \<Rightarrow> ('h, 'j, 'm) event_loop_scheme \<Rightarrow> bool \<times> ('h, 'j, 'm) event_loop_scheme" where
  "handleEvent handle exec fd events s =
     (let s1 = s\<lparr>el_eventHandling := True\<rparr>;
          (out, s2) = (if fd \<noteq> -1
                       then (case el_handlers s1 fd of
                               Some h \<Rightarrow> handle h fd events s1
                             | None \<Rightarrow> (Returned, s1))
                       else (Returned, s1))
      in case out of
           Panicked v \<Rightarrow> (recovered v, s2)
         | _ \<Rightarrow>
             (let s3 = s2\<lparr>el_eventHandling := False\<rparr>
              in case ExecuteJobs exec s3 of
                   (Panicked v, s4) \<Rightarrow> (recovered v, s4)
                 | (_, s4) \<Rightarrow> (True, s4)))"

text \<open>Stop closes every handler; their errors are logged.\<close>

fun close_handlers :: "('h \<Rightarrow> 's \<Rightarrow> 's) \<Rightarrow> 'h list \<Rightarrow> 's \<Rightarrow> 's" where
  "close_handlers close [] s = s"
| "close_handlers close (h # hs) s = close_handlers close hs (close h s)"

subsection \<open>Lemmas\<close>

lemma Trigger_simps [simp]:
  "el_jobs (Trigger job s) = el_jobs s @ [job]"
  "el_handlers (Trigger job s) = el_handlers s"
  "el_eventHandling (Trigger job s) = el_eventHandling s"
  "el_wakes (Trigger job s) = (if el_eventHandling s then el_wakes s else Suc (el_wakes s))"
  by (simp_all add: Trigger_def Push_def Wake_def Let_def)

lemma run_jobs_append:
  "run_jobs exec (js @ ks) s =
    (case run_jobs exec js s of
       (Panicked v, s') \<Rightarrow> (Panicked v, s')
     | (_, s') \<Rightarrow> run_jobs exec ks s')"
  by (induction exec js s rule: run_jobs.induct) (auto split: prod.splits outcome.splits)

end
