(* ===== verification/Job_Delivery.thy ===== *)
theory Job_Delivery
  imports "HOL-Library.Sublist"
begin

text \<open>
  The concurrency of the event loop (pkg/eventloop/eventloop.go and the wait loop of
  pkg/limpoller/epoll.go): any number of goroutines call Trigger while the loop goroutine
  waits, handles events and executes jobs. Each atomic access to shared data is one
  step: the locked append and the locked swap of the job queue, the reads and writes of
  \<open>eventHandling\<close> and \<open>running\<close>, the write and the read of the wake-up descriptor.

  A goroutine in Trigger has pushed its job and will test the flag (\<open>TPushed\<close>), or has
  found it clear and will write the descriptor (\<open>TMustWake\<close>). The loop is in EpollWait
  (\<open>LWait\<close>), in the loop over a batch of events (\<open>LBatch pend wake\<close>: the wake-up
  descriptor is still to come in this batch, a wake-up was noted), or inside handleEvent
  with the flag set (\<open>LHandling\<close>), cleared (\<open>LUnset\<close>) or executing a batch of jobs
  (\<open>LExec\<close>); \<open>final\<close> marks the call with descriptor -1 that ends a round with a wake-up.
  A call of Trigger from inside a handler or a job is a goroutine that moves while the
  loop does not. \<open>js_pushed\<close> and \<open>js_executed\<close> are history.
\<close>

datatype tpc = TIdle | TPushed | TMustWake

datatype 'j lpc =
    LWait
  | LBatch (lpc_pend: bool) (lpc_wake: bool)
  | LHandling bool bool bool
  | LUnset bool bool bool
  | LExec bool bool bool "'j list"
  | LExit

datatype cpc = CIdle | CWake | CDone

record 'j js_state =
  js_queue :: "'j list"
  js_flag :: bool
  js_wakes :: nat
  js_running :: bool
  js_loop :: "'j lpc"
  js_threads :: "nat \<Rightarrow> tpc"
  js_closer :: cpc
  js_pushed :: "'j list"
  js_executed :: "'j list"

definition js_init :: "'j js_state" where
  "js_init =
     \<lparr>js_queue = [], js_flag = False, js_wakes = 0, js_running = True, js_loop = LWait,
      js_threads = (\<lambda>_. TIdle), js_closer = CIdle, js_pushed = [], js_executed = []\<rparr>"

datatype 'j js_label =
    PushJob nat 'j | Test nat | WakeUp nat
  | ClearRunning | CloseWake
  | WaitReturns | Drain | EventStart | WakeStart | EndBatch
  | HandleEnd | HandlePanic | Swap | RunJob | JobPanic | ExecEnd

definition after_exec :: "bool \<Rightarrow> bool \<Rightarrow> bool \<Rightarrow> bool \<Rightarrow> 'j lpc" where
  "after_exec running pend wake final =
     (if final then (if running then LWait else LExit) else LBatch pend wake)"

text \<open>One step; the label says which goroutine makes which access.\<close>

inductive js_step :: "'j js_label \<Rightarrow> 'j js_state \<Rightarrow> 'j js_state \<Rightarrow> bool" where
  push: "js_threads s t = TIdle \<Longrightarrow>
    js_step (PushJob t j) s (s\<lparr>js_queue := js_queue s @ [j], js_pushed := js_pushed s @ [j],
      js_threads := (js_threads s)(t := TPushed)\<rparr>)"
| test: "js_threads s t = TPushed \<Longrightarrow>
    js_step (Test t) s
      (s\<lparr>js_threads := (js_threads s)(t := if js_flag s then TIdle else TMustWake)\<rparr>)"
| wake_up: "js_threads s t = TMustWake \<Longrightarrow>
    js_step (WakeUp t) s
      (s\<lparr>js_wakes := Suc (js_wakes s), js_threads := (js_threads s)(t := TIdle)\<rparr>)"
| clear_running: "js_closer s = CIdle \<Longrightarrow> js_running s \<Longrightarrow>
    js_step ClearRunning s (s\<lparr>js_running := False, js_closer := CWake\<rparr>)"
| close_wake: "js_closer s = CWake \<Longrightarrow>
    js_step CloseWake s (s\<lparr>js_wakes := Suc (js_wakes s), js_closer := CDone\<rparr>)"
| wait_returns: "js_loop s = LWait \<Longrightarrow>
    js_step WaitReturns s (s\<lparr>js_loop := LBatch (js_wakes s > 0) False\<rparr>)"
| drain: "js_loop s = LBatch True wake \<Longrightarrow>
    js_step Drain s (s\<lparr>js_wakes := 0, js_loop := LBatch False True\<rparr>)"
| event_start: "js_loop s = LBatch pend wake \<Longrightarrow>
    js_step EventStart s (s\<lparr>js_flag := True, js_loop := LHandling pend wake False\<rparr>)"
| wake_start: "js_loop s = LBatch False True \<Longrightarrow>
    js_step WakeStart s (s\<lparr>js_flag := True, js_loop := LHandling False True True\<rparr>)"
| end_batch: "js_loop s = LBatch False False \<Longrightarrow>
    js_step EndBatch s (s\<lparr>js_loop := LWait\<rparr>)"
| handle_end: "js_loop s = LHandling pend wake final \<Longrightarrow>
    js_step HandleEnd s (s\<lparr>js_flag := False, js_loop := LUnset pend wake final\<rparr>)"
| handle_panic: "js_loop s = LHandling pend wake False \<Longrightarrow>
    js_step HandlePanic s (s\<lparr>js_loop := LBatch pend wake\<rparr>)"
| swap: "js_loop s = LUnset pend wake final \<Longrightarrow>
    js_step Swap s (s\<lparr>js_queue := [], js_loop := LExec pend wake final (js_queue s)\<rparr>)"
| run_job: "js_loop s = LExec pend wake final (j # js) \<Longrightarrow>
    js_step RunJob s
      (s\<lparr>js_executed := js_executed s @ [j], js_loop := LExec pend wake final js\<rparr>)"
| job_panic: "js_loop s = LExec pend wake final (j # js) \<Longrightarrow>
    js_step JobPanic s
      (s\<lparr>js_executed := js_executed s @ [j],
         js_loop := after_exec (js_running s) pend wake final\<rparr>)"
| exec_end: "js_loop s = LExec pend wake final [] \<Longrightarrow>
    js_step ExecEnd s (s\<lparr>js_loop := after_exec (js_running s) pend wake final\<rparr>)"

inductive_cases js_step_cases: "js_step l s s'"

inductive js_run :: "'j js_label list \<Rightarrow> 'j js_state \<Rightarrow> 'j js_state \<Rightarrow> bool" where
  nil: "js_run [] s s"
| snoc: "js_run ls s s' \<Longrightarrow> js_step l s' s'' \<Longrightarrow> js_run (ls @ [l]) s s''"

text \<open>Runs in which no handler and no job panics.\<close>

definition calm :: "'j js_label list \<Rightarrow> bool" where
  "calm ls \<longleftrightarrow> HandlePanic \<notin> set ls \<and> JobPanic \<notin> set ls"

subsection \<open>The invariant of calm runs\<close>

fun lpc_batch :: "'j lpc \<Rightarrow> 'j list" where
  "lpc_batch (LExec _ _ _ js) = js"
| "lpc_batch _ = []"

fun lpc_handling :: "'j lpc \<Rightarrow> bool" where
  "lpc_handling (LHandling _ _ _) = True"
| "lpc_handling _ = False"

text \<open>The loop will swap the queue out before it waits again.\<close>

fun lpc_will_swap :: "'j lpc \<Rightarrow> bool" where
  "lpc_will_swap (LBatch _ wake) = wake"
| "lpc_will_swap (LHandling _ _ _) = True"
| "lpc_will_swap (LUnset _ _ _) = True"
| "lpc_will_swap (LExec _ wake final _) = (wake \<and> \<not> final)"
| "lpc_will_swap LWait = False"
| "lpc_will_swap LExit = False"

definition js_inv :: "'j js_state \<Rightarrow> bool" where
  "js_inv s \<longleftrightarrow>
     js_flag s = lpc_handling (js_loop s) \<and>
     js_pushed s = js_executed s @ lpc_batch (js_loop s) @ js_queue s \<and>
     (js_queue s \<noteq> [] \<longrightarrow>
        (\<exists>t. js_threads s t \<noteq> TIdle) \<or> js_wakes s > 0 \<or> lpc_will_swap (js_loop s) \<or>
        js_loop s = LExit)"

lemma js_inv_init: "js_inv js_init"
  by (simp add: js_inv_def js_init_def)

lemma js_step_inv:
  assumes "js_step l s s'" "js_inv s" "l \<noteq> HandlePanic" "l \<noteq> JobPanic"
  shows "js_inv s'"
  using assms
proof (induction rule: js_step.induct)
  case (test s t)
  then show ?case
    by (cases "js_flag s"; cases "js_loop s") (auto simp: js_inv_def split: if_splits)
qed (auto simp: js_inv_def after_exec_def split: if_splits)

lemma js_run_inv:
  "js_run ls s s' \<Longrightarrow> js_inv s \<Longrightarrow> calm ls \<Longrightarrow> js_inv s'"
  by (induction rule: js_run.induct) (auto simp: calm_def intro: js_step_inv)

subsection \<open>Nothing is run twice or out of order\<close>

definition js_kept :: "'j js_state \<Rightarrow> bool" where
  "js_kept s \<longleftrightarrow> subseq (js_executed s @ lpc_batch (js_loop s) @ js_queue s) (js_pushed s)"

lemma lpc_batch_after_exec [simp]: "lpc_batch (after_exec r p w f) = []"
  by (simp add: after_exec_def)

lemma subseq_drop_middle: "subseq (xs @ ys @ zs) ws \<Longrightarrow> subseq (xs @ zs) ws"
  by (rule subseq_order.trans [of _ "xs @ ys @ zs"]) (auto intro: list_emb_append2 list_emb_append_mono)

lemma js_step_kept:
  assumes "js_step l s s'" "js_kept s"
  shows "js_kept s'"
  using assms
proof (induction rule: js_step.induct)
  case (push s t j)
  then show ?case
    using list_emb_append_mono [of "(=)" "js_executed s @ lpc_batch (js_loop s) @ js_queue s"
        "js_pushed s" "[j]" "[j]"] by (simp add: js_kept_def)
next
  case (job_panic s pend wake final j js)
  then show ?case
    using subseq_drop_middle [of "js_executed s @ [j]" js "js_queue s" "js_pushed s"]
    by (simp add: js_kept_def)
qed (auto simp: js_kept_def)

lemma js_run_kept: "js_run ls s s' \<Longrightarrow> js_kept s \<Longrightarrow> js_kept s'"
  by (induction rule: js_run.induct) (auto intro: js_step_kept)

subsection \<open>The loop left to itself\<close>

text \<open>
  The steps the loop makes when no descriptor but the wake-up one is ready, and a bound
  on how many of them it needs to have executed all that is queued.
\<close>

definition quiet :: "'j js_label set" where
  "quiet = {WaitReturns, Drain, WakeStart, EndBatch, HandleEnd, Swap, RunJob, ExecEnd}"

definition idle :: "'j js_state \<Rightarrow> bool" where
  "idle s \<longleftrightarrow> (\<forall>t. js_threads s t = TIdle)"

fun lpc_rank :: "'j lpc \<Rightarrow> nat" where
  "lpc_rank (LUnset _ _ _) = 1"
| "lpc_rank (LHandling _ _ _) = 2"
| "lpc_rank (LBatch False True) = 3"
| "lpc_rank (LBatch True _) = 4"
| "lpc_rank LWait = 5"
| "lpc_rank (LBatch False False) = 6"
| "lpc_rank (LExec _ _ _ js) = 7"
| "lpc_rank LExit = 0"

definition js_left :: "'j js_state \<Rightarrow> nat" where
  "js_left s =
     length (lpc_batch (js_loop s)) +
     (if js_queue s = [] then 0 else lpc_rank (js_loop s) + length (js_queue s))"

definition js_live :: "'j js_state \<Rightarrow> bool" where
  "js_live s \<longleftrightarrow> js_inv s \<and> idle s \<and> js_running s \<and> js_loop s \<noteq> LExit"

lemma js_quiet_live:
  assumes "js_step l s s'" "l \<in> quiet" "js_live s"
  shows "js_live s'"
proof -
  have "l \<noteq> HandlePanic" "l \<noteq> JobPanic" using assms(2) by (auto simp: quiet_def)
  with assms have "js_inv s'" by (auto simp: js_live_def intro: js_step_inv)
  moreover have "idle s' \<and> js_running s' \<and> js_loop s' \<noteq> LExit"
    using assms
    by (auto simp: js_live_def idle_def quiet_def after_exec_def split: if_splits elim!: js_step_cases)
  ultimately show ?thesis by (simp add: js_live_def)
qed

lemma lpc_rank_batch: "lpc_rank (LBatch p w :: 'j lpc) \<le> 6"
  by (cases p; cases w) simp_all

lemma lpc_rank_after: "lpc_rank (after_exec r p w f :: 'j lpc) \<le> 6"
  using lpc_rank_batch [of p w, where ?'j = 'j] by (simp add: after_exec_def)

lemma js_quiet_left:
  assumes "js_step l s s'" "l \<in> quiet" "js_live s"
  shows "js_left s = 0 \<and> js_left s' = 0 \<or> js_left s' < js_left s"
  using assms
proof (cases rule: js_step.cases)
  case wait_returns
  with assms(3) show ?thesis by (auto simp: js_left_def js_live_def js_inv_def idle_def)
next
  case (exec_end p w f)
  then have "lpc_rank (js_loop s') \<le> 6" by (simp add: lpc_rank_after)
  with exec_end show ?thesis by (auto simp: js_left_def)
qed (auto simp: js_left_def quiet_def)

lemma js_quiet_run:
  assumes "js_run ls s s'" "set ls \<subseteq> quiet" "js_live s"
  shows "js_live s' \<and> (js_left s' = 0 \<or> js_left s' + length ls \<le> js_left s)"
  using assms
proof (induction rule: js_run.induct)
  case (snoc ls s s' l s'')
  then have "js_live s'" "js_left s' = 0 \<or> js_left s' + length ls \<le> js_left s" "l \<in> quiet" by auto
  with js_quiet_live js_quiet_left snoc.hyps(2) show ?case by fastforce
qed simp

lemma js_quiet_enabled:
  assumes "js_live s"
  shows "\<exists>l s'. l \<in> quiet \<and> js_step l s s'"
proof (cases "js_loop s")
  case (LBatch p w)
  then show ?thesis
    by (cases p; cases w) (auto simp: quiet_def intro: drain wake_start end_batch)
next
  case (LExec p w f js)
  then show ?thesis by (cases js) (auto simp: quiet_def intro: run_job exec_end)
qed (use assms in \<open>auto simp: quiet_def js_live_def intro: wait_returns handle_end swap\<close>)

lemma js_left_0:
  assumes "js_live s" "js_left s = 0"
  shows "js_executed s = js_pushed s"
  using assms
  by (cases "js_loop s") (auto simp: js_live_def js_inv_def js_left_def split: if_splits)

lemma js_left_bound: "js_left s \<le> 7 + length (lpc_batch (js_loop s)) + length (js_queue s)"
proof -
  have "lpc_rank l \<le> 7" for l :: "'j lpc" by (cases l rule: lpc_rank.cases) simp_all
  from this [of "js_loop s"] show ?thesis by (simp add: js_left_def)
qed

lemma js_run_append:
  "js_run ls s s' \<Longrightarrow> js_run ks r s \<Longrightarrow> js_run (ks @ ls) r s'"
proof (induction rule: js_run.induct)
  case (snoc ls s s' l s'')
  then show ?case using js_run.snoc by (metis append_assoc)
qed simp

lemma js_run_exit:
  assumes "js_run ls s s'" "js_loop s = LExit"
  shows "js_loop s' = LExit \<and> js_executed s' = js_executed s"
  using assms by (induction rule: js_run.induct) (auto elim!: js_step_cases)

text \<open>An executable form of the steps, for concrete schedules.\<close>

fun js_exec :: "'j js_label \<Rightarrow> 'j js_state \<Rightarrow> 'j js_state option" where
  "js_exec (PushJob t j) s =
     (if js_threads s t = TIdle
      then Some (s\<lparr>js_queue := js_queue s @ [j], js_pushed := js_pushed s @ [j],
        js_threads := (js_threads s)(t := TPushed)\<rparr>) else None)"
| "js_exec (Test t) s =
     (if js_threads s t = TPushed
      then Some (s\<lparr>js_threads := (js_threads s)(t := if js_flag s then TIdle else TMustWake)\<rparr>)
      else None)"
| "js_exec (WakeUp t) s =
     (if js_threads s t = TMustWake
      then Some (s\<lparr>js_wakes := Suc (js_wakes s), js_threads := (js_threads s)(t := TIdle)\<rparr>)
      else None)"
| "js_exec ClearRunning s =
     (if js_closer s = CIdle \<and> js_running s
      then Some (s\<lparr>js_running := False, js_closer := CWake\<rparr>) else None)"
| "js_exec CloseWake s =
     (if js_closer s = CWake
      then Some (s\<lparr>js_wakes := Suc (js_wakes s), js_closer := CDone\<rparr>) else None)"
| "js_exec WaitReturns s =
     (if js_loop s = LWait then Some (s\<lparr>js_loop := LBatch (js_wakes s > 0) False\<rparr>) else None)"
| "js_exec Drain s =
     (case js_loop s of
        LBatch True wake \<Rightarrow> Some (s\<lparr>js_wakes := 0, js_loop := LBatch False True\<rparr>) | _ \<Rightarrow> None)"
| "js_exec EventStart s =
     (case js_loop s of
        LBatch pend wake \<Rightarrow> Some (s\<lparr>js_flag := True, js_loop := LHandling pend wake False\<rparr>)
      | _ \<Rightarrow> None)"
| "js_exec WakeStart s =
     (case js_loop s of
        LBatch False True \<Rightarrow> Some (s\<lparr>js_flag := True, js_loop := LHandling False True True\<rparr>)
      | _ \<Rightarrow> None)"
| "js_exec EndBatch s =
     (case js_loop s of LBatch False False \<Rightarrow> Some (s\<lparr>js_loop := LWait\<rparr>) | _ \<Rightarrow> None)"
| "js_exec HandleEnd s =
     (case js_loop s of
        LHandling p w f \<Rightarrow> Some (s\<lparr>js_flag := False, js_loop := LUnset p w f\<rparr>) | _ \<Rightarrow> None)"
| "js_exec HandlePanic s =
     (case js_loop s of LHandling p w False \<Rightarrow> Some (s\<lparr>js_loop := LBatch p w\<rparr>) | _ \<Rightarrow> None)"
| "js_exec Swap s =
     (case js_loop s of
        LUnset p w f \<Rightarrow> Some (s\<lparr>js_queue := [], js_loop := LExec p w f (js_queue s)\<rparr>) | _ \<Rightarrow> None)"
| "js_exec RunJob s =
     (case js_loop s of
        LExec p w f (j # js) \<Rightarrow>
          Some (s\<lparr>js_executed := js_executed s @ [j], js_loop := LExec p w f js\<rparr>)
      | _ \<Rightarrow> None)"
| "js_exec JobPanic s =
     (case js_loop s of
        LExec p w f (j # js) \<Rightarrow>
          Some (s\<lparr>js_executed := js_executed s @ [j], js_loop := after_exec (js_running s) p w f\<rparr>)
      | _ \<Rightarrow> None)"
| "js_exec ExecEnd s =
     (case js_loop s of
        LExec p w f [] \<Rightarrow> Some (s\<lparr>js_loop := after_exec (js_running s) p w f\<rparr>) | _ \<Rightarrow> None)"

lemma js_step_test:
  "js_threads s t = TPushed \<Longrightarrow> js_flag s \<Longrightarrow>
    js_step (Test t) s (s\<lparr>js_threads := (js_threads s)(t := TIdle)\<rparr>)"
  "js_threads s t = TPushed \<Longrightarrow> \<not> js_flag s \<Longrightarrow>
    js_step (Test t) s (s\<lparr>js_threads := (js_threads s)(t := TMustWake)\<rparr>)"
  using js_step.test [of s t] by simp_all

lemma js_exec_step: "js_exec l s = Some s' \<Longrightarrow> js_step l s s'"
  by (induction l s rule: js_exec.induct)
     (auto split: if_splits lpc.splits bool.splits list.splits
       intro: js_step.intros js_step_test)

fun js_execs :: "'j js_label list \<Rightarrow> 'j js_state \<Rightarrow> 'j js_state option" where
  "js_execs [] s = Some s"
| "js_execs (l # ls) s = (case js_exec l s of None \<Rightarrow> None | Some s' \<Rightarrow> js_execs ls s')"

lemma js_execs_run: "js_execs ls s = Some s' \<Longrightarrow> js_run ls s s'"
proof (induction ls s rule: js_execs.induct)
  case (1 s)
  then show ?case by (auto intro: js_run.nil)
next
  case (2 l ls s)
  then obtain s1 where "js_exec l s = Some s1" "js_run ls s1 s'" by (auto split: option.splits)
  with js_run_append [OF _ js_run.snoc [OF js_run.nil js_exec_step]] show ?case by force
qed

end
