(* ===== verification/Epoll.thy ===== *)
theory Epoll
  imports Poller_Contract
begin

text \<open>
  pkg/limpoller/epoll.go. The kernel is not code of the repository: its epoll_ctl is a
  parameter, carried in the state next to the kernel state it works on, and its
  documented behaviour (epoll_ctl(2)) is \<open>epoll_ctl_documented\<close>: a call either fails
  and changes nothing, or adds, modifies or deletes the descriptor's entry of the
  interest list; modifying and deleting succeed on an entry that exists.
\<close>

datatype ctl_op = EPOLL_CTL_ADD | EPOLL_CTL_DEL | EPOLL_CTL_MOD

record 'k epoll_env =
  ee_ctl :: "ctl_op \<Rightarrow> int \<Rightarrow> 32 word \<Rightarrow> 'k \<Rightarrow> nat option \<times> 'k"
  ee_interest :: "'k \<Rightarrow> int \<Rightarrow> 32 word option"
  ee_kernel :: 'k

definition ctl_documented ::
  "(ctl_op \<Rightarrow> int \<Rightarrow> 32 word \<Rightarrow> 'k \<Rightarrow> nat option \<times> 'k) \<Rightarrow> ('k \<Rightarrow> int \<Rightarrow> 32 word option) \<Rightarrow> bool" where
  "ctl_documented ctl interest \<longleftrightarrow>
     (\<forall>op fd ev k k' e.
        ctl op fd ev k = (e, k') \<longrightarrow>
        (case e of
           Some _ \<Rightarrow> interest k' = interest k \<and> (op = EPOLL_CTL_ADD \<or> interest k fd = None)
         | None \<Rightarrow>
             (case op of
                EPOLL_CTL_ADD \<Rightarrow>
                  interest k fd = None \<and> interest k' = (interest k)(fd := Some ev)
              | EPOLL_CTL_MOD \<Rightarrow>
                  interest k fd \<noteq> None \<and> interest k' = (interest k)(fd := Some ev)
              | EPOLL_CTL_DEL \<Rightarrow>
                  interest k fd \<noteq> None \<and> interest k' = (interest k)(fd := None))))"

definition epoll_ctl_documented :: "'k epoll_env \<Rightarrow> bool" where
  "epoll_ctl_documented s \<longleftrightarrow> ctl_documented (ee_ctl s) (ee_interest s)"

definition EPOLLIN :: "32 word" where "EPOLLIN = 0x1"
definition EPOLLPRI :: "32 word" where "EPOLLPRI = 0x2"
definition EPOLLOUT :: "32 word" where "EPOLLOUT = 0x4"
definition EPOLLERR :: "32 word" where "EPOLLERR = 0x8"
definition POLLHUP :: "32 word" where "POLLHUP = 0x10"
definition EPOLLRDHUP :: "32 word" where "EPOLLRDHUP = 0x2000"

definition readEvent :: "32 word" where "readEvent = EPOLLIN OR EPOLLPRI"
definition writeEvent :: "32 word" where "writeEvent = EPOLLOUT"

definition ep_ctl ::
  "ctl_op \<Rightarrow> int \<Rightarrow> 32 word \<Rightarrow> 'k epoll_env \<Rightarrow> poll_error option \<times> 'k epoll_env" where
  "ep_ctl op fd ev s =
     (let (e, k) = ee_ctl s op fd ev (ee_kernel s)
      in (map_option Errno e, s\<lparr>ee_kernel := k\<rparr>))"

definition ep_add :: "int \<Rightarrow> 32 word \<Rightarrow> 'k epoll_env \<Rightarrow> poll_error option \<times> 'k epoll_env" where
  "ep_add fd events s = ep_ctl EPOLL_CTL_ADD fd events s"

definition ep_mod :: "int \<Rightarrow> 32 word \<Rightarrow> 'k epoll_env \<Rightarrow> poll_error option \<times> 'k epoll_env" where
  "ep_mod fd events s = ep_ctl EPOLL_CTL_MOD fd events s"

definition ep_AddRead :: "int \<Rightarrow> 'k epoll_env \<Rightarrow> poll_error option \<times> 'k epoll_env" where
  "ep_AddRead fd s = ep_add fd readEvent s"

definition ep_AddWrite :: "int \<Rightarrow> 'k epoll_env \<Rightarrow> poll_error option \<times> 'k epoll_env" where
  "ep_AddWrite fd s = ep_add fd writeEvent s"

definition ep_Del :: "int \<Rightarrow> 'k epoll_env \<Rightarrow> poll_error option \<times> 'k epoll_env" where
  "ep_Del fd s = ep_ctl EPOLL_CTL_DEL fd 0 s"

definition ep_EnableReadWrite :: "int \<Rightarrow> 'k epoll_env \<Rightarrow> poll_error option \<times> 'k epoll_env" where
  "ep_EnableReadWrite fd s = ep_mod fd (readEvent OR writeEvent) s"

definition ep_EnableWrite :: "int \<Rightarrow> 'k epoll_env \<Rightarrow> poll_error option \<times> 'k epoll_env" where
  "ep_EnableWrite fd s = ep_mod fd writeEvent s"

definition ep_EnableRead :: "int \<Rightarrow> 'k epoll_env \<Rightarrow> poll_error option \<times> 'k epoll_env" where
  "ep_EnableRead fd s = ep_mod fd readEvent s"

subsection \<open>The interests of a descriptor\<close>

definition ep_rd :: "'k epoll_env \<Rightarrow> int \<Rightarrow> bool" where
  "ep_rd s fd \<longleftrightarrow>
     (case ee_interest s (ee_kernel s) fd of None \<Rightarrow> False | Some ev \<Rightarrow> ev AND readEvent \<noteq> 0)"

definition ep_wr :: "'k epoll_env \<Rightarrow> int \<Rightarrow> bool" where
  "ep_wr s fd \<longleftrightarrow>
     (case ee_interest s (ee_kernel s) fd of None \<Rightarrow> False | Some ev \<Rightarrow> ev AND writeEvent \<noteq> 0)"

lemmas epoll_consts = EPOLLIN_def EPOLLPRI_def EPOLLOUT_def readEvent_def writeEvent_def

lemma documented_kernel [simp]:
  "epoll_ctl_documented (s\<lparr>ee_kernel := k\<rparr>) = epoll_ctl_documented s"
  by (simp add: epoll_ctl_documented_def)

lemma ep_ctl_cases:
  assumes "epoll_ctl_documented s" "ep_ctl op fd ev s = (None, s')"
  shows "epoll_ctl_documented s'" "ee_interest s' (ee_kernel s') =
    (case op of EPOLL_CTL_DEL \<Rightarrow> (ee_interest s (ee_kernel s))(fd := None)
     | _ \<Rightarrow> (ee_interest s (ee_kernel s))(fd := Some ev))"
proof -
  obtain k where k: "ee_ctl s op fd ev (ee_kernel s) = (None, k)" "s' = s\<lparr>ee_kernel := k\<rparr>"
    using assms(2) by (auto simp: ep_ctl_def split: prod.splits)
  then show "epoll_ctl_documented s'"
    using assms(1) by simp
  show "ee_interest s' (ee_kernel s') =
    (case op of EPOLL_CTL_DEL \<Rightarrow> (ee_interest s (ee_kernel s))(fd := None)
     | _ \<Rightarrow> (ee_interest s (ee_kernel s))(fd := Some ev))"
    using assms(1) k unfolding epoll_ctl_documented_def ctl_documented_def by (cases op) fastforce+
qed

lemmas ep_ops = ep_AddRead_def ep_AddWrite_def ep_EnableReadWrite_def ep_EnableRead_def
  ep_EnableWrite_def ep_Del_def ep_add_def ep_mod_def

lemma rw_bits: "readEvent \<noteq> 0" "readEvent AND readEvent \<noteq> 0" "readEvent AND writeEvent = 0"
  "(readEvent OR writeEvent) AND readEvent \<noteq> 0" "(readEvent OR writeEvent) AND writeEvent \<noteq> 0" "writeEvent \<noteq> 0"
  by (simp_all add: epoll_consts)

text \<open>What a successful call does to the interests.\<close>

lemma ep_set_interest:
  assumes "epoll_ctl_documented s" "ep_ctl op fd ev s = (None, s')"
  shows "ep_rd s' = (ep_rd s)(fd := op \<noteq> EPOLL_CTL_DEL \<and> ev AND readEvent \<noteq> 0)"
    and "ep_wr s' = (ep_wr s)(fd := op \<noteq> EPOLL_CTL_DEL \<and> ev AND writeEvent \<noteq> 0)"
  using ep_ctl_cases(2) [OF assms] by (cases op; auto simp: fun_eq_iff ep_rd_def ep_wr_def)+

lemma ep_failed:
  assumes "epoll_ctl_documented s" "ep_ctl op fd ev s = (Some e, s')"
  shows "ep_rd s' = ep_rd s" "ep_wr s' = ep_wr s"
proof -
  obtain e' k where k: "ee_ctl s op fd ev (ee_kernel s) = (Some e', k)" "s' = s\<lparr>ee_kernel := k\<rparr>"
    using assms(2) by (auto simp: ep_ctl_def split: prod.splits)
  with assms(1) have "ee_interest s k = ee_interest s (ee_kernel s)"
    unfolding epoll_ctl_documented_def ctl_documented_def by fastforce
  with k show "ep_rd s' = ep_rd s" "ep_wr s' = ep_wr s" by (simp_all add: fun_eq_iff ep_rd_def ep_wr_def)
qed

text \<open>Whether or not it succeeds, a deleted descriptor is not watched.\<close>

lemma ep_Del_unwatched:
  assumes "epoll_ctl_documented s" "ep_Del fd s = (e, s')"
  shows "\<not> ep_rd s' fd" "\<not> ep_wr s' fd"
proof -
  obtain e' k where k: "ee_ctl s EPOLL_CTL_DEL fd 0 (ee_kernel s) = (e', k)" "s' = s\<lparr>ee_kernel := k\<rparr>"
    using assms(2) by (auto simp: ep_Del_def ep_ctl_def split: prod.splits)
  with assms(1) have "ee_interest s k fd = None"
    unfolding epoll_ctl_documented_def ctl_documented_def by (cases e') fastforce+
  with k show "\<not> ep_rd s' fd" "\<not> ep_wr s' fd" by (simp_all add: ep_rd_def ep_wr_def)
qed

interpretation ep: poller_full epoll_ctl_documented ep_rd ep_wr ep_AddRead ep_EnableReadWrite
  ep_EnableRead ep_Del
  by (unfold_locales; unfold ep_ops; frule (1) ep_ctl_cases(1); frule (1) ep_set_interest(1);
      drule (1) ep_set_interest(2)) (simp_all add: rw_bits fun_upd_idem_iff)

subsection \<open>The wait loop\<close>

text \<open>
  \<open>ep_translate\<close> turns the kernel's event bits into the package's. \<open>ep_batch\<close> is the loop
  over the events of one EpollWait: the wake-up descriptor is drained and noted, every
  other descriptor goes to the handler. \<open>ep_Poll\<close> is the endless loop, run over the
  results of successive EpollWait calls and, for each, what \<open>running\<close> is when the round
  asks; it returns whether the loop has ended. A handler call returns whether it
  returned normally: a panic that escapes it ends Poll, whose deferred function
  recovers.
\<close>

definition EINTR :: nat where "EINTR = 4"

definition ep_translate :: "32 word \<Rightarrow> event" where
  "ep_translate ev =
     (let r0 = 0;
          r1 = (if ev AND POLLHUP \<noteq> 0 \<and> ev AND EPOLLIN = 0 then r0 OR EventErr else r0);
          r2 = (if ev AND EPOLLERR \<noteq> 0 \<or> ev AND EPOLLOUT \<noteq> 0 then r1 OR EventWrite else r1);
          r3 = (if ev AND (EPOLLIN OR EPOLLPRI OR EPOLLRDHUP) \<noteq> 0 then r2 OR EventRead else r2)
      in r3)"

fun ep_batch ::
  "int \<Rightarrow> (int \<Rightarrow> event \<Rightarrow> 's \<Rightarrow> bool \<times> 's) \<Rightarrow> ('s \<Rightarrow> 's) \<Rightarrow> (int \<times> 32 word) list \<Rightarrow> bool \<Rightarrow> 's \<Rightarrow>
   bool \<times> bool \<times> 's" where
  "ep_batch eventFd handler wakeHandlerRead [] wake s = (True, wake, s)"
| "ep_batch eventFd handler wakeHandlerRead ((fd, ev) # evs) wake s =
     (if fd \<noteq> eventFd
      then (case handler fd (ep_translate ev) s of
              (False, s') \<Rightarrow> (False, wake, s')
            | (True, s') \<Rightarrow> ep_batch eventFd handler wakeHandlerRead evs wake s')
      else ep_batch eventFd handler wakeHandlerRead evs True (wakeHandlerRead s))"

record wait_result =
  wait_err :: "nat option"
  wait_events :: "(int \<times> 32 word) list"
  wait_running :: bool

fun ep_Poll ::
  "int \<Rightarrow> (int \<Rightarrow> event \<Rightarrow> 's \<Rightarrow> bool \<times> 's) \<Rightarrow> ('s \<Rightarrow> 's) \<Rightarrow> nat \<Rightarrow> wait_result list \<Rightarrow> 's \<Rightarrow>
   bool \<times> nat \<times> 's" where
  "ep_Poll eventFd handler wakeHandlerRead buflen [] s = (False, buflen, s)"
| "ep_Poll eventFd handler wakeHandlerRead buflen (w # ws) s =
     (if wait_err w \<noteq> None \<and> wait_err w \<noteq> Some EINTR
      then ep_Poll eventFd handler wakeHandlerRead buflen ws s
      else (let evs = (if wait_err w = None then wait_events w else []);
                buflen' = (if wait_err w = None \<and> length evs = buflen then length evs * 2 else buflen)
            in case ep_batch eventFd handler wakeHandlerRead evs False s of
                 (False, _, s1) \<Rightarrow> (True, buflen, s1)
               | (True, False, s1) \<Rightarrow> ep_Poll eventFd handler wakeHandlerRead buflen' ws s1
               | (True, True, s1) \<Rightarrow>
                   (case handler (-1) 0 s1 of
                      (False, s2) \<Rightarrow> (True, buflen, s2)
                    | (True, s2) \<Rightarrow>
                        (if \<not> wait_running w then (True, buflen, s2)
                         else ep_Poll eventFd handler wakeHandlerRead buflen' ws s2))))"

text \<open>
  What the loop owes its client, as a list of handler calls: in each round the events of
  the descriptors in order, then one wake-up call if the round held any wake-up; the
  loop ends in the first round that held one after \<open>running\<close> was cleared.
\<close>

definition round_events :: "wait_result \<Rightarrow> (int \<times> 32 word) list" where
  "round_events w = (if wait_err w = None then wait_events w else [])"

definition round_wakes :: "int \<Rightarrow> wait_result \<Rightarrow> bool" where
  "round_wakes eventFd w \<longleftrightarrow> eventFd \<in> fst ` set (round_events w)"

definition round_calls :: "int \<Rightarrow> wait_result \<Rightarrow> (int \<times> event) list" where
  "round_calls eventFd w =
     map (\<lambda>(fd, ev). (fd, ep_translate ev)) (filter (\<lambda>(fd, ev). fd \<noteq> eventFd) (round_events w)) @
     (if round_wakes eventFd w then [(-1, 0)] else [])"

fun poll_calls :: "int \<Rightarrow> wait_result list \<Rightarrow> bool \<times> (int \<times> event) list" where
  "poll_calls eventFd [] = (False, [])"
| "poll_calls eventFd (w # ws) =
     (if round_wakes eventFd w \<and> \<not> wait_running w then (True, round_calls eventFd w)
      else (let (fin, cs) = poll_calls eventFd ws in (fin, round_calls eventFd w @ cs)))"

fun run_calls :: "(int \<Rightarrow> event \<Rightarrow> 's \<Rightarrow> bool \<times> 's) \<Rightarrow> (int \<times> event) list \<Rightarrow> 's \<Rightarrow> 's" where
  "run_calls handler [] s = s"
| "run_calls handler ((fd, ev) # cs) s = run_calls handler cs (snd (handler fd ev s))"

lemma run_calls_append:
  "run_calls handler (cs @ ds) s = run_calls handler ds (run_calls handler cs s)"
  by (induction handler cs s rule: run_calls.induct) simp_all

lemma ep_batch_calls:
  assumes "\<And>fd ev s. fst (handler fd ev s)"
  shows "ep_batch eventFd handler (\<lambda>s. s) evs wake s =
    (True, wake \<or> eventFd \<in> fst ` set evs,
     run_calls handler (map (\<lambda>(fd, ev). (fd, ep_translate ev))
       (filter (\<lambda>(fd, ev). fd \<noteq> eventFd) evs)) s)"
proof (induction evs arbitrary: wake s)
  case Nil
  then show ?case by simp
next
  case (Cons e evs)
  obtain fd ev where e: "e = (fd, ev)" by (cases e)
  obtain s' where "handler fd (ep_translate ev) s = (True, s')"
    using assms [of fd "ep_translate ev" s] by (cases "handler fd (ep_translate ev) s") auto
  with e Cons show ?case by auto
qed

end
