(* ===== verification/Event_Loop_Props.thy ===== *)
theory Event_Loop_Props
  imports Event_Loop Job_Delivery Epoll
begin

text \<open>The properties of the event loop, sequential and concurrent.\<close>

text \<open>The jobs that the labels of a run push and execute.\<close>

fun pushes :: "'j js_label list \<Rightarrow> 'j list" where
  "pushes [] = []"
| "pushes (PushJob _ j # ls) = j # pushes ls"
| "pushes (_ # ls) = pushes ls"

lemma pushes_append [simp]: "pushes (ls @ ks) = pushes ls @ pushes ks"
  by (induction ls rule: pushes.induct) simp_all

lemma js_run_pushes: "js_run ls s s' \<Longrightarrow> js_pushed s' = js_pushed s @ pushes ls"
  by (induction rule: js_run.induct) (auto elim!: js_step_cases)

lemma js_init_simps [simp]:
  "js_pushed js_init = []" "js_queue js_init = []" "js_loop js_init = LWait"
  "js_executed js_init = []" "js_running js_init" "js_threads js_init t = TIdle"
  by (simp_all add: js_init_def)

text \<open>
  C23. Whatever the interleaving of triggering goroutines, loop and shutdown, and whatever
  handler or job panics, the executed jobs, those of the batch in execution and those
  still queued are, in this order, a subsequence of the jobs pushed: no job runs twice,
  none runs before one pushed earlier, none is invented.
\<close>
theorem jobs_in_order_at_most_once:
  assumes "js_run ls js_init s"
  shows "subseq (js_executed s @ lpc_batch (js_loop s) @ js_queue s) (pushes ls)"
  using js_run_kept [OF assms] js_run_pushes [OF assms] by (simp add: js_kept_def)

text \<open>A schedule in which the first job panics and the second, of the same batch, is dropped.\<close>

definition panic_schedule :: "nat js_label list" where
  "panic_schedule =
     [PushJob 0 7, PushJob 1 8, Test 0, WakeUp 0, WaitReturns, Drain, Test 1, WakeStart, HandleEnd,
      Swap, JobPanic, WakeUp 1, PushJob 0 9]"

theorem jobs_in_order_at_most_once_witness:
  "\<exists>s. js_run panic_schedule js_init s \<and> js_executed s = [7] \<and> js_queue s = [9] \<and>
    subseq (js_executed s @ lpc_batch (js_loop s) @ js_queue s) [7, 8, 9]"
proof -
  obtain s where s: "js_execs panic_schedule js_init = Some s" "js_executed s = [7]" "js_queue s = [9]"
    by (simp add: panic_schedule_def js_init_def after_exec_def)
  from jobs_in_order_at_most_once [OF js_execs_run [OF s(1)]] s js_execs_run [OF s(1)] show ?thesis
    by (auto simp: panic_schedule_def)
qed

text \<open>
  C8. Without panics no triggered job is lost. In every reachable state, if the poller has
  not been closed, the jobs pushed are exactly the executed ones, the rest of the batch
  and the queue; and once the calls of Trigger have returned, the loop left to itself
  (no descriptor ready but the wake-up one) can always make a step and has executed
  every job pushed after at most 7 steps more than there are jobs left.
\<close>
theorem triggered_jobs_are_executed:
  assumes "js_run ls js_init s" "calm ls" "js_running s" "js_loop s \<noteq> LExit" "idle s"
  shows "pushes ls = js_executed s @ lpc_batch (js_loop s) @ js_queue s \<and>
    (\<forall>ks s'. js_run ks s s' \<longrightarrow> set ks \<subseteq> quiet \<longrightarrow>
      (\<exists>l s''. l \<in> quiet \<and> js_step l s' s'') \<and>
      (length ks > 7 + length (lpc_batch (js_loop s)) + length (js_queue s) \<longrightarrow>
       js_executed s' = pushes ls))"
proof -
  have live: "js_live s"
    using assms js_run_inv [OF assms(1) js_inv_init assms(2)] by (simp add: js_live_def)
  have "js_executed s' = pushes ls"
    if r: "js_run ks s s'" "set ks \<subseteq> quiet"
      and k: "length ks > 7 + length (lpc_batch (js_loop s)) + length (js_queue s)" for ks s'
  proof -
    have "js_live s'" "js_left s' = 0"
      using js_quiet_run [OF r live] js_left_bound [of s] k by auto
    moreover have "js_pushed s' = js_pushed s"
      using r by (induction rule: js_run.induct) (auto simp: quiet_def elim!: js_step_cases)
    ultimately show ?thesis
      using js_left_0 js_run_pushes [OF assms(1)] by fastforce
  qed
  moreover have "\<exists>l s''. l \<in> quiet \<and> js_step l s' s''"
    if "js_run ks s s'" "set ks \<subseteq> quiet" for ks s'
    using js_quiet_run [OF that live] js_quiet_enabled by blast
  moreover have "pushes ls = js_executed s @ lpc_batch (js_loop s) @ js_queue s"
    using live js_run_pushes [OF assms(1)] by (simp add: js_live_def js_inv_def)
  ultimately show ?thesis by blast
qed

text \<open>
  Two goroutines trigger, one while a handler runs (its push finds the flag set and does
  not wake), one before; then the loop alone.
\<close>

definition busy_schedule :: "nat js_label list" where
  "busy_schedule =
     [WaitReturns, EventStart, PushJob 0 7, Test 0, HandleEnd, PushJob 1 8, Swap, PushJob 0 9,
      Test 1, WakeUp 1, Test 0, WakeUp 0]"

definition quiet_schedule :: "nat js_label list" where
  "quiet_schedule =
     [RunJob, RunJob, ExecEnd, EndBatch, WaitReturns, Drain, WakeStart, HandleEnd, Swap, RunJob,
      ExecEnd, WaitReturns, EndBatch]"

lemma busy_schedule_run:
  "\<exists>s. js_execs busy_schedule js_init = Some s \<and> js_running s \<and> js_loop s = LExec False False False [7, 8] \<and>
     js_queue s = [9] \<and> idle s \<and> (\<exists>s'. js_execs quiet_schedule s = Some s')"
  by (simp add: busy_schedule_def quiet_schedule_def js_init_def after_exec_def idle_def)

theorem triggered_jobs_are_executed_witness:
  "\<exists>s s'. js_run busy_schedule js_init s \<and> js_run quiet_schedule s s' \<and> js_executed s' = [7, 8, 9]"
proof -
  obtain s s' where s: "js_execs busy_schedule js_init = Some s" "js_running s"
      "js_loop s = LExec False False False [7, 8]" "js_queue s = [9]" "idle s"
      "js_execs quiet_schedule s = Some s'"
    using busy_schedule_run by blast
  have "calm busy_schedule" "set quiet_schedule \<subseteq> quiet" "length quiet_schedule > 7 + 2 + 1"
    "pushes busy_schedule = [7, 8, 9]"
    by (simp_all add: calm_def busy_schedule_def quiet_schedule_def quiet_def)
  with triggered_jobs_are_executed [OF js_execs_run [OF s(1)] this(1) s(2) _ s(5)]
    s js_execs_run [OF s(1)] js_execs_run [OF s(6)]
  show ?thesis by fastforce
qed

text \<open>
  C39. After one recovered panic of a handler the wake-up of the next Trigger can be lost:
  \<open>eventHandling\<close> stays set, so that Trigger queues the job and does not write the
  wake-up descriptor, and the loop left to itself never executes it.
\<close>
theorem job_stranded_after_handler_panic:
  "\<exists>s. js_run [WaitReturns, EventStart, HandlePanic, EndBatch, PushJob t j, Test t] js_init s \<and>
     idle s \<and> js_running s \<and> js_loop s = LWait \<and> js_queue s = [j] \<and> js_wakes s = 0 \<and>
     (\<forall>ks s'. js_run ks s s' \<longrightarrow> set ks \<subseteq> quiet \<longrightarrow> js_executed s' = [] \<and> js_queue s' = [j])"
proof -
  obtain s where s: "js_execs [WaitReturns, EventStart, HandlePanic, EndBatch, PushJob t j, Test t] js_init = Some s"
      "idle s" "js_running s" "js_loop s = LWait" "js_queue s = [j]" "js_wakes s = 0" "js_executed s = []"
    by (auto simp: js_init_def idle_def)
  have "js_executed s' = [] \<and> js_queue s' = [j] \<and> js_wakes s' = 0 \<and>
      (js_loop s' = LWait \<or> js_loop s' = LBatch False False)"
    if "js_run ks s s'" "set ks \<subseteq> quiet" for ks s'
    using that s by (induction rule: js_run.induct) (auto simp: quiet_def elim!: js_step_cases)
  with s js_execs_run [OF s(1)] show ?thesis by blast
qed

theorem job_stranded_after_handler_panic_witness:
  "\<exists>s s'. idle s \<and> js_run [WaitReturns, EndBatch, WaitReturns] s s' \<and> js_executed s' = [] \<and> js_queue s' = [7::nat]"
proof -
  obtain s where s: "idle s" "js_loop s = LWait" "js_wakes s = 0" and
    r: "\<And>ks s'. js_run ks s s' \<Longrightarrow> set ks \<subseteq> quiet \<Longrightarrow> js_executed s' = [] \<and> js_queue s' = [7::nat]"
    using job_stranded_after_handler_panic [of 0 "7::nat"] by blast
  obtain s' where "js_execs [WaitReturns, EndBatch, WaitReturns] s = Some s'"
    using s by simp
  then have "js_run [WaitReturns, EndBatch, WaitReturns] s s'" by (rule js_execs_run)
  with r [OF this] s show ?thesis by (auto simp: quiet_def)
qed

text \<open>
  C40. Closing the poller can drop a job whose Trigger had completed, wake-up included,
  before Close was called: the loop looks at \<open>running\<close> after the jobs it has swapped
  out, not at the queue. The job is in the queue when the loop exits and is not executed
  in any continuation.
\<close>
theorem job_dropped_at_shutdown:
  "\<exists>s. js_run ([PushJob 0 i, Test 0, WakeUp 0, WaitReturns, Drain, WakeStart, HandleEnd, Swap] @
        [PushJob 1 j, Test 1, WakeUp 1] @ [ClearRunning, CloseWake] @ [RunJob, ExecEnd]) js_init s \<and>
     js_loop s = LExit \<and> idle s \<and> js_executed s = [i] \<and> js_queue s = [j] \<and>
     (\<forall>ks s'. js_run ks s s' \<longrightarrow> js_executed s' = [i])"
proof -
  obtain s where s: "js_execs ([PushJob 0 i, Test 0, WakeUp 0, WaitReturns, Drain, WakeStart, HandleEnd, Swap] @
        [PushJob 1 j, Test 1, WakeUp 1] @ [ClearRunning, CloseWake] @ [RunJob, ExecEnd]) js_init = Some s"
      "js_loop s = LExit" "js_queue s = [j]" "js_executed s = [i]" "idle s"
    by (auto simp: js_init_def after_exec_def idle_def)
  have "js_executed s' = [i]" if "js_run ks s s'" for ks s'
    using js_run_exit [OF that s(2)] s(4) by simp
  with s js_execs_run [OF s(1)] show ?thesis by blast
qed

theorem job_dropped_at_shutdown_witness:
  "\<exists>s s'. js_loop s = LExit \<and> js_queue s = [8] \<and> js_run [PushJob 2 9, Test 2] s s' \<and> js_executed s' = [7::nat]"
proof -
  obtain s where s: "js_loop s = LExit" "idle s" "js_queue s = [8]" and
    r: "\<And>ks s'. js_run ks s s' \<Longrightarrow> js_executed s' = [7::nat]"
    using job_dropped_at_shutdown [of "7::nat" 8] by blast
  obtain s' where "js_execs [PushJob 2 9, Test 2] s = Some s'"
    using s(2) by (auto simp: idle_def)
  then have "js_run [PushJob 2 9, Test 2] s s'" by (rule js_execs_run)
  with r [OF this] s show ?thesis by blast
qed

subsection \<open>One event\<close>

definition no_panic :: "outcome \<Rightarrow> bool" where
  "no_panic out \<longleftrightarrow> (\<forall>v. out \<noteq> Panicked v)"

fun exec_all :: "('j \<Rightarrow> 's \<Rightarrow> outcome \<times> 's) \<Rightarrow> 'j list \<Rightarrow> 's \<Rightarrow> 's" where
  "exec_all exec [] s = s"
| "exec_all exec (j # js) s = exec_all exec js (snd (exec j s))"

fun jobs_return :: "('j \<Rightarrow> 's \<Rightarrow> outcome \<times> 's) \<Rightarrow> 'j list \<Rightarrow> 's \<Rightarrow> bool" where
  "jobs_return exec [] s = True"
| "jobs_return exec (j # js) s =
     ((case fst (exec j s) of Panicked _ \<Rightarrow> False | _ \<Rightarrow> True) \<and> jobs_return exec js (snd (exec j s)))"

lemma run_jobs_return:
  "jobs_return exec js s \<Longrightarrow> run_jobs exec js s = (Returned, exec_all exec js s)"
  by (induction exec js s rule: jobs_return.induct) (auto split: outcome.splits prod.splits)

lemma ExecuteJobs_panic:
  assumes "el_jobs s = js @ j # ks" "jobs_return exec js (s\<lparr>el_jobs := []\<rparr>)"
    and "exec j (exec_all exec js (s\<lparr>el_jobs := []\<rparr>)) = (Panicked v, s')"
  shows "ExecuteJobs exec s = (Panicked v, s')"
  using assms by (simp add: ExecuteJobs_def run_jobs_append run_jobs_return)

lemma ExecuteJobs_return:
  "jobs_return exec (el_jobs s) (s\<lparr>el_jobs := []\<rparr>) \<Longrightarrow>
    ExecuteJobs exec s = (Returned, exec_all exec (el_jobs s) (s\<lparr>el_jobs := []\<rparr>))"
  by (simp add: ExecuteJobs_def run_jobs_return)

text \<open>
  An event whose handler returns, with a value or an error, is followed in the same
  call by the jobs queued by then, those of the handler itself included, in order, with
  the handling flag clear and the queue emptied first; a job that fails is passed over,
  and a job that panics drops the jobs behind it in its batch, of which nothing is put
  back into the queue.
\<close>
theorem event_then_jobs:
  assumes "el_handlers s fd = Some h" "fd \<noteq> -1"
    and "handle h fd ev (s\<lparr>el_eventHandling := True\<rparr>) = (out, s2)"
    and "out = Returned \<or> out = Failed"
    and "s3 = s2\<lparr>el_eventHandling := False, el_jobs := []\<rparr>"
    and "el_jobs s2 = js @ ks" "jobs_return exec js s3"
    and "ks \<noteq> [] \<Longrightarrow> exec (hd ks) (exec_all exec js s3) = (Panicked v, s4)"
  shows "handleEvent handle exec fd ev s =
    (if ks = [] then (True, exec_all exec js s3) else (v = ErrorValue, s4))"
proof (cases ks)
  case Nil
  with assms have "ExecuteJobs exec (s2\<lparr>el_eventHandling := False\<rparr>) = (Returned, exec_all exec js s3)"
    using ExecuteJobs_return [of exec "s2\<lparr>el_eventHandling := False\<rparr>"] by simp
  with assms Nil show ?thesis by (auto simp: handleEvent_def)
next
  case (Cons k ks')
  with assms have "ExecuteJobs exec (s2\<lparr>el_eventHandling := False\<rparr>) = (Panicked v, s4)"
    using ExecuteJobs_panic [of "s2\<lparr>el_eventHandling := False\<rparr>" js k ks'] by simp
  with assms Cons show ?thesis by (auto simp: handleEvent_def recovered_def)
qed

text \<open>
  Handlers and jobs for the witnesses: a handler is the list of jobs it triggers; a job
  either panics or triggers the next one.
\<close>

definition demo_handle ::
  "nat list \<Rightarrow> int \<Rightarrow> event \<Rightarrow> (nat list, nat) event_loop \<Rightarrow> outcome \<times> (nat list, nat) event_loop" where
  "demo_handle h fd ev s = (Failed, fold Trigger h s)"

definition demo_exec :: "nat \<Rightarrow> (nat list, nat) event_loop \<Rightarrow> outcome \<times> (nat list, nat) event_loop" where
  "demo_exec j s =
     (if j = 0 then (Panicked ErrorValue, s) else if j = 1 then (Panicked OtherValue, s)
      else (Returned, Trigger (j + 10) s))"

definition demo_loop :: "(nat list, nat) event_loop" where
  "demo_loop =
     \<lparr>el_jobs = [5], el_handlers = (\<lambda>fd. if fd = 7 then Some [6, 0, 8] else None),
      el_eventHandling = False, el_wakes = 0\<rparr>"

theorem event_then_jobs_witness:
  "fst (handleEvent demo_handle demo_exec 7 EventRead demo_loop) \<and>
   el_jobs (snd (handleEvent demo_handle demo_exec 7 EventRead demo_loop)) = [15, 16] \<and>
   el_wakes (snd (handleEvent demo_handle demo_exec 7 EventRead demo_loop)) = 2"
proof -
  let ?s2 = "fold Trigger [6, 0, 8] (demo_loop\<lparr>el_eventHandling := True\<rparr>)"
  let ?s3 = "?s2\<lparr>el_eventHandling := False, el_jobs := []\<rparr>"
  have "handleEvent demo_handle demo_exec 7 EventRead demo_loop =
      (if [0, 8 :: nat] = [] then (True, exec_all demo_exec [5, 6] ?s3)
       else (ErrorValue = ErrorValue, exec_all demo_exec [5, 6] ?s3))"
    by (rule event_then_jobs [where h = "[6, 0, 8]" and out = Failed and ?s2.0 = ?s2])
       (simp_all add: demo_loop_def demo_handle_def demo_exec_def)
  then show ?thesis by (simp add: demo_exec_def demo_loop_def)
qed


definition panicky_handle ::
  "nat list \<Rightarrow> int \<Rightarrow> event \<Rightarrow> (nat list, nat) event_loop \<Rightarrow> outcome \<times> (nat list, nat) event_loop" where
  "panicky_handle h fd ev s = (Panicked OtherValue, s)"


end
