(* ===== verification/Stop_Delivery.thy ===== *)
theory Stop_Delivery
  imports Event_Loop_Props
begin

text \<open>
  LIMNet.Stop on the listener's loop, in the concurrent model of the event loop: Stop
  triggers one job, the only one this loop ever gets, and then closes the poller, which
  waits for the loop to end; at the end Stop waits for the job.
\<close>

definition stop_order :: "'j js_label list \<Rightarrow> bool" where
  "stop_order ls \<longleftrightarrow>
     length (pushes ls) \<le> 1 \<and> JobPanic \<notin> set ls \<and>
     (\<forall>xs ys. ls = xs @ ClearRunning # ys \<longrightarrow> pushes xs \<noteq> [])"

lemma stop_order_snoc:
  assumes "stop_order (ls @ [l])"
  shows "stop_order ls" "l \<noteq> JobPanic" "l = ClearRunning \<Longrightarrow> pushes ls \<noteq> []" "length (pushes ls @ pushes [l]) \<le> 1"
  using assms unfolding stop_order_def by auto

fun lpc_fresh :: "'j lpc \<Rightarrow> bool" where
  "lpc_fresh LWait = True"
| "lpc_fresh (LBatch p w) = (\<not> p \<and> \<not> w)"
| "lpc_fresh (LHandling p w f) = (\<not> p \<and> \<not> w \<and> \<not> f)"
| "lpc_fresh (LUnset p w f) = (\<not> p \<and> \<not> w \<and> \<not> f)"
| "lpc_fresh (LExec p w f js) = (\<not> p \<and> \<not> w \<and> \<not> f)"
| "lpc_fresh LExit = False"

fun lpc_swapped_last :: "'j lpc \<Rightarrow> bool" where
  "lpc_swapped_last (LExec p w f js) = f"
| "lpc_swapped_last LExit = True"
| "lpc_swapped_last _ = False"

text \<open>
  Before the job is pushed nothing wakes the loop; from then on a round that may be the
  last one swaps the queue after the push.
\<close>

definition stop_inv :: "'j js_state \<Rightarrow> bool" where
  "stop_inv s \<longleftrightarrow>
     js_pushed s = js_executed s @ lpc_batch (js_loop s) @ js_queue s \<and>
     (js_pushed s = [] \<longrightarrow>
        js_running s \<and> js_closer s = CIdle \<and> js_wakes s = 0 \<and> idle s \<and> lpc_fresh (js_loop s)) \<and>
     (lpc_swapped_last (js_loop s) \<longrightarrow> js_queue s = [])"

lemma stop_inv_step:
  assumes "js_step l s s'" "stop_inv s" "l \<noteq> JobPanic" "l = ClearRunning \<Longrightarrow> js_pushed s \<noteq> []"
    "length (js_pushed s @ pushes [l]) \<le> 1"
  shows "stop_inv s'"
proof -
  have s: "js_pushed s = js_executed s @ lpc_batch (js_loop s) @ js_queue s"
    "js_pushed s = [] \<Longrightarrow>
        js_running s \<and> js_closer s = CIdle \<and> js_wakes s = 0 \<and> idle s \<and> lpc_fresh (js_loop s)"
    "lpc_swapped_last (js_loop s) \<Longrightarrow> js_queue s = []"
    using assms(2) by (auto simp: stop_inv_def)
  from assms(1) show ?thesis
  proof cases
    case (push t j)
    then have "js_pushed s = []" using assms(5) by simp
    with push s show ?thesis by (cases "js_loop s") (auto simp: stop_inv_def)
  qed (use s assms(3,4) in \<open>fastforce simp: stop_inv_def after_exec_def idle_def split: if_splits\<close>)+
qed

lemma stop_inv_run:
  "js_run ls s s' \<Longrightarrow> s = js_init \<Longrightarrow> stop_order ls \<Longrightarrow> stop_inv s'"
proof (induction rule: js_run.induct)
  case (nil s)
  then show ?case by (simp add: stop_inv_def js_init_def idle_def)
next
  case (snoc ls s s' l s'')
  have "js_pushed s' = pushes ls" using js_run_pushes [OF snoc.hyps(1)] snoc.prems(1) by simp
  with snoc stop_order_snoc [OF snoc.prems(2)] show ?case by (intro stop_inv_step [OF snoc.hyps(2)]) simp_all
qed

subsection \<open>The loop ends after Close\<close>

fun lpc_woken :: "'j lpc \<Rightarrow> nat \<Rightarrow> bool" where
  "lpc_woken LWait n = (n > 0)"
| "lpc_woken (LBatch p w) n = (w \<or> n > 0)"
| "lpc_woken (LHandling p w f) n = (w \<or> n > 0)"
| "lpc_woken (LUnset p w f) n = (w \<or> n > 0)"
| "lpc_woken (LExec p w f js) n = (f \<or> w \<or> n > 0)"
| "lpc_woken LExit n = True"

fun lpc_final :: "'j lpc \<Rightarrow> bool" where
  "lpc_final (LHandling p w f) = (f \<longrightarrow> w)"
| "lpc_final (LUnset p w f) = (f \<longrightarrow> w)"
| "lpc_final _ = True"

definition close_inv :: "'j js_state \<Rightarrow> bool" where
  "close_inv s \<longleftrightarrow>
     (js_closer s \<noteq> CIdle \<longrightarrow> \<not> js_running s) \<and> lpc_final (js_loop s) \<and>
     (js_closer s = CDone \<longrightarrow> lpc_woken (js_loop s) (js_wakes s))"

lemma close_inv_step: "js_step l s s' \<Longrightarrow> close_inv s \<Longrightarrow> l \<noteq> JobPanic \<Longrightarrow> close_inv s'"
proof (induction rule: js_step.induct)
  case (close_wake s)
  then show ?case by (cases "js_loop s") (auto simp: close_inv_def)
next
  case (wake_up s t)
  then show ?case by (cases "js_loop s") (auto simp: close_inv_def)
qed (auto simp: close_inv_def after_exec_def split: if_splits)

lemma close_inv_run: "js_run ls s s' \<Longrightarrow> close_inv s \<Longrightarrow> JobPanic \<notin> set ls \<Longrightarrow> close_inv s'"
  by (induction rule: js_run.induct) (auto intro: close_inv_step)

fun exit_rank :: "'j lpc \<Rightarrow> nat" where
  "exit_rank LExit = 0"
| "exit_rank (LExec _ _ True js) = 1 + length js"
| "exit_rank (LUnset _ _ True) = 2"
| "exit_rank (LHandling _ _ True) = 3"
| "exit_rank (LBatch False True) = 4"
| "exit_rank (LBatch True _) = 5"
| "exit_rank LWait = 6"
| "exit_rank (LBatch False False) = 7"
| "exit_rank (LExec _ _ False js) = 8 + length js"
| "exit_rank (LUnset _ _ False) = 9"
| "exit_rank (LHandling _ _ False) = 10"

definition to_exit :: "'j js_state \<Rightarrow> nat" where
  "to_exit s = exit_rank (js_loop s) + length (js_queue s)"

lemma exit_rank_batch [simp]: "exit_rank (LBatch p w) < 8"
  by (cases p; cases w) simp_all

lemma quiet_exit_step:
  assumes "js_step l s s'" "l \<in> quiet" "close_inv s" "js_closer s = CDone"
  shows "to_exit s' < to_exit s \<and> js_closer s' = CDone \<and> close_inv s'"
proof -
  have "close_inv s'" using close_inv_step [OF assms(1,3)] assms(2) by (auto simp: quiet_def)
  moreover have "js_closer s' = CDone" using assms by (auto simp: quiet_def elim!: js_step_cases)
  moreover have "to_exit s' < to_exit s"
    using assms
  proof (cases rule: js_step.cases)
    case (exec_end p w f)
    then show ?thesis
      using assms(3,4)
      by (cases f) (auto simp: to_exit_def after_exec_def close_inv_def)
  next
    case (swap p w f)
    then show ?thesis by (cases f) (auto simp: to_exit_def)
  next
    case (handle_end p w f)
    then show ?thesis by (cases f) (auto simp: to_exit_def)
  next
    case (run_job p w f j js)
    then show ?thesis by (cases f) (auto simp: to_exit_def)
  qed (auto simp: to_exit_def quiet_def close_inv_def)
  ultimately show ?thesis by blast
qed

lemma quiet_exit_enabled: "js_loop s \<noteq> LExit \<Longrightarrow> \<exists>l s'. l \<in> quiet \<and> js_step l s s'"
proof (cases "js_loop s")
  case (LBatch p w)
  then show ?thesis
    by (cases p; cases w) (auto simp: quiet_def intro: drain wake_start end_batch)
next
  case (LExec p w f js)
  then show ?thesis by (cases js) (auto simp: quiet_def intro: run_job exec_end)
qed (auto simp: quiet_def intro: wait_returns handle_end swap)

lemma quiet_exit_run:
  assumes "js_run ks s s'" "set ks \<subseteq> quiet" "close_inv s" "js_closer s = CDone"
  shows "length ks + to_exit s' \<le> to_exit s \<and> js_closer s' = CDone \<and> close_inv s'"
  using assms
proof (induction rule: js_run.induct)
  case (snoc ls s s' l s'')
  then show ?case using quiet_exit_step [OF snoc.hyps(2)] by fastforce
qed simp

lemma to_exit_bound: "to_exit s \<le> 10 + length (lpc_batch (js_loop s)) + length (js_queue s)"
proof -
  have "exit_rank l \<le> 10 + length (lpc_batch l)" for l :: "'j lpc"
    by (cases l rule: exit_rank.cases) simp_all
  from this [of "js_loop s"] show ?thesis by (simp add: to_exit_def)
qed


text \<open>The listener's handler panicked before: Trigger does not wake the loop, Close does.\<close>

definition stop_schedule :: "nat js_label list" where
  "stop_schedule =
     [WaitReturns, EventStart, HandlePanic, EndBatch, PushJob 0 7, Test 0, ClearRunning, CloseWake, WaitReturns]"


end
