(* ===== verification/Spin_Queue.thy ===== *)
theory Spin_Queue
  imports Event_Loop
begin

text \<open>
  The job queue of pkg/eventloop/queue.go under the spin lock of pkg/limutil/spinlock.go,
  at the level of single memory accesses: any number of goroutines call Push and the
  locked part of ExecuteJobs. An iteration of Lock's loop is one compare-and-swap, Unlock
  is one store; between them \<open>jobs\<close> is loaded and stored in separate steps. A goroutine
  that does not hold the lock touches nothing but the lock.

  \<open>sq_hist\<close> is a history: the calls in the order in which they got their results.
\<close>

definition CompareAndSwap :: "64 word \<Rightarrow> 64 word \<Rightarrow> 64 word \<Rightarrow> bool \<times> 64 word" where
  "CompareAndSwap addr old new = (if addr = old then (True, new) else (False, addr))"

text \<open>One iteration of the loop of Lock: whether the lock was taken.\<close>

definition SpinLock_Lock_try :: "64 word \<Rightarrow> bool \<times> 64 word" where
  "SpinLock_Lock_try lock = CompareAndSwap lock 0 1"

definition SpinLock_Unlock :: "64 word \<Rightarrow> 64 word" where
  "SpinLock_Unlock lock = 0"

datatype 'j queue_call = CallPush 'j | CallTake

datatype 'j queue_result = Pushed nat | Taken "'j list"

datatype 'j sq_pc =
    SqIdle
  | SqLocking "'j queue_call"
  | SqHolding "'j queue_call"
  | SqLoaded "'j queue_call" "'j list"
  | SqStored "'j queue_call" "'j list"
  | SqUnlocking

record 'j spin_queue =
  sq_lock :: "64 word"
  sq_jobs :: "'j list"
  sq_pc :: "nat \<Rightarrow> 'j sq_pc"
  sq_hist :: "(nat \<times> 'j queue_call \<times> 'j queue_result) list"

definition NewAsyncJobQueue :: "'j spin_queue" where
  "NewAsyncJobQueue = \<lparr>sq_lock = 0, sq_jobs = [], sq_pc = (\<lambda>_. SqIdle), sq_hist = []\<rparr>"

definition sq_at :: "nat \<Rightarrow> 'j sq_pc \<Rightarrow> 'j spin_queue \<Rightarrow> 'j spin_queue" where
  "sq_at t p s = s\<lparr>sq_pc := (sq_pc s)(t := p)\<rparr>"

text \<open>
  What the goroutine stores, and the result: Push reads the length after its store, the
  other call keeps what it loaded.
\<close>

fun stored_jobs :: "'j queue_call \<Rightarrow> 'j list \<Rightarrow> 'j list" where
  "stored_jobs (CallPush job) jobs = jobs @ [job]"
| "stored_jobs CallTake jobs = []"

fun call_result :: "'j queue_call \<Rightarrow> 'j list \<Rightarrow> 'j list \<Rightarrow> 'j queue_result" where
  "call_result (CallPush job) loaded now = Pushed (length now)"
| "call_result CallTake loaded now = Taken loaded"

text \<open>The next step of goroutine \<open>t\<close>; an idle one starts the call \<open>c\<close>.\<close>

definition sq_step :: "nat \<Rightarrow> 'j queue_call \<Rightarrow> 'j spin_queue \<Rightarrow> 'j spin_queue" where
  "sq_step t c s =
     (case sq_pc s t of
        SqIdle \<Rightarrow> sq_at t (SqLocking c) s
      | SqLocking d \<Rightarrow>
          (case SpinLock_Lock_try (sq_lock s) of
             (True, l) \<Rightarrow> sq_at t (SqHolding d) (s\<lparr>sq_lock := l\<rparr>)
           | (False, l) \<Rightarrow> s\<lparr>sq_lock := l\<rparr>)
      | SqHolding d \<Rightarrow> sq_at t (SqLoaded d (sq_jobs s)) s
      | SqLoaded d jobs \<Rightarrow> sq_at t (SqStored d jobs) (s\<lparr>sq_jobs := stored_jobs d jobs\<rparr>)
      | SqStored d jobs \<Rightarrow>
          sq_at t SqUnlocking (s\<lparr>sq_hist := sq_hist s @ [(t, d, call_result d jobs (sq_jobs s))]\<rparr>)
      | SqUnlocking \<Rightarrow> sq_at t SqIdle (s\<lparr>sq_lock := SpinLock_Unlock (sq_lock s)\<rparr>))"

subsection \<open>The atomic queue\<close>

text \<open>The calls as single steps: Push of the event loop's model, and taking all jobs.\<close>

definition queue_of :: "'j list \<Rightarrow> (unit, 'j) event_loop" where
  "queue_of jobs = \<lparr>el_jobs = jobs, el_handlers = (\<lambda>_. None), el_eventHandling = False, el_wakes = 0\<rparr>"

fun atomic_call :: "'j queue_call \<Rightarrow> 'j list \<Rightarrow> 'j queue_result \<times> 'j list" where
  "atomic_call (CallPush job) jobs = (let (n, s) = Push job (queue_of jobs) in (Pushed n, el_jobs s))"
| "atomic_call CallTake jobs = (Taken jobs, [])"

text \<open>The queue after a sequence of calls, if each got the result of its turn.\<close>

fun replay :: "'j list \<Rightarrow> (nat \<times> 'j queue_call \<times> 'j queue_result) list \<Rightarrow> 'j list option" where
  "replay jobs [] = Some jobs"
| "replay jobs ((t, c, r) # h) =
     (let (r', jobs') = atomic_call c jobs in if r = r' then replay jobs' h else None)"

lemma replay_append:
  "replay jobs (h @ h') = (case replay jobs h of None \<Rightarrow> None | Some jobs' \<Rightarrow> replay jobs' h')"
  by (induction jobs h rule: replay.induct) (auto split: prod.split)

lemma atomic_call_eq: "atomic_call c jobs = (call_result c jobs (stored_jobs c jobs), stored_jobs c jobs)"
  by (cases c) (simp_all add: Push_def queue_of_def Let_def)

fun holding :: "'j sq_pc \<Rightarrow> bool" where
  "holding SqIdle = False"
| "holding (SqLocking _) = False"
| "holding _ = True"

text \<open>What the one that holds the lock knows of the queue; \<open>q\<close> is the atomic queue.\<close>

fun holder_ok :: "'j list \<Rightarrow> 'j list \<Rightarrow> 'j sq_pc \<Rightarrow> bool" where
  "holder_ok q jobs (SqLoaded d loaded) \<longleftrightarrow> q = jobs \<and> loaded = jobs"
| "holder_ok q jobs (SqStored d loaded) \<longleftrightarrow> q = loaded \<and> jobs = stored_jobs d loaded"
| "holder_ok q jobs _ \<longleftrightarrow> q = jobs"

definition sq_inv :: "'j spin_queue \<Rightarrow> bool" where
  "sq_inv s \<longleftrightarrow>
     (\<exists>q. replay [] (sq_hist s) = Some q \<and>
        ((sq_lock s = 0 \<and> q = sq_jobs s \<and> (\<forall>t. \<not> holding (sq_pc s t))) \<or>
         (sq_lock s = 1 \<and> (\<exists>t. holding (sq_pc s t) \<and> holder_ok q (sq_jobs s) (sq_pc s t) \<and>
            (\<forall>u. u \<noteq> t \<longrightarrow> \<not> holding (sq_pc s u))))))"

lemma sq_inv_init: "sq_inv NewAsyncJobQueue"
  by (simp add: sq_inv_def NewAsyncJobQueue_def)

lemma sq_inv_step:
  assumes "sq_inv s"
  shows "sq_inv (sq_step t c s)"
proof -
  obtain q where q: "replay [] (sq_hist s) = Some q"
    and cases: "(sq_lock s = 0 \<and> q = sq_jobs s \<and> (\<forall>t. \<not> holding (sq_pc s t))) \<or>
      (sq_lock s = 1 \<and> (\<exists>t. holding (sq_pc s t) \<and> holder_ok q (sq_jobs s) (sq_pc s t) \<and>
            (\<forall>u. u \<noteq> t \<longrightarrow> \<not> holding (sq_pc s u))))"
    using assms by (auto simp: sq_inv_def)
  note step_defs = sq_step_def sq_at_def SpinLock_Lock_try_def CompareAndSwap_def SpinLock_Unlock_def
  from cases show ?thesis
  proof
    assume free: "sq_lock s = 0 \<and> q = sq_jobs s \<and> (\<forall>t. \<not> holding (sq_pc s t))"
    show ?thesis
    proof (cases "sq_pc s t")
      case (SqLocking d)
      with free q show ?thesis
        by (auto simp: sq_inv_def step_defs intro!: exI [of _ t])
    qed (use free q in \<open>auto simp: sq_inv_def step_defs dest: spec [of _ t]\<close>)
  next
    assume "sq_lock s = 1 \<and> (\<exists>t. holding (sq_pc s t) \<and> holder_ok q (sq_jobs s) (sq_pc s t) \<and>
            (\<forall>u. u \<noteq> t \<longrightarrow> \<not> holding (sq_pc s u)))"
    then obtain h where h: "sq_lock s = 1" "holding (sq_pc s h)" "holder_ok q (sq_jobs s) (sq_pc s h)"
      "\<And>u. u \<noteq> h \<Longrightarrow> \<not> holding (sq_pc s u)" by blast
    show ?thesis
    proof (cases "t = h")
      case True
      show ?thesis
        using h q unfolding True
        by (cases "sq_pc s h")
           (auto simp: sq_inv_def step_defs replay_append atomic_call_eq intro!: exI [of _ h])
    next
      case False
      with h(4) [of t] have "\<not> holding (sq_pc s t)" by simp
      then show ?thesis
        using h q False
        by (cases "sq_pc s t") (auto simp: sq_inv_def step_defs intro!: exI [of _ h])
    qed
  qed
qed

lemma sq_inv_run: "sq_inv s \<Longrightarrow> sq_inv (fold (\<lambda>(t, c). sq_step t c) sched s)"
  by (induction sched arbitrary: s) (auto simp: sq_inv_step)

text \<open>The holder of the lock gives it back within four steps of its own.\<close>

lemma holder_unlocks:
  assumes "sq_inv s"
  shows "\<exists>u. \<exists>k\<le>4::nat. sq_lock ((sq_step u c ^^ k) s) = 0"
proof (cases "\<exists>u. holding (sq_pc s u)")
  case True
  then obtain u where u: "holding (sq_pc s u)" by blast
  have four: "4 = Suc (Suc (Suc (Suc 0)))" and three: "3 = Suc (Suc (Suc 0))" by simp_all
  let ?k = "(case sq_pc s u of SqHolding _ \<Rightarrow> 4 | SqLoaded _ _ \<Rightarrow> 3 | SqStored _ _ \<Rightarrow> 2 | _ \<Rightarrow> 1) :: nat"
  have "sq_lock ((sq_step u c ^^ ?k) s) = 0 \<and> ?k \<le> 4"
    using u by (cases "sq_pc s u") (simp_all add: sq_step_def sq_at_def SpinLock_Unlock_def four three numeral_2_eq_2)
  then show ?thesis by blast
next
  case False
  then have "sq_lock ((sq_step 0 c ^^ 0) s) = 0" using assms by (auto simp: sq_inv_def)
  then show ?thesis by blast
qed

text \<open>
  C10. The spin lock makes the job queue atomic: in every interleaving of the memory
  accesses of any number of goroutines at most one holds the lock, every finished call
  got the result of Push, or of taking all jobs, on a queue on which the calls are
  executed one after the other in the order of the history, and while the lock is free
  \<open>jobs\<close> is that queue; and the lock is never held for ever.
\<close>
theorem queue_calls_are_atomic:
  assumes "s = fold (\<lambda>(t, c). sq_step t c) sched NewAsyncJobQueue"
  shows "(\<forall>t u. holding (sq_pc s t) \<and> holding (sq_pc s u) \<longrightarrow> t = u) \<and>
    (\<exists>q. replay [] (sq_hist s) = Some q \<and> (sq_lock s = 0 \<longrightarrow> sq_jobs s = q)) \<and>
    (\<exists>u. \<exists>k\<le>4::nat. sq_lock ((sq_step u c ^^ k) s) = 0)"
proof -
  have inv: "sq_inv s" unfolding assms by (rule sq_inv_run [OF sq_inv_init])
  then have "\<forall>t u. holding (sq_pc s t) \<and> holding (sq_pc s u) \<longrightarrow> t = u"
    unfolding sq_inv_def by metis
  moreover have "\<exists>q. replay [] (sq_hist s) = Some q \<and> (sq_lock s = 0 \<longrightarrow> sq_jobs s = q)"
    using inv by (auto simp: sq_inv_def)
  ultimately show ?thesis using holder_unlocks [OF inv] by blast
qed

theorem queue_calls_are_atomic_witness:
  "let s = fold (\<lambda>(t, c). sq_step t c)
      [(0, CallPush 5), (1, CallPush 6), (0, CallTake), (1, CallTake), (0, CallTake), (0, CallTake), (1, CallTake),
       (0, CallTake), (0, CallTake), (1, CallTake)] (NewAsyncJobQueue :: nat spin_queue)
   in \<exists>q. replay [] (sq_hist s) = Some q \<and> (sq_lock s = 0 \<longrightarrow> sq_jobs s = q)"
  unfolding Let_def using queue_calls_are_atomic [OF refl] by blast

end
