(* ===== verification/Poller_Life.thy ===== *)
theory Poller_Life
  imports Poller_Contract
begin

text \<open>
  Creating and closing a poller (Create, Close and Wake of pkg/limpoller/epoll.go and
  kqueue.go). What is followed is the set of open descriptors of the process; the results
  of the system calls are arguments, among them the number of a new descriptor. Close
  waits for the loop to end: \<open>loop_ends\<close> tells whether it does.
\<close>

record epoll_poller =
  epp_fd :: int
  epp_eventFd :: int
  epp_running :: bool

record kqueue_poller =
  kqp_fd :: int
  kqp_running :: bool

definition epoll_Create ::
  "nat + int \<Rightarrow> nat + int \<Rightarrow> nat option \<Rightarrow> int set \<Rightarrow> (nat + epoll_poller) \<times> int set" where
  "epoll_Create EpollCreate1 EVENTFD2 EpollCtl fds =
     (case EpollCreate1 of
        Inl err \<Rightarrow> (Inl err, fds)
      | Inr fd \<Rightarrow>
          (let fds1 = insert fd fds
           in case EVENTFD2 of
                Inl errno \<Rightarrow> (Inl errno, fds1 - {fd})
              | Inr eventFd \<Rightarrow>
                  (let fds2 = insert eventFd fds1
                   in case EpollCtl of
                        Some err \<Rightarrow> (Inl err, fds2 - {fd} - {eventFd})
                      | None \<Rightarrow>
                          (Inr \<lparr>epp_fd = fd, epp_eventFd = eventFd, epp_running = False\<rparr>, fds2))))"

definition kqueue_Create ::
  "nat + int \<Rightarrow> nat option \<Rightarrow> int set \<Rightarrow> (nat + kqueue_poller) \<times> int set" where
  "kqueue_Create Kqueue Kevent fds =
     (case Kqueue of
        Inl err \<Rightarrow> (Inl err, fds)
      | Inr fd \<Rightarrow>
          (let fds1 = insert fd fds
           in case Kevent of
                Some err \<Rightarrow> (Inl err, fds1)
              | None \<Rightarrow> (Inr \<lparr>kqp_fd = fd, kqp_running = False\<rparr>, fds1)))"

text \<open>Poll sets \<open>running\<close> before its loop.\<close>

definition epoll_Poll_start :: "epoll_poller \<Rightarrow> epoll_poller" where
  "epoll_Poll_start p = p\<lparr>epp_running := True\<rparr>"

definition kqueue_Poll_start :: "kqueue_poller \<Rightarrow> kqueue_poller" where
  "kqueue_Poll_start p = p\<lparr>kqp_running := True\<rparr>"

datatype close_result = CloseReturns "poll_error option" | CloseWaits

definition epoll_Close ::
  "nat option \<Rightarrow> bool \<Rightarrow> epoll_poller \<Rightarrow> int set \<Rightarrow> close_result \<times> epoll_poller \<times> int set" where
  "epoll_Close wake loop_ends p fds =
     (if \<not> epp_running p then (CloseReturns (Some ErrClosed), p, fds)
      else (let p1 = p\<lparr>epp_running := False\<rparr>
            in case wake of
                 Some err \<Rightarrow> (CloseReturns (Some (Errno err)), p1, fds)
               | None \<Rightarrow>
                   (if \<not> loop_ends then (CloseWaits, p1, fds)
                    else (CloseReturns None, p1, fds - {epp_fd p} - {epp_eventFd p}))))"

definition kqueue_Close ::
  "nat option \<Rightarrow> bool \<Rightarrow> kqueue_poller \<Rightarrow> int set \<Rightarrow> close_result \<times> kqueue_poller \<times> int set" where
  "kqueue_Close wake loop_ends p fds =
     (if \<not> kqp_running p then (CloseReturns (Some ErrClosed), p, fds)
      else (let p1 = p\<lparr>kqp_running := False\<rparr>
            in case wake of
                 Some err \<Rightarrow> (CloseReturns (Some (Errno err)), p1, fds)
               | None \<Rightarrow>
                   (if \<not> loop_ends then (CloseWaits, p1, fds)
                    else (CloseReturns None, p1, fds - {kqp_fd p}))))"



end
