(* ===== verification/Conn_Input.thy ===== *)
theory Conn_Input
  imports Ring_Buffer_Correct
begin

text \<open>
  The input side of a connection (the fields \<open>connected\<close>, \<open>buffer\<close>, \<open>inboundBuffer\<close> and
  \<open>byteBuffer\<close> of TCPConn in conn.go and of WSConn in conn_ws.go, and the methods that
  an \<open>UnPacket\<close> function calls on them). The received bytes that no packet has consumed
  are the inbound ring buffer followed by the chunk just read, \<open>buffer\<close>.

  A nil pointer is \<open>None\<close>; a nil slice is the empty one. A method returns an option:
  \<open>None\<close> is the run-time panic of a nil dereference, which the methods reach only on a
  released connection, before they have changed anything.

  \<open>packet_source\<close> is the contract of the interface Conn towards a protocol: what Read and
  ReadN return and ShiftN and ResetBuffer consume, in terms of the unconsumed bytes.
\<close>

record 'b conn_input =
  ci_connected :: bool
  ci_buffer :: bytes
  ci_inbound :: "ring_buffer option"
  ci_byteBuffer :: "'b option"

definition conn_Read ::
  "'b bb_api \<Rightarrow> ('b, 'm) conn_input_scheme \<Rightarrow> (bytes \<times> ('b, 'm) conn_input_scheme) option" where
  "conn_Read A c =
     (if \<not> ci_connected c then Some ([], c)
      else do {
        rb \<leftarrow> ci_inbound c;
        if rb_IsEmpty rb then Some (ci_buffer c, c)
        else do {
          bb \<leftarrow> rb_WithByteBuffer A rb (ci_buffer c);
          Some (bb_Bytes A bb, c\<lparr>ci_byteBuffer := Some bb\<rparr>)
        }
      })"

definition conn_ResetBuffer ::
  "('b, 'm) conn_input_scheme \<Rightarrow> ('b, 'm) conn_input_scheme option" where
  "conn_ResetBuffer c =
     do {
       rb \<leftarrow> ci_inbound c;
       Some (c\<lparr>ci_buffer := [], ci_inbound := Some (rb_Reset rb), ci_byteBuffer := None\<rparr>)
     }"

definition conn_ReadN ::
  "'b bb_api \<Rightarrow> int \<Rightarrow> ('b, 'm) conn_input_scheme \<Rightarrow>
   (int \<times> bytes \<times> ('b, 'm) conn_input_scheme) option" where
  "conn_ReadN A n0 c =
     do {
       rb \<leftarrow> ci_inbound c;
       let inBufferLen = rb_Length rb;
       let tempBufferLen = int (length (ci_buffer c));
       let totalLen = inBufferLen + tempBufferLen;
       let n = (if totalLen < n0 \<or> n0 \<le> 0 then totalLen else n0);
       if rb_IsEmpty rb then do {
         buf \<leftarrow> slice (ci_buffer c) 0 n;
         Some (n, buf, c)
       }
       else do {
         (head, tail) \<leftarrow> rb_LazyRead rb n;
         let bb = bb_Write A (bb_Write A (bb_Get A) head) tail;
         if inBufferLen \<ge> n then Some (n, bb_Bytes A bb, c\<lparr>ci_byteBuffer := Some bb\<rparr>)
         else do {
           let restSize = n - inBufferLen;
           rest \<leftarrow> slice (ci_buffer c) 0 restSize;
           let bb' = bb_Write A bb rest;
           Some (n, bb_Bytes A bb', c\<lparr>ci_byteBuffer := Some bb'\<rparr>)
         }
       }
     }"

definition conn_ShiftN ::
  "int \<Rightarrow> ('b, 'm) conn_input_scheme \<Rightarrow> (int \<times> ('b, 'm) conn_input_scheme) option" where
  "conn_ShiftN n c =
     do {
       rb \<leftarrow> ci_inbound c;
       let inBufferLen = rb_Length rb;
       let tempBufferLen = int (length (ci_buffer c));
       if inBufferLen + tempBufferLen < n \<or> n \<le> 0 then do {
         c' \<leftarrow> conn_ResetBuffer c;
         Some (inBufferLen + tempBufferLen, c')
       }
       else if rb_IsEmpty rb then do {
         b \<leftarrow> slice (ci_buffer c) n tempBufferLen;
         Some (n, c\<lparr>ci_buffer := b\<rparr>)
       }
       else if inBufferLen \<ge> n then
         Some (n, c\<lparr>ci_byteBuffer := None, ci_inbound := Some (rb_Shift rb n)\<rparr>)
       else do {
         let restSize = n - inBufferLen;
         b \<leftarrow> slice (ci_buffer c) restSize tempBufferLen;
         Some (n, c\<lparr>ci_byteBuffer := None, ci_inbound := Some (rb_Reset rb), ci_buffer := b\<rparr>)
       }
     }"

definition conn_BufferLength :: "('b, 'm) conn_input_scheme \<Rightarrow> int option" where
  "conn_BufferLength c =
     do {
       rb \<leftarrow> ci_inbound c;
       Some (rb_Length rb + int (length (ci_buffer c)))
     }"

text \<open>
  Appending to the inbound buffer: Write with nothing to write returns before it
  touches the receiver, so it does not panic on nil.
\<close>

definition conn_keep :: "bytes \<Rightarrow> ('b, 'm) conn_input_scheme \<Rightarrow> ('b, 'm) conn_input_scheme option" where
  "conn_keep p c =
     (if p = [] then Some c
      else do {
        rb \<leftarrow> ci_inbound c;
        (_, rb') \<leftarrow> rb_Write rb p;
        Some (c\<lparr>ci_inbound := Some rb'\<rparr>)
      })"

subsection \<open>The contract\<close>

definition read_size :: "int \<Rightarrow> 'a list \<Rightarrow> nat" where
  "read_size n xs = (if int (length xs) < n \<or> n \<le> 0 then length xs else nat n)"

lemma read_size_le: "read_size n xs \<le> length xs"
  by (auto simp: read_size_def)

lemma read_size_nat [simp]: "0 < k \<Longrightarrow> k \<le> length xs \<Longrightarrow> read_size (int k) xs = k"
  by (simp add: read_size_def)

locale packet_source =
  fixes inv :: "'c \<Rightarrow> bool"
    and avail :: "'c \<Rightarrow> 'a list"
    and frame :: "'c \<Rightarrow> 'f"
    and Read :: "'c \<Rightarrow> ('a list \<times> 'c) option"
    and ReadN :: "int \<Rightarrow> 'c \<Rightarrow> (int \<times> 'a list \<times> 'c) option"
    and ShiftN :: "int \<Rightarrow> 'c \<Rightarrow> (int \<times> 'c) option"
    and ResetBuffer :: "'c \<Rightarrow> 'c option"
  assumes Read_law: "inv c \<Longrightarrow>
      \<exists>c'. Read c = Some (avail c, c') \<and> inv c' \<and> avail c' = avail c \<and> frame c' = frame c"
    and ReadN_law: "inv c \<Longrightarrow>
      \<exists>c'. ReadN n c = Some (int (read_size n (avail c)), take (read_size n (avail c)) (avail c), c') \<and>
        inv c' \<and> avail c' = avail c \<and> frame c' = frame c"
    and ShiftN_law: "inv c \<Longrightarrow>
      \<exists>c'. ShiftN n c = Some (int (read_size n (avail c)), c') \<and>
        inv c' \<and> avail c' = drop (read_size n (avail c)) (avail c) \<and> frame c' = frame c"
    and ResetBuffer_law: "inv c \<Longrightarrow>
      \<exists>c'. ResetBuffer c = Some c' \<and> inv c' \<and> avail c' = [] \<and> frame c' = frame c"
begin

text \<open>ReadN followed by ShiftN of the size it returned takes a packet off the front.\<close>

lemma take_packet:
  assumes "inv c" "ReadN n c = Some (m, p, c1)" "ShiftN m c1 = Some (k, c2)" "avail c \<noteq> []"
  shows "inv c2 \<and> p @ avail c2 = avail c \<and> k = m \<and> m = int (length p) \<and> p \<noteq> []"
proof -
  let ?k = "read_size n (avail c)"
  have r: "m = int ?k" "p = take ?k (avail c)" "inv c1" "avail c1 = avail c"
    using ReadN_law [OF assms(1), of n] assms(2) by auto
  have k: "0 < ?k" "?k \<le> length (avail c)"
    using assms(4) by (auto simp: read_size_def)
  then have "read_size (int ?k) (avail c1) = ?k" using r by simp
  with ShiftN_law [OF r(3), of "int ?k"] assms(3) r k show ?thesis by auto
qed

text \<open>ReadN alone consumes nothing: a second one sees the same bytes.\<close>

lemma ReadN_again:
  assumes "inv c" "ReadN n c = Some (m, p, c1)"
  shows "\<exists>c2. ReadN n c1 = Some (m, p, c2)"
  using ReadN_law [OF assms(1), of n] ReadN_law [of c1 n] assms(2) by auto

text \<open>Read then ResetBuffer hands over everything, as the default UnPacket does.\<close>

lemma take_all:
  assumes "inv c" "Read c = Some (p, c1)"
  shows "p = avail c \<and> (\<exists>c2. ResetBuffer c1 = Some c2 \<and> inv c2 \<and> avail c2 = [] \<and> frame c2 = frame c)"
  using Read_law [OF assms(1)] ResetBuffer_law [of c1] assms(2) by auto

end

subsection \<open>The connection keeps it\<close>

definition conn_inv :: "('b, 'm) conn_input_scheme \<Rightarrow> bool" where
  "conn_inv c \<longleftrightarrow> ci_connected c \<and> (\<exists>rb. ci_inbound c = Some rb \<and> rb_inv rb)"

definition conn_avail :: "('b, 'm) conn_input_scheme \<Rightarrow> bytes" where
  "conn_avail c = (case ci_inbound c of None \<Rightarrow> [] | Some rb \<Rightarrow> rb_contents rb) @ ci_buffer c"

text \<open>What the methods leave alone: the fields of the extending record.\<close>

definition conn_rest :: "('b, 'm) conn_input_scheme \<Rightarrow> 'm" where
  "conn_rest c = conn_input.more c"

lemma conn_inv_cases:
  assumes "conn_inv c"
  obtains rb where "ci_inbound c = Some rb" "rb_inv rb" "ci_connected c"
    "conn_avail c = rb_contents rb @ ci_buffer c" "rb_Length rb = int (length (rb_contents rb))"
    "rb_IsEmpty rb \<longleftrightarrow> rb_contents rb = []"
  using assms rb_Length_eq rb_isEmpty_iff
  by (auto simp: conn_inv_def conn_avail_def rb_IsEmpty_def)

lemma conn_Read_correct:
  assumes "bb_laws A" "conn_inv c"
  shows "\<exists>c'. conn_Read A c = Some (conn_avail c, c') \<and> conn_inv c' \<and>
    conn_avail c' = conn_avail c \<and> conn_rest c' = conn_rest c"
proof -
  obtain rb where rb: "ci_inbound c = Some rb" "rb_inv rb" "ci_connected c"
    "conn_avail c = rb_contents rb @ ci_buffer c" "rb_IsEmpty rb \<longleftrightarrow> rb_contents rb = []"
    using assms(2) by (rule conn_inv_cases)
  obtain bb where "rb_WithByteBuffer A rb (ci_buffer c) = Some bb"
    "bb_Bytes A bb = rb_contents rb @ ci_buffer c"
    using rb_WithByteBuffer_correct [OF rb(2) assms(1)] by blast
  with rb show ?thesis
    by (auto simp: conn_Read_def conn_inv_def conn_avail_def conn_rest_def)
qed

lemma conn_ResetBuffer_correct:
  assumes "conn_inv c"
  shows "\<exists>c'. conn_ResetBuffer c = Some c' \<and> conn_inv c' \<and> conn_avail c' = [] \<and>
    conn_rest c' = conn_rest c"
proof -
  obtain rb where "ci_inbound c = Some rb" "rb_inv rb" "ci_connected c"
    using assms by (rule conn_inv_cases)
  then show ?thesis
    by (auto simp: conn_ResetBuffer_def conn_inv_def conn_avail_def conn_rest_def)
qed

lemma slice_take: "k \<le> length xs \<Longrightarrow> slice xs 0 (int k) = Some (take k xs)"
  by (simp add: slice_def)

lemma slice_drop_all: "k \<le> length xs \<Longrightarrow> slice xs (int k) (int (length xs)) = Some (drop k xs)"
  by (simp add: slice_def)

lemma conn_ReadN_correct:
  assumes A: "bb_laws A" and inv: "conn_inv c"
  shows "\<exists>c'. conn_ReadN A n c =
      Some (int (read_size n (conn_avail c)), take (read_size n (conn_avail c)) (conn_avail c), c') \<and>
    conn_inv c' \<and> conn_avail c' = conn_avail c \<and> conn_rest c' = conn_rest c"
proof -
  obtain rb where rb: "ci_inbound c = Some rb" "rb_inv rb" "ci_connected c"
    "conn_avail c = rb_contents rb @ ci_buffer c" "rb_Length rb = int (length (rb_contents rb))"
    "rb_IsEmpty rb \<longleftrightarrow> rb_contents rb = []"
    using inv by (rule conn_inv_cases)
  let ?k = "read_size n (conn_avail c)" and ?l = "length (rb_contents rb)"
  have k: "(if rb_Length rb + int (length (ci_buffer c)) < n \<or> n \<le> 0
      then rb_Length rb + int (length (ci_buffer c)) else n) = int ?k"
    using rb by (auto simp: read_size_def)
  obtain h t where ht: "rb_LazyRead rb (int ?k) = Some (h, t)" "h @ t = take ?k (rb_contents rb)"
    using rb_LazyRead_eq [OF rb(2), of "int ?k"] by (metis nat_int)
  show ?thesis
  proof (cases "rb_contents rb = []")
    case True
    with rb read_size_le [of n "conn_avail c"]
    have "slice (ci_buffer c) 0 (int ?k) = Some (take ?k (conn_avail c))"
      by (simp add: slice_take)
    with True rb k inv show ?thesis
      by (auto simp: conn_ReadN_def Let_def simp del: slice_def)
  next
    case ne: False
    show ?thesis
    proof (cases "?k \<le> ?l")
      case True
      with rb ne k ht A show ?thesis
        by (auto simp: conn_ReadN_def Let_def bb_laws_def conn_inv_def conn_avail_def conn_rest_def)
    next
      case False
      have "slice (ci_buffer c) 0 (int ?k - int ?l) = Some (take (?k - ?l) (ci_buffer c))"
        using False rb(4) read_size_le [of n "conn_avail c"] slice_take [of "?k - ?l" "ci_buffer c"]
        by (simp add: of_nat_diff)
      with False rb ne k ht A show ?thesis
        by (auto simp: conn_ReadN_def Let_def bb_laws_def conn_inv_def conn_avail_def conn_rest_def)
    qed
  qed
qed

lemma conn_ShiftN_correct:
  assumes inv: "conn_inv c"
  shows "\<exists>c'. conn_ShiftN n c = Some (int (read_size n (conn_avail c)), c') \<and> conn_inv c' \<and>
    conn_avail c' = drop (read_size n (conn_avail c)) (conn_avail c) \<and> conn_rest c' = conn_rest c"
proof -
  obtain rb where rb: "ci_inbound c = Some rb" "rb_inv rb" "ci_connected c"
    "conn_avail c = rb_contents rb @ ci_buffer c" "rb_Length rb = int (length (rb_contents rb))"
    "rb_IsEmpty rb \<longleftrightarrow> rb_contents rb = []"
    using inv by (rule conn_inv_cases)
  let ?l = "length (rb_contents rb)" and ?b = "ci_buffer c"
  consider "rb_Length rb + int (length ?b) < n \<or> n \<le> 0"
    | k where "n = int k" "0 < k" "k \<le> ?l + length ?b"
  proof (cases "rb_Length rb + int (length ?b) < n \<or> n \<le> 0")
    case False
    with rb(5) that(2) [of "nat n"] show thesis by auto
  qed (use that in blast)
  then show ?thesis
  proof cases
    case 1
    with rb have "read_size n (conn_avail c) = length (conn_avail c)" by (auto simp: read_size_def)
    with 1 rb conn_ResetBuffer_correct [OF inv] show ?thesis by (auto simp: conn_ShiftN_def Let_def)
  next
    case (2 k)
    then have k: "read_size n (conn_avail c) = k" using rb(4) by simp
    show ?thesis
    proof (cases "k \<le> ?l")
      case True
      with 2 k rb slice_drop_all [of k ?b] show ?thesis
        by (auto simp: conn_ShiftN_def Let_def conn_inv_def conn_avail_def conn_rest_def
            rb_Shift_correct simp del: slice_def)
    next
      case False
      have "slice ?b (int k - int ?l) (int (length ?b)) = Some (drop (k - ?l) ?b)"
        using slice_drop_all [of "k - ?l" ?b] 2 False by (simp add: of_nat_diff)
      with False 2 k rb show ?thesis
        by (auto simp: conn_ShiftN_def Let_def conn_inv_def conn_avail_def conn_rest_def)
    qed
  qed
qed

interpretation ci: packet_source "\<lambda>c. bb_laws A \<and> conn_inv c" conn_avail conn_rest "conn_Read A"
  "conn_ReadN A" conn_ShiftN conn_ResetBuffer for A :: "'b bb_api"
  by unfold_locales
     (simp_all add: conn_Read_correct conn_ReadN_correct conn_ShiftN_correct conn_ResetBuffer_correct)

lemma conn_keep_correct:
  assumes "conn_inv c" "int (length (conn_avail c) ) + int (length p) \<le> maxAlloc"
  shows "\<exists>c' rb rb'. conn_keep p c = Some c' \<and> conn_inv c' \<and> conn_rest c' = conn_rest c \<and>
    ci_buffer c' = ci_buffer c \<and> ci_inbound c = Some rb \<and> ci_inbound c' = Some rb' \<and>
    rb_contents rb' = rb_contents rb @ p"
proof -
  obtain rb where rb: "ci_inbound c = Some rb" "rb_inv rb" "ci_connected c"
    "conn_avail c = rb_contents rb @ ci_buffer c"
    using assms(1) by (rule conn_inv_cases)
  with rbq.write_law [of rb p] assms(2) show ?thesis
    by (auto simp: conn_keep_def conn_inv_def conn_rest_def rb_room_def)
qed

end
