(* ===== verification/Tcp_Conn.thy ===== *)
theory Tcp_Conn
  imports Conn_Input Event_Loop Epoll
begin

text \<open>
  conn.go: the TCP connection, driven by its event loop. The state is the event loop's
  record extended by the connection, the poller, what the kernel will answer to the next
  reads and writes of the descriptor, the clock, and a history of what was exchanged
  with the kernel and the user. A read answers with an error number or the bytes it
  delivers, a write with an error number or how many bytes it takes; the lists are
  arguments of everything below, so a theorem over all of them is a theorem over every
  behaviour of the socket. After the lists the socket has no input and takes everything.

  The user's callbacks (OnPacket, OnClose, UnPacket) are functions on the whole state;
  like any call they return or panic. The packet loop ends only if UnPacket at last
  returns no packet: it is a partial function, \<open>None\<close> is a loop that does not end.
\<close>

datatype 'a call = Returns 'a | Panics panic_value

datatype tcp_job = JWrite bytes | JClose

datatype tcp_log =
    Received bytes | Accepted bytes | Asked bytes | Delivered bytes
  | PollDeleted int | OnCloseCalled | FdClosed int

record ('b, 'x) tcp_conn = "'b conn_input" +
  tc_id :: int
  tc_fd :: int
  tc_addr :: string
  tc_ctx :: "'x option"
  tc_status :: int
  tc_version :: "8 word"
  tc_outbound :: "ring_buffer option"
  tc_activeTime :: int

record ('h, 'b, 'x, 'k) tcp_world = "('h, tcp_job) event_loop" +
  tw_conn :: "('b, 'x) tcp_conn"
  tw_poll :: "'k epoll_env"
  tw_reads :: "(nat + bytes) list"
  tw_writes :: "(nat + nat) list"
  tw_idle :: int
  tw_now :: int
  tw_log :: "tcp_log list"

definition EAGAIN :: nat where "EAGAIN = 11"

definition packetLen :: int where "packetLen = 0xFFFF"

text \<open>Reading fills at most the loop's packet buffer.\<close>

definition into_packet :: "bytes \<Rightarrow> bytes" where
  "into_packet p = (if int (length p) > packetLen then take (nat packetLen) p else p)"

definition tw_note :: "tcp_log \<Rightarrow> ('h, 'b, 'x, 'k, 'm) tcp_world_scheme \<Rightarrow> ('h, 'b, 'x, 'k, 'm) tcp_world_scheme" where
  "tw_note l w = w\<lparr>tw_log := tw_log w @ [l]\<rparr>"

definition set_outbound ::
  "ring_buffer \<Rightarrow> ('h, 'b, 'x, 'k, 'm) tcp_world_scheme \<Rightarrow> ('h, 'b, 'x, 'k, 'm) tcp_world_scheme" where
  "set_outbound ob w = w\<lparr>tw_conn := (tw_conn w)\<lparr>tc_outbound := Some ob\<rparr>\<rparr>"

subsection \<open>System calls on the descriptor and calls of the poller\<close>

definition sys_read ::
  "('h, 'b, 'x, 'k, 'm) tcp_world_scheme \<Rightarrow> (nat + bytes) \<times> ('h, 'b, 'x, 'k, 'm) tcp_world_scheme" where
  "sys_read w =
     (case tw_reads w of
        [] \<Rightarrow> (Inl EAGAIN, w)
      | Inl e # rs \<Rightarrow> (Inl e, w\<lparr>tw_reads := rs\<rparr>)
      | Inr p # rs \<Rightarrow>
          (let q = into_packet p in (Inr q, tw_note (Received q) (w\<lparr>tw_reads := rs\<rparr>))))"

definition sys_write ::
  "bytes \<Rightarrow> ('h, 'b, 'x, 'k, 'm) tcp_world_scheme \<Rightarrow> (nat + nat) \<times> ('h, 'b, 'x, 'k, 'm) tcp_world_scheme" where
  "sys_write p w =
     (case tw_writes w of
        [] \<Rightarrow> (Inr (length p), tw_note (Accepted p) w)
      | Inl e # ws \<Rightarrow> (Inl e, w\<lparr>tw_writes := ws\<rparr>)
      | Inr k # ws \<Rightarrow>
          (let n = min k (length p)
           in (Inr n, tw_note (Accepted (take n p)) (w\<lparr>tw_writes := ws\<rparr>))))"

definition tcp_EnableReadWrite ::
  "('h, 'b, 'x, 'k, 'm) tcp_world_scheme \<Rightarrow> ('h, 'b, 'x, 'k, 'm) tcp_world_scheme" where
  "tcp_EnableReadWrite w =
     (let (_, p) = ep_EnableReadWrite (tc_fd (tw_conn w)) (tw_poll w) in w\<lparr>tw_poll := p\<rparr>)"

definition tcp_EnableRead ::
  "('h, 'b, 'x, 'k, 'm) tcp_world_scheme \<Rightarrow> ('h, 'b, 'x, 'k, 'm) tcp_world_scheme" where
  "tcp_EnableRead w =
     (let (_, p) = ep_EnableRead (tc_fd (tw_conn w)) (tw_poll w) in w\<lparr>tw_poll := p\<rparr>)"

definition tcp_DeleteFdInLoop ::
  "int \<Rightarrow> ('h, 'b, 'x, 'k, 'm) tcp_world_scheme \<Rightarrow> ('h, 'b, 'x, 'k, 'm) tcp_world_scheme" where
  "tcp_DeleteFdInLoop fd w =
     (let (_, p) = ep_Del fd (tw_poll w)
      in DeleteFdInLoop fd (tw_note (PollDeleted fd) (w\<lparr>tw_poll := p\<rparr>)))"

definition tcp_BindHandler ::
  "int \<Rightarrow> 'h \<Rightarrow> ('h, 'b, 'x, 'k, 'm) tcp_world_scheme \<Rightarrow>
   poll_error option \<times> ('h, 'b, 'x, 'k, 'm) tcp_world_scheme" where
  "tcp_BindHandler fd h w =
     (let (e, p) = ep_AddRead fd (tw_poll w) in BindHandler fd h e (w\<lparr>tw_poll := p\<rparr>))"

subsection \<open>The connection\<close>

definition NewTCPConn ::
  "int \<Rightarrow> int \<Rightarrow> string \<Rightarrow> ring_buffer \<Rightarrow> ring_buffer \<Rightarrow> int \<Rightarrow> int \<Rightarrow> ('b, 'x) tcp_conn" where
  "NewTCPConn id' connfd addr rb1 rb2 idle now =
     \<lparr>ci_connected = True, ci_buffer = [], ci_inbound = Some rb1, ci_byteBuffer = None,
      tc_id = id', tc_fd = connfd, tc_addr = addr, tc_ctx = None, tc_status = 0, tc_version = 0,
      tc_outbound = Some rb2, tc_activeTime = (if idle > 0 then now div 1000000000 else 0)\<rparr>"

definition tcp_release ::
  "('h, 'b, 'x, 'k, 'm) tcp_world_scheme \<Rightarrow> ('h, 'b, 'x, 'k, 'm) tcp_world_scheme" where
  "tcp_release w =
     w\<lparr>tw_conn := (tw_conn w)\<lparr>ci_buffer := [], tc_ctx := None, ci_inbound := None,
        tc_outbound := None, ci_byteBuffer := None\<rparr>\<rparr>"

definition tcp_handleClose ::
  "(('h, 'b, 'x, 'k, 'm) tcp_world_scheme \<Rightarrow> unit call \<times> ('h, 'b, 'x, 'k, 'm) tcp_world_scheme) \<Rightarrow>
   int \<Rightarrow> ('h, 'b, 'x, 'k, 'm) tcp_world_scheme \<Rightarrow> unit call \<times> ('h, 'b, 'x, 'k, 'm) tcp_world_scheme" where
  "tcp_handleClose OnClose fd w =
     (if ci_connected (tw_conn w) then
        (let w1 = w\<lparr>tw_conn := (tw_conn w)\<lparr>ci_connected := False\<rparr>\<rparr>;
             w2 = tcp_DeleteFdInLoop fd w1
         in case OnClose (tw_note OnCloseCalled w2) of
              (Panics v, w3) \<Rightarrow> (Panics v, w3)
            | (Returns _, w3) \<Rightarrow>
                (Returns (), tcp_release (tw_note (FdClosed (tc_fd (tw_conn w3))) w3)))
      else (Returns (), w))"

text \<open>Appending to the outbound buffer; its error cannot occur and is logged only.\<close>

definition tcp_enqueue ::
  "bytes \<Rightarrow> ('h, 'b, 'x, 'k, 'm) tcp_world_scheme \<Rightarrow> unit call \<times> ('h, 'b, 'x, 'k, 'm) tcp_world_scheme" where
  "tcp_enqueue p w =
     (case tc_outbound (tw_conn w) of
        None \<Rightarrow> (if p = [] then Returns () else Panics ErrorValue, w)
      | Some ob \<Rightarrow>
          (case rb_Write ob p of
             None \<Rightarrow> (Panics ErrorValue, w)
           | Some (_, ob') \<Rightarrow> (Returns (), set_outbound ob' w)))"

definition tcp_write ::
  "(('h, 'b, 'x, 'k, 'm) tcp_world_scheme \<Rightarrow> unit call \<times> ('h, 'b, 'x, 'k, 'm) tcp_world_scheme) \<Rightarrow>
   bytes \<Rightarrow> ('h, 'b, 'x, 'k, 'm) tcp_world_scheme \<Rightarrow> unit call \<times> ('h, 'b, 'x, 'k, 'm) tcp_world_scheme" where
  "tcp_write OnClose buf w0 =
     (if \<not> ci_connected (tw_conn w0) then (Returns (), w0)
      else (let w = tw_note (Asked buf) w0 in
        case tc_outbound (tw_conn w) of
          None \<Rightarrow> (Panics ErrorValue, w)
        | Some ob \<Rightarrow>
            if \<not> rb_IsEmpty ob then tcp_enqueue buf w
            else (case sys_write buf w of
              (Inl e, w1) \<Rightarrow>
                if e = EAGAIN
                then (case tcp_enqueue buf w1 of
                        (Panics v, w2) \<Rightarrow> (Panics v, w2)
                      | (Returns _, w2) \<Rightarrow> (Returns (), tcp_EnableReadWrite w2))
                else tcp_handleClose OnClose (tc_fd (tw_conn w1)) w1
            | (Inr n, w1) \<Rightarrow>
                (case (if n = 0 then tcp_enqueue buf w1
                       else if n < length buf then tcp_enqueue (drop n buf) w1
                       else (Returns (), w1)) of
                   (Panics v, w2) \<Rightarrow> (Panics v, w2)
                 | (Returns _, w2) \<Rightarrow>
                     (case tc_outbound (tw_conn w2) of
                        None \<Rightarrow> (Panics ErrorValue, w2)
                      | Some ob2 \<Rightarrow>
                          (Returns (), if rb_Length ob2 > 0 then tcp_EnableReadWrite w2 else w2))))))"

text \<open>The end of handleWrite: nothing left to send, no more interest in writing.\<close>

definition tcp_written ::
  "('h, 'b, 'x, 'k, 'm) tcp_world_scheme \<Rightarrow> ('h, 'b, 'x, 'k, 'm) tcp_world_scheme" where
  "tcp_written w =
     (case tc_outbound (tw_conn w) of
        Some ob \<Rightarrow> (if rb_IsEmpty ob then tcp_EnableRead w else w)
      | None \<Rightarrow> w)"

definition tcp_handleWrite ::
  "(('h, 'b, 'x, 'k, 'm) tcp_world_scheme \<Rightarrow> unit call \<times> ('h, 'b, 'x, 'k, 'm) tcp_world_scheme) \<Rightarrow>
   ('h, 'b, 'x, 'k, 'm) tcp_world_scheme \<Rightarrow> unit call \<times> ('h, 'b, 'x, 'k, 'm) tcp_world_scheme" where
  "tcp_handleWrite OnClose w =
     (case Option.bind (tc_outbound (tw_conn w)) (\<lambda>ob. map_option (Pair ob) (rb_LazyReadAll ob)) of
        None \<Rightarrow> (Panics ErrorValue, w)
      | Some (ob, head, tail) \<Rightarrow>
          (case sys_write head w of
             (Inl e, w1) \<Rightarrow>
               (if e = EAGAIN then (Returns (), w1)
                else tcp_handleClose OnClose (tc_fd (tw_conn w1)) w1)
           | (Inr n, w1) \<Rightarrow>
               (let ob1 = rb_Shift ob (int n); w2 = set_outbound ob1 w1
                in if length head = n \<and> tail \<noteq> []
                   then (case sys_write tail w2 of
                           (Inl e, w3) \<Rightarrow>
                             (if e = EAGAIN then (Returns (), w3)
                              else tcp_handleClose OnClose (tc_fd (tw_conn w3)) w3)
                         | (Inr m, w3) \<Rightarrow>
                             (Returns (), tcp_written (set_outbound (rb_Shift ob1 (int m)) w3)))
                   else (Returns (), tcp_written w2))))"

subsection \<open>Reading and the packet loop\<close>

definition on_conn ::
  "(('b, 'x) tcp_conn \<Rightarrow> ('a \<times> ('b, 'x) tcp_conn) option) \<Rightarrow>
   ('h, 'b, 'x, 'k, 'm) tcp_world_scheme \<Rightarrow> 'a call \<times> ('h, 'b, 'x, 'k, 'm) tcp_world_scheme" where
  "on_conn f w =
     (case f (tw_conn w) of
        None \<Rightarrow> (Panics ErrorValue, w)
      | Some (x, c) \<Rightarrow> (Returns x, w\<lparr>tw_conn := c\<rparr>))"

partial_function (option) tcp_packets ::
  "(('h, 'b, 'x, 'k, 'm) tcp_world_scheme \<Rightarrow> unit call \<times> ('h, 'b, 'x, 'k, 'm) tcp_world_scheme) \<Rightarrow>
   (bytes \<Rightarrow> ('h, 'b, 'x, 'k, 'm) tcp_world_scheme \<Rightarrow> bytes call \<times> ('h, 'b, 'x, 'k, 'm) tcp_world_scheme) \<Rightarrow>
   (('h, 'b, 'x, 'k, 'm) tcp_world_scheme \<Rightarrow> bytes option call \<times> ('h, 'b, 'x, 'k, 'm) tcp_world_scheme) \<Rightarrow>
   ('h, 'b, 'x, 'k, 'm) tcp_world_scheme \<Rightarrow> (unit call \<times> ('h, 'b, 'x, 'k, 'm) tcp_world_scheme) option" where
  "tcp_packets OnClose OnPacket unPacket w =
     (case unPacket w of
        (Panics v, w1) \<Rightarrow> Some (Panics v, w1)
      | (Returns None, w1) \<Rightarrow> Some (Returns (), w1)
      | (Returns (Some packet), w1) \<Rightarrow>
          (case OnPacket packet (tw_note (Delivered packet) w1) of
             (Panics v, w2) \<Rightarrow> Some (Panics v, w2)
           | (Returns out, w2) \<Rightarrow>
               (case (if length out > 0 then tcp_write OnClose out w2 else (Returns (), w2)) of
                  (Panics v, w3) \<Rightarrow> Some (Panics v, w3)
                | (Returns _, w3) \<Rightarrow> tcp_packets OnClose OnPacket unPacket w3)))"

declare tcp_packets.simps [code]

definition tcp_handleRead ::
  "(('h, 'b, 'x, 'k, 'm) tcp_world_scheme \<Rightarrow> unit call \<times> ('h, 'b, 'x, 'k, 'm) tcp_world_scheme) \<Rightarrow>
   (bytes \<Rightarrow> ('h, 'b, 'x, 'k, 'm) tcp_world_scheme \<Rightarrow> bytes call \<times> ('h, 'b, 'x, 'k, 'm) tcp_world_scheme) \<Rightarrow>
   (('h, 'b, 'x, 'k, 'm) tcp_world_scheme \<Rightarrow> bytes option call \<times> ('h, 'b, 'x, 'k, 'm) tcp_world_scheme) \<Rightarrow>
   ('h, 'b, 'x, 'k, 'm) tcp_world_scheme \<Rightarrow> (unit call \<times> ('h, 'b, 'x, 'k, 'm) tcp_world_scheme) option" where
  "tcp_handleRead OnClose OnPacket unPacket w =
     (case sys_read w of
        (Inl e, w1) \<Rightarrow>
          Some (if e = EAGAIN then (Returns (), w1)
                else tcp_handleClose OnClose (tc_fd (tw_conn w1)) w1)
      | (Inr p, w1) \<Rightarrow>
          if p = [] then Some (tcp_handleClose OnClose (tc_fd (tw_conn w1)) w1)
          else (case tcp_packets OnClose OnPacket unPacket
                       (w1\<lparr>tw_conn := (tw_conn w1)\<lparr>ci_buffer := p\<rparr>\<rparr>) of
                  None \<Rightarrow> None
                | Some (Panics v, w2) \<Rightarrow> Some (Panics v, w2)
                | Some (Returns _, w2) \<Rightarrow>
                    Some (on_conn (\<lambda>c. map_option (Pair ()) (conn_keep (ci_buffer c) c)) w2)))"

definition tcp_Handle ::
  "(('h, 'b, 'x, 'k, 'm) tcp_world_scheme \<Rightarrow> unit call \<times> ('h, 'b, 'x, 'k, 'm) tcp_world_scheme) \<Rightarrow>
   (bytes \<Rightarrow> ('h, 'b, 'x, 'k, 'm) tcp_world_scheme \<Rightarrow> bytes call \<times> ('h, 'b, 'x, 'k, 'm) tcp_world_scheme) \<Rightarrow>
   (('h, 'b, 'x, 'k, 'm) tcp_world_scheme \<Rightarrow> bytes option call \<times> ('h, 'b, 'x, 'k, 'm) tcp_world_scheme) \<Rightarrow>
   int \<Rightarrow> event \<Rightarrow> ('h, 'b, 'x, 'k, 'm) tcp_world_scheme \<Rightarrow>
   (unit call \<times> ('h, 'b, 'x, 'k, 'm) tcp_world_scheme) option" where
  "tcp_Handle OnClose OnPacket unPacket connfd events w0 =
     (let w = (if tw_idle w0 > 0
               then w0\<lparr>tw_conn := (tw_conn w0)\<lparr>tc_activeTime := tw_now w0 div 1000000000\<rparr>\<rparr>
               else w0)
      in if has_event events EventErr then Some (tcp_handleClose OnClose connfd w)
         else (case tc_outbound (tw_conn w) of
                 None \<Rightarrow> Some (Panics ErrorValue, w)
               | Some ob \<Rightarrow>
                   if \<not> rb_IsEmpty ob
                   then (if has_event events EventWrite then Some (tcp_handleWrite OnClose w)
                         else Some (Returns (), w))
                   else (if has_event events EventRead
                         then tcp_handleRead OnClose OnPacket unPacket w
                         else Some (Returns (), w))))"

text \<open>The UnPacket of NewOption: everything that has arrived is one packet.\<close>

definition default_unPacket ::
  "'b bb_api \<Rightarrow> ('h, 'b, 'x, 'k, 'm) tcp_world_scheme \<Rightarrow>
   bytes option call \<times> ('h, 'b, 'x, 'k, 'm) tcp_world_scheme" where
  "default_unPacket A w =
     (case on_conn (conn_Read A) w of
        (Panics v, w1) \<Rightarrow> (Panics v, w1)
      | (Returns buf, w1) \<Rightarrow>
          (if buf = [] then (Returns None, w1)
           else (case on_conn (\<lambda>c. map_option (Pair ()) (conn_ResetBuffer c)) w1 of
                   (Panics v, w2) \<Rightarrow> (Panics v, w2)
                 | (Returns _, w2) \<Rightarrow> (Returns (Some buf), w2))))"

subsection \<open>Calls from other goroutines\<close>

datatype conn_error = ErrConnectionClosed

definition tcp_Write ::
  "bytes \<Rightarrow> ('h, 'b, 'x, 'k, 'm) tcp_world_scheme \<Rightarrow> conn_error option \<times> ('h, 'b, 'x, 'k, 'm) tcp_world_scheme" where
  "tcp_Write buf w =
     (if \<not> ci_connected (tw_conn w) then (Some ErrConnectionClosed, w)
      else (None, Trigger (JWrite buf) w))"

definition tcp_Close ::
  "('h, 'b, 'x, 'k, 'm) tcp_world_scheme \<Rightarrow> conn_error option \<times> ('h, 'b, 'x, 'k, 'm) tcp_world_scheme" where
  "tcp_Close w =
     (if \<not> ci_connected (tw_conn w) then (Some ErrConnectionClosed, w)
      else (None, Trigger JClose w))"

definition tcp_job_call ::
  "(('h, 'b, 'x, 'k, 'm) tcp_world_scheme \<Rightarrow> unit call \<times> ('h, 'b, 'x, 'k, 'm) tcp_world_scheme) \<Rightarrow>
   tcp_job \<Rightarrow> ('h, 'b, 'x, 'k, 'm) tcp_world_scheme \<Rightarrow> unit call \<times> ('h, 'b, 'x, 'k, 'm) tcp_world_scheme" where
  "tcp_job_call OnClose j w =
     (case j of
        JWrite buf \<Rightarrow> tcp_write OnClose buf w
      | JClose \<Rightarrow> tcp_handleClose OnClose (tc_fd (tw_conn w)) w)"

definition tcp_outcome :: "unit call \<times> 's \<Rightarrow> outcome \<times> 's" where
  "tcp_outcome r = (case r of (Panics v, w) \<Rightarrow> (Panicked v, w) | (Returns _, w) \<Rightarrow> (Returned, w))"

text \<open>
  The idle timer: the callback returns the delay after which it runs again, if any.
  Durations and the clock are in nanoseconds, \<open>activeTime\<close> in seconds.
\<close>

definition tcp_closeTimeoutConn ::
  "('h, 'b, 'x, 'k, 'm) tcp_world_scheme \<Rightarrow> int option \<times> ('h, 'b, 'x, 'k, 'm) tcp_world_scheme" where
  "tcp_closeTimeoutConn w =
     (if \<not> ci_connected (tw_conn w) then (None, w)
      else (let intervals = tw_now w - tc_activeTime (tw_conn w) * 1000000000
            in if intervals \<ge> tw_idle w then (None, snd (tcp_Close w))
               else (Some (tw_idle w - intervals), w)))"

subsection \<open>Fields the user reads and sets\<close>

definition tcp_GetID :: "('b, 'x) tcp_conn \<Rightarrow> int" where "tcp_GetID c = tc_id c"
definition tcp_GetAddr :: "('b, 'x) tcp_conn \<Rightarrow> string" where "tcp_GetAddr c = tc_addr c"
definition tcp_Connected :: "('b, 'x) tcp_conn \<Rightarrow> bool" where "tcp_Connected c = ci_connected c"
definition tcp_Context :: "('b, 'x) tcp_conn \<Rightarrow> 'x option" where "tcp_Context c = tc_ctx c"
definition tcp_SetContext :: "'x option \<Rightarrow> ('b, 'x) tcp_conn \<Rightarrow> ('b, 'x) tcp_conn" where
  "tcp_SetContext x c = c\<lparr>tc_ctx := x\<rparr>"
definition tcp_Status :: "('b, 'x) tcp_conn \<Rightarrow> int" where "tcp_Status c = tc_status c"
definition tcp_SetStatus :: "int \<Rightarrow> ('b, 'x) tcp_conn \<Rightarrow> ('b, 'x) tcp_conn" where
  "tcp_SetStatus n c = c\<lparr>tc_status := n\<rparr>"
definition tcp_Version :: "('b, 'x) tcp_conn \<Rightarrow> 8 word" where "tcp_Version c = tc_version c"
definition tcp_SetVersion :: "8 word \<Rightarrow> ('b, 'x) tcp_conn \<Rightarrow> ('b, 'x) tcp_conn" where
  "tcp_SetVersion v c = c\<lparr>tc_version := v\<rparr>"

end
