(* ===== verification/Tcp_Conn_Correct.thy ===== *)
theory Tcp_Conn_Correct
  imports Tcp_Conn "HOL-Library.Sublist"
begin

text \<open>
  The invariant of a TCP connection between two events, and that every operation keeps
  it whatever the socket answers. While it is connected, what the kernel has accepted
  followed by the outbound buffer is exactly what was asked to be written, and the
  descriptor is watched for writing exactly when something is pending; once it is
  closed, the callbacks and system calls of closing were made once and in order, the
  buffers are released, and what was accepted is a prefix of what was asked.
\<close>

subsection \<open>The history\<close>

fun log_accepted :: "tcp_log list \<Rightarrow> bytes" where
  "log_accepted [] = []"
| "log_accepted (Accepted p # ls) = p @ log_accepted ls"
| "log_accepted (_ # ls) = log_accepted ls"

fun log_asked :: "tcp_log list \<Rightarrow> bytes" where
  "log_asked [] = []"
| "log_asked (Asked p # ls) = p @ log_asked ls"
| "log_asked (_ # ls) = log_asked ls"

fun log_received :: "tcp_log list \<Rightarrow> bytes" where
  "log_received [] = []"
| "log_received (Received p # ls) = p @ log_received ls"
| "log_received (_ # ls) = log_received ls"

fun log_delivered :: "tcp_log list \<Rightarrow> bytes list" where
  "log_delivered [] = []"
| "log_delivered (Delivered p # ls) = p # log_delivered ls"
| "log_delivered (_ # ls) = log_delivered ls"

fun log_closing :: "tcp_log list \<Rightarrow> tcp_log list" where
  "log_closing [] = []"
| "log_closing (PollDeleted fd # ls) = PollDeleted fd # log_closing ls"
| "log_closing (OnCloseCalled # ls) = OnCloseCalled # log_closing ls"
| "log_closing (FdClosed fd # ls) = FdClosed fd # log_closing ls"
| "log_closing (_ # ls) = log_closing ls"

lemma log_append [simp]:
  "log_accepted (ls @ ks) = log_accepted ls @ log_accepted ks"
  "log_asked (ls @ ks) = log_asked ls @ log_asked ks"
  "log_received (ls @ ks) = log_received ls @ log_received ks"
  "log_delivered (ls @ ks) = log_delivered ls @ log_delivered ks"
  "log_closing (ls @ ks) = log_closing ls @ log_closing ks"
proof -
  show "log_accepted (ls @ ks) = log_accepted ls @ log_accepted ks"
    by (induction ls rule: log_accepted.induct) simp_all
  show "log_asked (ls @ ks) = log_asked ls @ log_asked ks"
    by (induction ls rule: log_asked.induct) simp_all
  show "log_received (ls @ ks) = log_received ls @ log_received ks"
    by (induction ls rule: log_received.induct) simp_all
  show "log_delivered (ls @ ks) = log_delivered ls @ log_delivered ks"
    by (induction ls rule: log_delivered.induct) simp_all
  show "log_closing (ls @ ks) = log_closing ls @ log_closing ks"
    by (induction ls rule: log_closing.induct) simp_all
qed

abbreviation accepted :: "('h, 'b, 'x, 'k, 'm) tcp_world_scheme \<Rightarrow> bytes" where
  "accepted w \<equiv> log_accepted (tw_log w)"

abbreviation asked :: "('h, 'b, 'x, 'k, 'm) tcp_world_scheme \<Rightarrow> bytes" where
  "asked w \<equiv> log_asked (tw_log w)"

abbreviation received :: "('h, 'b, 'x, 'k, 'm) tcp_world_scheme \<Rightarrow> bytes" where
  "received w \<equiv> log_received (tw_log w)"

abbreviation delivered :: "('h, 'b, 'x, 'k, 'm) tcp_world_scheme \<Rightarrow> bytes list" where
  "delivered w \<equiv> log_delivered (tw_log w)"

abbreviation connected :: "('h, 'b, 'x, 'k, 'm) tcp_world_scheme \<Rightarrow> bool" where
  "connected w \<equiv> ci_connected (tw_conn w)"

abbreviation fits :: "bytes \<Rightarrow> bool" where
  "fits p \<equiv> int (length p) \<le> maxAlloc"

subsection \<open>The invariant\<close>

definition watched :: "('h, 'b, 'x, 'k, 'm) tcp_world_scheme \<Rightarrow> bool" where
  "watched w \<longleftrightarrow> ee_interest (tw_poll w) (ee_kernel (tw_poll w)) (tc_fd (tw_conn w)) \<noteq> None"

text \<open>
  Pending output is watched for, and without any nothing is, unless an empty write was
  refused by the socket.
\<close>

definition wr_ok :: "('h, 'b, 'x, 'k, 'm) tcp_world_scheme \<Rightarrow> bytes \<Rightarrow> bool" where
  "wr_ok w pend \<longleftrightarrow>
     (pend \<noteq> [] \<longrightarrow> ep_wr (tw_poll w) (tc_fd (tw_conn w))) \<and>
     (ep_wr (tw_poll w) (tc_fd (tw_conn w)) \<longrightarrow> pend \<noteq> [] \<or> Asked [] \<in> set (tw_log w))"

definition open_inv :: "('h, 'b, 'x, 'k, 'm) tcp_world_scheme \<Rightarrow> bool" where
  "open_inv w \<longleftrightarrow>
     conn_inv (tw_conn w) \<and> el_handlers w (tc_fd (tw_conn w)) \<noteq> None \<and>
     ep_rd (tw_poll w) (tc_fd (tw_conn w)) \<and> log_closing (tw_log w) = [] \<and>
     (\<exists>ob. tc_outbound (tw_conn w) = Some ob \<and> rb_inv ob \<and>
       wr_ok w (rb_contents ob) \<and>
       accepted w @ rb_contents ob = asked w)"

definition closed_inv :: "('h, 'b, 'x, 'k, 'm) tcp_world_scheme \<Rightarrow> bool" where
  "closed_inv w \<longleftrightarrow>
     \<not> connected w \<and> ci_inbound (tw_conn w) = None \<and> ci_buffer (tw_conn w) = [] \<and>
     tc_outbound (tw_conn w) = None \<and> el_handlers w (tc_fd (tw_conn w)) = None \<and>
     \<not> watched w \<and> prefix (accepted w) (asked w) \<and>
     log_closing (tw_log w) =
       [PollDeleted (tc_fd (tw_conn w)), OnCloseCalled, FdClosed (tc_fd (tw_conn w))]"

definition out_inv :: "('h, 'b, 'x, 'k, 'm) tcp_world_scheme \<Rightarrow> bool" where
  "out_inv w \<longleftrightarrow> epoll_ctl_documented (tw_poll w) \<and> (open_inv w \<or> closed_inv w)"

text \<open>The bytes buffered for reading never exceed the bytes received.\<close>

definition tcp_inv :: "('h, 'b, 'x, 'k, 'm) tcp_world_scheme \<Rightarrow> bool" where
  "tcp_inv w \<longleftrightarrow> out_inv w \<and>
     (\<forall>ib. ci_inbound (tw_conn w) = Some ib \<longrightarrow> length (rb_contents ib) \<le> length (received w))"

definition loop_inv :: "('h, 'b, 'x, 'k, 'm) tcp_world_scheme \<Rightarrow> bool" where
  "loop_inv w \<longleftrightarrow> out_inv w \<and> length (conn_avail (tw_conn w)) \<le> length (received w)"

lemma open_connected: "open_inv w \<Longrightarrow> connected w"
  by (simp add: open_inv_def conn_inv_def)

lemma closed_connected: "closed_inv w \<Longrightarrow> \<not> connected w"
  by (simp add: closed_inv_def)

lemma out_inv_cases:
  assumes "out_inv w"
  obtains (opened) "epoll_ctl_documented (tw_poll w)" "open_inv w" "connected w"
  | (closed) "epoll_ctl_documented (tw_poll w)" "closed_inv w" "\<not> connected w"
  using assms open_connected closed_connected by (auto simp: out_inv_def)

lemma open_outbound:
  assumes "open_inv w"
  obtains ob where "tc_outbound (tw_conn w) = Some ob" "rb_inv ob"
    "wr_ok w (rb_contents ob)"
    "accepted w @ rb_contents ob = asked w" "rb_IsEmpty ob \<longleftrightarrow> rb_contents ob = []"
  using assms by (auto simp: open_inv_def rb_IsEmpty_def rb_isEmpty_iff)

subsection \<open>What the user's callbacks may do\<close>

text \<open>
  They may consume input, set the user fields, trigger jobs and keep a state of their
  own; they do not reach the descriptor, the poller and the output.
\<close>

definition user_step ::
  "('h, 'b, 'x, 'k, 'm) tcp_world_scheme \<Rightarrow> ('h, 'b, 'x, 'k, 'm) tcp_world_scheme \<Rightarrow> bool" where
  "user_step w w' \<longleftrightarrow>
     tw_poll w' = tw_poll w \<and> tw_reads w' = tw_reads w \<and> tw_writes w' = tw_writes w \<and>
     tw_log w' = tw_log w \<and> el_handlers w' = el_handlers w \<and>
     tc_fd (tw_conn w') = tc_fd (tw_conn w) \<and>
     tc_outbound (tw_conn w') = tc_outbound (tw_conn w) \<and>
     connected w' = connected w \<and>
     (conn_inv (tw_conn w) \<longrightarrow> conn_inv (tw_conn w')) \<and>
     length (conn_avail (tw_conn w')) \<le> length (conn_avail (tw_conn w)) \<and>
     (ci_inbound (tw_conn w) = None \<longrightarrow> ci_inbound (tw_conn w') = None)"

definition OnClose_ok ::
  "(('h, 'b, 'x, 'k, 'm) tcp_world_scheme \<Rightarrow> unit call \<times> ('h, 'b, 'x, 'k, 'm) tcp_world_scheme) \<Rightarrow> bool" where
  "OnClose_ok f \<longleftrightarrow> (\<forall>w. \<exists>w'. f w = (Returns (), w') \<and> user_step w w')"

definition OnPacket_ok ::
  "(bytes \<Rightarrow> ('h, 'b, 'x, 'k, 'm) tcp_world_scheme \<Rightarrow> bytes call \<times> ('h, 'b, 'x, 'k, 'm) tcp_world_scheme) \<Rightarrow>
   bool" where
  "OnPacket_ok g \<longleftrightarrow> (\<forall>p w. \<exists>out w'. g p w = (Returns out, w') \<and> user_step w w')"

text \<open>
  An UnPacket that returns a packet has consumed something, and on a closed connection
  it returns none, as one that starts with Read does.
\<close>

definition unPacket_ok ::
  "(('h, 'b, 'x, 'k, 'm) tcp_world_scheme \<Rightarrow> bytes option call \<times> ('h, 'b, 'x, 'k, 'm) tcp_world_scheme) \<Rightarrow>
   bool" where
  "unPacket_ok u \<longleftrightarrow>
     (\<forall>w. conn_inv (tw_conn w) \<longrightarrow>
        (\<exists>r w'. u w = (Returns r, w') \<and> user_step w w' \<and>
          (r \<noteq> None \<longrightarrow> length (conn_avail (tw_conn w')) < length (conn_avail (tw_conn w))))) \<and>
     (\<forall>w. \<not> connected w \<longrightarrow> (\<exists>w'. u w = (Returns None, w') \<and> user_step w w'))"

lemma user_step_refl [simp]: "user_step w w"
  by (simp add: user_step_def)

lemma user_step_open: "user_step w w' \<Longrightarrow> open_inv w \<Longrightarrow> open_inv w'"
  by (simp add: user_step_def open_inv_def wr_ok_def)

lemma user_step_closed: "user_step w w' \<Longrightarrow> closed_inv w \<Longrightarrow> closed_inv w'"
  by (auto simp: user_step_def closed_inv_def watched_def conn_avail_def)

lemma user_step_out: "user_step w w' \<Longrightarrow> out_inv w \<Longrightarrow> out_inv w'"
  using user_step_open [of w w'] user_step_closed [of w w'] by (auto simp: out_inv_def user_step_def)

lemma user_step_loop: "user_step w w' \<Longrightarrow> loop_inv w \<Longrightarrow> loop_inv w'"
  using user_step_out [of w w'] by (auto simp: loop_inv_def user_step_def)

subsection \<open>Closing\<close>

lemma interest_rd_wr:
  "ee_interest s (ee_kernel s) fd = None \<Longrightarrow> \<not> ep_rd s fd \<and> \<not> ep_wr s fd"
  by (simp add: ep_rd_def ep_wr_def)

lemma watched_rd: "ep_rd (tw_poll w) (tc_fd (tw_conn w)) \<Longrightarrow> watched w"
  using interest_rd_wr by (auto simp: watched_def)

lemma ep_ctl_registered:
  assumes "epoll_ctl_documented s" "ee_interest s (ee_kernel s) fd \<noteq> None" "op \<noteq> EPOLL_CTL_ADD"
  obtains s' where "ep_ctl op fd ev s = (None, s')"
proof -
  obtain e k where k: "ee_ctl s op fd ev (ee_kernel s) = (e, k)" by fastforce
  with assms have "e = None"
    unfolding epoll_ctl_documented_def ctl_documented_def by (cases e) fastforce+
  with k that show thesis by (simp add: ep_ctl_def)
qed

lemma ep_Del_registered:
  assumes "epoll_ctl_documented s" "ee_interest s (ee_kernel s) fd \<noteq> None"
  obtains s' where "ep_Del fd s = (None, s')" "epoll_ctl_documented s'"
    "ee_interest s' (ee_kernel s') fd = None"
proof -
  obtain s' where s': "ep_ctl EPOLL_CTL_DEL fd 0 s = (None, s')"
    using ep_ctl_registered [OF assms, of EPOLL_CTL_DEL 0] by auto
  from ep_ctl_cases [OF assms(1) s'] have "epoll_ctl_documented s'"
    "ee_interest s' (ee_kernel s') fd = None" by simp_all
  with s' that show thesis by (simp add: ep_Del_def)
qed

lemma tcp_handleClose_connected:
  assumes f: "OnClose_ok OnClose" and fd: "fd = tc_fd (tw_conn w)"
    and op: "epoll_ctl_documented (tw_poll w)" "connected w" "watched w"
      "log_closing (tw_log w) = []" "prefix (accepted w) (asked w)"
  shows "\<exists>w'. tcp_handleClose OnClose fd w = (Returns (), w') \<and>
    epoll_ctl_documented (tw_poll w') \<and> closed_inv w' \<and>
    asked w' = asked w \<and> accepted w' = accepted w \<and> received w' = received w \<and>
    delivered w' = delivered w \<and> conn_avail (tw_conn w') = [] \<and>
    tc_fd (tw_conn w') = tc_fd (tw_conn w)"
proof -
  have "ee_interest (tw_poll w) (ee_kernel (tw_poll w)) fd \<noteq> None"
    using op fd by (simp add: watched_def)
  with op(1) obtain p where p: "ep_Del fd (tw_poll w) = (None, p)" "epoll_ctl_documented p"
    "ee_interest p (ee_kernel p) fd = None" by (rule ep_Del_registered)
  let ?w2 = "tw_note OnCloseCalled (tcp_DeleteFdInLoop fd (w\<lparr>tw_conn := (tw_conn w)\<lparr>ci_connected := False\<rparr>\<rparr>))"
  obtain w3 where w3: "OnClose ?w2 = (Returns (), w3)" "user_step ?w2 w3"
    using f by (meson OnClose_ok_def)
  with op p fd show ?thesis
    by (auto simp: tcp_handleClose_def tcp_DeleteFdInLoop_def DeleteFdInLoop_def tw_note_def
        tcp_release_def user_step_def closed_inv_def watched_def conn_avail_def)
qed

lemma open_closable:
  assumes "open_inv w"
  shows "connected w" "watched w" "log_closing (tw_log w) = []" "prefix (accepted w) (asked w)"
proof -
  obtain ob where "accepted w @ rb_contents ob = asked w" using assms by (rule open_outbound)
  then show "prefix (accepted w) (asked w)" by (metis prefixI)
qed (use assms watched_rd open_connected in \<open>auto simp: open_inv_def\<close>)

lemma tcp_handleClose_inv:
  assumes f: "OnClose_ok OnClose" and inv: "out_inv w" and fd: "fd = tc_fd (tw_conn w)"
  shows "\<exists>w'. tcp_handleClose OnClose fd w = (Returns (), w') \<and>
    epoll_ctl_documented (tw_poll w') \<and> closed_inv w' \<and>
    asked w' = asked w \<and> accepted w' = accepted w \<and> received w' = received w \<and>
    delivered w' = delivered w \<and> conn_avail (tw_conn w') = [] \<and>
    tc_fd (tw_conn w') = tc_fd (tw_conn w)"
  using inv
proof (cases rule: out_inv_cases)
  case opened
  with tcp_handleClose_connected [OF f fd opened(1)] open_closable show ?thesis by blast
next
  case closed
  then show ?thesis
    by (simp add: tcp_handleClose_def closed_inv_def conn_avail_def)
qed

subsection \<open>Writing\<close>

text \<open>
  Inside a write: like \<open>open_inv\<close>, but \<open>rest\<close> is still to be put somewhere and the
  interest in writing is what it was.
\<close>

definition open_mid :: "('h, 'b, 'x, 'k, 'm) tcp_world_scheme \<Rightarrow> bytes \<Rightarrow> bytes \<Rightarrow> bool" where
  "open_mid w pend rest \<longleftrightarrow>
     epoll_ctl_documented (tw_poll w) \<and>
     conn_inv (tw_conn w) \<and> el_handlers w (tc_fd (tw_conn w)) \<noteq> None \<and>
     ep_rd (tw_poll w) (tc_fd (tw_conn w)) \<and> log_closing (tw_log w) = [] \<and>
     (\<exists>ob. tc_outbound (tw_conn w) = Some ob \<and> rb_inv ob \<and> rb_contents ob = pend) \<and>
     accepted w @ pend @ rest = asked w"

lemma open_mid_open:
  "open_mid w pend [] \<Longrightarrow> wr_ok w pend \<Longrightarrow>
    epoll_ctl_documented (tw_poll w) \<and> open_inv w"
  by (auto simp: open_mid_def open_inv_def)

lemma open_mid_close:
  assumes "OnClose_ok OnClose" "open_mid w pend rest"
  shows "\<exists>w'. tcp_handleClose OnClose (tc_fd (tw_conn w)) w = (Returns (), w') \<and>
    epoll_ctl_documented (tw_poll w') \<and> closed_inv w' \<and>
    asked w' = asked w \<and> accepted w' = accepted w \<and> received w' = received w \<and>
    delivered w' = delivered w \<and> conn_avail (tw_conn w') = [] \<and>
    tc_fd (tw_conn w') = tc_fd (tw_conn w)"
proof -
  have "prefix (accepted w) (asked w)" using assms(2) unfolding open_mid_def by (metis prefixI)
  with assms show ?thesis
    by (intro tcp_handleClose_connected) (auto simp: open_mid_def conn_inv_def watched_rd)
qed

text \<open>What a write leaves alone, whatever it does to the output.\<close>

definition write_frame ::
  "('h, 'b, 'x, 'k, 'm) tcp_world_scheme \<Rightarrow> ('h, 'b, 'x, 'k, 'm) tcp_world_scheme \<Rightarrow> bool" where
  "write_frame w w' \<longleftrightarrow>
     received w' = received w \<and> delivered w' = delivered w \<and>
     tc_fd (tw_conn w') = tc_fd (tw_conn w) \<and>
     length (conn_avail (tw_conn w')) \<le> length (conn_avail (tw_conn w)) \<and>
     (connected w' \<longrightarrow> connected w \<and> ci_inbound (tw_conn w') = ci_inbound (tw_conn w) \<and>
        ci_buffer (tw_conn w') = ci_buffer (tw_conn w))"

lemma write_frame_refl [simp]: "write_frame w w"
  by (simp add: write_frame_def)

lemma write_frame_trans: "write_frame w w1 \<Longrightarrow> write_frame w1 w2 \<Longrightarrow> write_frame w w2"
  by (auto simp: write_frame_def)

lemma write_frame_avail:
  "write_frame w w' \<Longrightarrow> connected w' \<Longrightarrow> conn_avail (tw_conn w') = conn_avail (tw_conn w)"
  by (simp add: write_frame_def conn_avail_def)

lemma ep_EnableReadWrite_registered:
  assumes "epoll_ctl_documented s" "ep_rd s fd"
  obtains s' where "ep_EnableReadWrite fd s = (None, s')" "epoll_ctl_documented s'"
    "ep_rd s' fd" "ep_wr s' fd"
proof -
  have "ee_interest s (ee_kernel s) fd \<noteq> None" using assms(2) interest_rd_wr by blast
  with assms(1) obtain s' where s': "ep_ctl EPOLL_CTL_MOD fd (readEvent OR writeEvent) s = (None, s')"
    using ep_ctl_registered [of s fd EPOLL_CTL_MOD] by blast
  with that ep_set_interest [OF assms(1) s'] ep_ctl_cases(1) [OF assms(1) s'] show thesis
    by (simp add: ep_EnableReadWrite_def ep_mod_def rw_bits)
qed

lemma ep_EnableRead_registered:
  assumes "epoll_ctl_documented s" "ep_rd s fd"
  obtains s' where "ep_EnableRead fd s = (None, s')" "epoll_ctl_documented s'"
    "ep_rd s' fd" "\<not> ep_wr s' fd"
proof -
  have "ee_interest s (ee_kernel s) fd \<noteq> None" using assms(2) interest_rd_wr by blast
  with assms(1) obtain s' where s': "ep_ctl EPOLL_CTL_MOD fd readEvent s = (None, s')"
    using ep_ctl_registered [of s fd EPOLL_CTL_MOD] by blast
  with that ep_set_interest [OF assms(1) s'] ep_ctl_cases(1) [OF assms(1) s'] show thesis
    by (simp add: ep_EnableRead_def ep_mod_def rw_bits)
qed

lemma tcp_EnableReadWrite_mid:
  assumes "open_mid w pend rest"
  shows "open_mid (tcp_EnableReadWrite w) pend rest"
    "ep_wr (tw_poll (tcp_EnableReadWrite w)) (tc_fd (tw_conn (tcp_EnableReadWrite w)))"
    "write_frame w (tcp_EnableReadWrite w)" "tw_log (tcp_EnableReadWrite w) = tw_log w"
    "tw_conn (tcp_EnableReadWrite w) = tw_conn w"
proof -
  obtain p where "ep_EnableReadWrite (tc_fd (tw_conn w)) (tw_poll w) = (None, p)"
    "epoll_ctl_documented p" "ep_rd p (tc_fd (tw_conn w))" "ep_wr p (tc_fd (tw_conn w))"
    using assms ep_EnableReadWrite_registered unfolding open_mid_def by metis
  with assms show "open_mid (tcp_EnableReadWrite w) pend rest"
    "ep_wr (tw_poll (tcp_EnableReadWrite w)) (tc_fd (tw_conn (tcp_EnableReadWrite w)))"
    "write_frame w (tcp_EnableReadWrite w)" "tw_log (tcp_EnableReadWrite w) = tw_log w"
    "tw_conn (tcp_EnableReadWrite w) = tw_conn w"
    by (auto simp: tcp_EnableReadWrite_def open_mid_def write_frame_def)
qed

lemma tcp_EnableRead_mid:
  assumes "open_mid w pend rest"
  shows "open_mid (tcp_EnableRead w) pend rest"
    "\<not> ep_wr (tw_poll (tcp_EnableRead w)) (tc_fd (tw_conn (tcp_EnableRead w)))"
    "write_frame w (tcp_EnableRead w)" "asked (tcp_EnableRead w) = asked w"
proof -
  obtain p where "ep_EnableRead (tc_fd (tw_conn w)) (tw_poll w) = (None, p)"
    "epoll_ctl_documented p" "ep_rd p (tc_fd (tw_conn w))" "\<not> ep_wr p (tc_fd (tw_conn w))"
    using assms ep_EnableRead_registered unfolding open_mid_def by metis
  with assms show "open_mid (tcp_EnableRead w) pend rest"
    "\<not> ep_wr (tw_poll (tcp_EnableRead w)) (tc_fd (tw_conn (tcp_EnableRead w)))"
    "write_frame w (tcp_EnableRead w)" "asked (tcp_EnableRead w) = asked w"
    by (auto simp: tcp_EnableRead_def open_mid_def write_frame_def)
qed

lemma tcp_enqueue_mid:
  assumes mid: "open_mid w pend (p @ rest)" and fits: "fits (asked w)"
  shows "\<exists>w'. tcp_enqueue p w = (Returns (), w') \<and> open_mid w' (pend @ p) rest \<and>
    write_frame w w' \<and> tw_log w' = tw_log w \<and> tw_poll w' = tw_poll w"
proof -
  obtain ob where ob: "tc_outbound (tw_conn w) = Some ob" "rb_inv ob" "rb_contents ob = pend"
    "accepted w @ pend @ p @ rest = asked w"
    using mid by (auto simp: open_mid_def)
  have "length (asked w) = length (accepted w @ pend @ p @ rest)" using ob(4) by simp
  then have "rb_room ob (length p)" using fits ob(3) by (simp add: rb_room_def)
  from rbq.write_law [OF ob(2) this] ob mid show ?thesis
    by (auto simp: tcp_enqueue_def set_outbound_def open_mid_def write_frame_def conn_inv_def conn_avail_def)
qed

text \<open>The three answers of a write to the socket.\<close>

lemma sys_write_mid:
  assumes "open_mid w [] (p @ rest)"
  obtains e w1 where "sys_write p w = (Inl e, w1)" "open_mid w1 [] (p @ rest)" "write_frame w w1"
      "asked w1 = asked w" "tw_poll w1 = tw_poll w" "tw_conn w1 = tw_conn w" "set (tw_log w) \<subseteq> set (tw_log w1)"
  | n w1 where "sys_write p w = (Inr n, w1)" "n \<le> length p" "open_mid w1 [] (drop n p @ rest)"
      "write_frame w w1" "asked w1 = asked w" "tw_poll w1 = tw_poll w" "tw_conn w1 = tw_conn w"
      "set (tw_log w) \<subseteq> set (tw_log w1)"
proof -
  consider "tw_writes w = []" | e ws where "tw_writes w = Inl e # ws"
    | k ws where "tw_writes w = Inr k # ws"
    by (metis list.exhaust sum.exhaust)
  then show thesis
  proof cases
    case 1
    with assms that(2) [of "length p" "tw_note (Accepted p) w"] show ?thesis
      by (auto simp: sys_write_def tw_note_def open_mid_def write_frame_def)
  next
    case (2 e ws)
    with assms that(1) [of e "w\<lparr>tw_writes := ws\<rparr>"] show ?thesis
      by (auto simp: sys_write_def open_mid_def write_frame_def)
  next
    case (3 k ws)
    let ?n = "min k (length p)"
    have "take ?n p @ drop ?n p @ rest = p @ rest"
      by (metis append_assoc append_take_drop_id)
    with 3 assms that(2) [of ?n "tw_note (Accepted (take ?n p)) (w\<lparr>tw_writes := ws\<rparr>)"]
    show ?thesis
      by (auto simp: sys_write_def tw_note_def open_mid_def write_frame_def Let_def)
  qed
qed

text \<open>Facts about every call, whether or not there is room for what is written.\<close>

definition call_frame ::
  "('h, 'b, 'x, 'k, 'm) tcp_world_scheme \<Rightarrow> bytes \<Rightarrow> ('h, 'b, 'x, 'k, 'm) tcp_world_scheme \<Rightarrow> bool" where
  "call_frame w p w' \<longleftrightarrow> write_frame w w' \<and> asked w' = asked w @ p"

lemma call_frame_refl [simp]: "call_frame w [] w"
  by (simp add: call_frame_def)

lemma call_frame_trans:
  "call_frame w p w1 \<Longrightarrow> call_frame w1 q w2 \<Longrightarrow> call_frame w (p @ q) w2"
  by (auto simp: call_frame_def intro: write_frame_trans)

lemma call_frame_then: "call_frame w [] w1 \<Longrightarrow> call_frame w1 [] w2 \<Longrightarrow> call_frame w [] w2"
  using call_frame_trans by fastforce

lemma tcp_handleClose_frame:
  assumes "OnClose_ok OnClose"
  shows "call_frame w [] (snd (tcp_handleClose OnClose fd w))"
proof (cases "connected w")
  case True
  let ?w2 = "tw_note OnCloseCalled (tcp_DeleteFdInLoop fd (w\<lparr>tw_conn := (tw_conn w)\<lparr>ci_connected := False\<rparr>\<rparr>))"
  obtain w3 where w3: "OnClose ?w2 = (Returns (), w3)" "user_step ?w2 w3"
    using assms by (meson OnClose_ok_def)
  with True show ?thesis
    by (auto simp: call_frame_def write_frame_def tcp_handleClose_def tcp_release_def tw_note_def
        tcp_DeleteFdInLoop_def DeleteFdInLoop_def user_step_def conn_avail_def split: prod.splits)
qed (simp add: tcp_handleClose_def)

lemma tcp_enqueue_frame: "call_frame w [] (snd (tcp_enqueue p w))"
  by (auto simp: call_frame_def write_frame_def tcp_enqueue_def set_outbound_def conn_avail_def
      split: option.splits)

lemma tcp_EnableReadWrite_frame: "call_frame w [] (tcp_EnableReadWrite w)"
  by (auto simp: call_frame_def write_frame_def tcp_EnableReadWrite_def split: prod.splits)

lemma sys_write_frame: "call_frame w [] (snd (sys_write p w))"
  by (auto simp: call_frame_def write_frame_def sys_write_def tw_note_def Let_def
      split: list.splits sum.splits)

lemma tcp_write_frame:
  assumes f: "OnClose_ok OnClose"
  shows "call_frame w (if connected w then buf else []) (snd (tcp_write OnClose buf w))"
proof (cases "connected w")
  case True
  let ?w = "tw_note (Asked buf) w"
  have start: "call_frame w buf ?w"
    by (simp add: call_frame_def write_frame_def tw_note_def)
  obtain a w1 where sw: "sys_write buf ?w = (a, w1)" by fastforce
  have w1: "call_frame ?w [] w1" using sys_write_frame [of ?w buf] sw by simp
  have enq: "tcp_enqueue p w1 = (r, w2) \<Longrightarrow> call_frame ?w [] w2" for p r w2
    using call_frame_then [OF w1 tcp_enqueue_frame [of w1 p]] by simp
  have enable: "call_frame ?w [] w2 \<Longrightarrow> call_frame ?w [] (tcp_EnableReadWrite w2)" for w2
    by (rule call_frame_then [OF _ tcp_EnableReadWrite_frame])
  have "call_frame ?w [] (snd (tcp_write OnClose buf w))"
  proof (cases a)
    case (Inl e)
    with True sw enq enable tcp_enqueue_frame [of ?w buf]
      call_frame_then [OF w1 tcp_handleClose_frame [OF f]]
    show ?thesis
      by (simp add: tcp_write_def Let_def split: option.split prod.split call.split)
  next
    case (Inr n)
    obtain r w2 where w2: "(if n = 0 then tcp_enqueue buf w1
                  else if n < length buf then tcp_enqueue (drop n buf) w1
                  else (Returns (), w1)) = (r, w2)" by fastforce
    then have "call_frame ?w [] w2" using enq w1 by (auto split: if_splits)
    with w2 Inr True sw enable tcp_enqueue_frame [of ?w buf] show ?thesis
      by (simp add: tcp_write_def Let_def split: option.split call.split)
  qed
  with start True call_frame_trans [of w buf ?w "[]"] show ?thesis by simp
qed (simp add: tcp_write_def)

lemma tcp_write_inv:
  assumes f: "OnClose_ok OnClose" and inv: "out_inv w"
    and fits: "connected w \<Longrightarrow> fits (asked w @ buf)"
  shows "\<exists>w'. tcp_write OnClose buf w = (Returns (), w') \<and> out_inv w'"
  using inv
proof (cases rule: out_inv_cases)
  case opened
  let ?w = "tw_note (Asked buf) w"
  obtain ob where ob: "tc_outbound (tw_conn w) = Some ob" "rb_inv ob"
    "wr_ok w (rb_contents ob)"
    "accepted w @ rb_contents ob = asked w" "rb_IsEmpty ob \<longleftrightarrow> rb_contents ob = []"
    using opened(2) by (rule open_outbound)
  have mid: "open_mid ?w (rb_contents ob) buf" and fits': "fits (asked ?w)"
    using opened ob fits by (auto simp: open_mid_def open_inv_def tw_note_def)
  have "\<exists>w'. tcp_write OnClose buf w = (Returns (), w') \<and>
      epoll_ctl_documented (tw_poll w') \<and> (open_inv w' \<or> closed_inv w')"
  proof (cases "rb_contents ob = []")
    case False
    with mid tcp_enqueue_mid [of ?w "rb_contents ob" buf "[]", OF _ fits'] obtain w' where
      w': "tcp_enqueue buf ?w = (Returns (), w')" "open_mid w' (rb_contents ob @ buf) []"
        "write_frame ?w w'" "tw_poll w' = tw_poll ?w" by auto
    have "wr_ok w' (rb_contents ob @ buf)"
      using w'(3,4) ob(3) False by (simp add: write_frame_def tw_note_def wr_ok_def)
    with open_mid_open [OF w'(2)] False w'(1) ob opened show ?thesis
      by (auto simp: tcp_write_def tw_note_def Let_def)
  next
    case True
    then have mid0: "open_mid ?w [] (buf @ [])" and wr: "wr_ok w []"
      using mid ob by auto
    have sw: "tcp_write OnClose buf w =
      (case sys_write buf ?w of
         (Inl e, w1) \<Rightarrow>
           if e = EAGAIN
           then (case tcp_enqueue buf w1 of
                   (Panics v, w2) \<Rightarrow> (Panics v, w2)
                 | (Returns _, w2) \<Rightarrow> (Returns (), tcp_EnableReadWrite w2))
           else tcp_handleClose OnClose (tc_fd (tw_conn w1)) w1
       | (Inr n, w1) \<Rightarrow>
           (case (if n = 0 then tcp_enqueue buf w1
                  else if n < length buf then tcp_enqueue (drop n buf) w1
                  else (Returns (), w1)) of
              (Panics v, w2) \<Rightarrow> (Panics v, w2)
            | (Returns _, w2) \<Rightarrow>
                (case tc_outbound (tw_conn w2) of
                   None \<Rightarrow> (Panics ErrorValue, w2)
                 | Some ob2 \<Rightarrow>
                     (Returns (), if rb_Length ob2 > 0 then tcp_EnableReadWrite w2 else w2))))"
      using opened ob True by (simp add: tcp_write_def tw_note_def)
    from mid0 show ?thesis
    proof (cases rule: sys_write_mid)
      case (1 e w1)
      show ?thesis
      proof (cases "e = EAGAIN")
        case eagain: True
        obtain w2 where w2: "tcp_enqueue buf w1 = (Returns (), w2)" "open_mid w2 ([] @ buf) []"
          "tw_log w2 = tw_log w1"
          using tcp_enqueue_mid [OF 1(2)] fits' 1(4) by auto
        let ?w3 = "tcp_EnableReadWrite w2"
        have "buf = [] \<Longrightarrow> Asked [] \<in> set (tw_log ?w3)"
          using 1(7) w2(3) tcp_EnableReadWrite_mid(4) [OF w2(2)] by (auto simp: tw_note_def)
        then have "wr_ok ?w3 ([] @ buf)"
          using tcp_EnableReadWrite_mid(2) [OF w2(2)] by (simp add: wr_ok_def)
        from open_mid_open [OF tcp_EnableReadWrite_mid(1) [OF w2(2)] this] sw 1(1) w2(1) eagain
        show ?thesis by auto
      next
        case False
        with open_mid_close [OF f 1(2)] sw 1(1) show ?thesis by auto
      qed
    next
      case (2 n w1)
      have "\<exists>w2. (if n = 0 then tcp_enqueue buf w1
                  else if n < length buf then tcp_enqueue (drop n buf) w1
                  else (Returns (), w1)) = (Returns (), w2) \<and> open_mid w2 (drop n buf) [] \<and>
              tw_poll w2 = tw_poll w1 \<and> tc_fd (tw_conn w2) = tc_fd (tw_conn w1) \<and> tw_log w2 = tw_log w1"
        using tcp_enqueue_mid [OF 2(3)] fits' 2(2,3,5) by (auto simp: write_frame_def)
      then obtain w2 where w2: "(if n = 0 then tcp_enqueue buf w1
                  else if n < length buf then tcp_enqueue (drop n buf) w1
                  else (Returns (), w1)) = (Returns (), w2)" "open_mid w2 (drop n buf) []"
              "tw_poll w2 = tw_poll w1" "tc_fd (tw_conn w2) = tc_fd (tw_conn w1)"
              "tw_log w2 = tw_log w1" by blast
      then obtain ob2 where ob2: "tc_outbound (tw_conn w2) = Some ob2" "rb_inv ob2" "rb_contents ob2 = drop n buf"
        by (auto simp: open_mid_def)
      show ?thesis
      proof (cases "drop n buf = []")
        case True
        have "wr_ok w2 []"
          using wr w2(3-5) 2(6-8) by (auto simp: wr_ok_def tw_note_def)
        with open_mid_open [OF w2(2)] True sw 2(1) w2(1) ob2 show ?thesis
          by (auto simp: rb_Length_eq)
      next
        case False
        let ?w3 = "tcp_EnableReadWrite w2"
        have "wr_ok ?w3 (drop n buf)"
          using tcp_EnableReadWrite_mid(2) [OF w2(2)] False by (simp add: wr_ok_def)
        from open_mid_open [OF tcp_EnableReadWrite_mid(1) [OF w2(2)] this] sw 2(1) w2(1) ob2 False
        show ?thesis by (auto simp: rb_Length_eq)
      qed
    qed
  qed
  then show ?thesis by (auto simp: out_inv_def)
next
  case closed
  with inv show ?thesis by (simp add: tcp_write_def)
qed

text \<open>One write of handleWrite, with the Shift that follows it.\<close>

lemma flush_mid:
  assumes mid: "open_mid w (p @ q) []" and ob: "tc_outbound (tw_conn w) = Some ob"
    and sw: "sys_write p w = (a, w1)"
  shows "(case a of
      Inl e \<Rightarrow> open_mid w1 (p @ q) [] \<and> tw_conn w1 = tw_conn w
    | Inr n \<Rightarrow> n \<le> length p \<and> open_mid (set_outbound (rb_Shift ob (int n)) w1) (drop n p @ q) []) \<and>
    tw_poll w1 = tw_poll w \<and> call_frame w [] w1 \<and> tc_fd (tw_conn w1) = tc_fd (tw_conn w)"
proof -
  have o: "rb_inv ob" "rb_contents ob = p @ q" using mid ob by (auto simp: open_mid_def)
  have sh: "rb_inv (rb_Shift ob (int n))" "rb_contents (rb_Shift ob (int n)) = drop n (p @ q)" for n
    using rb_Shift_correct [OF o(1), of "int n"] o(2) by simp_all
  have frame: "call_frame w [] w1" using sys_write_frame [of w p] sw by simp
  consider "tw_writes w = []" | e ws where "tw_writes w = Inl e # ws"
    | k ws where "tw_writes w = Inr k # ws"
    by (metis list.exhaust sum.exhaust)
  then show ?thesis
  proof cases
    case (3 k ws)
    have "accepted w @ take (min k (length p)) p @ drop (min k (length p)) p @ q = asked w"
      using mid append_take_drop_id [of "min k (length p)" p]
      by (simp add: open_mid_def flip: append_assoc)
    with 3 sw mid frame sh show ?thesis
      by (auto simp: sys_write_def tw_note_def open_mid_def set_outbound_def conn_inv_def Let_def)
  qed (use sw mid frame sh in \<open>auto simp: sys_write_def tw_note_def open_mid_def set_outbound_def conn_inv_def\<close>)
qed

lemma tcp_written_inv:
  assumes mid: "open_mid w pend []" and wr: "ep_wr (tw_poll w) (tc_fd (tw_conn w))"
  shows "out_inv (tcp_written w)"
proof -
  obtain ob where ob: "tc_outbound (tw_conn w) = Some ob" "rb_inv ob" "rb_contents ob = pend"
    using mid by (auto simp: open_mid_def)
  show ?thesis
  proof (cases "pend = []")
    case True
    have "wr_ok (tcp_EnableRead w) pend"
      using tcp_EnableRead_mid(2) [OF mid] True by (simp add: wr_ok_def)
    from open_mid_open [OF tcp_EnableRead_mid(1) [OF mid] this] ob True show ?thesis
      by (simp add: tcp_written_def rb_IsEmpty_def rb_isEmpty_iff out_inv_def)
  next
    case False
    with wr have "wr_ok w pend" by (simp add: wr_ok_def)
    from open_mid_open [OF mid this] ob False show ?thesis
      by (simp add: tcp_written_def rb_IsEmpty_def rb_isEmpty_iff out_inv_def)
  qed
qed

lemma set_outbound_frame: "call_frame w [] (set_outbound ob w)"
  by (simp add: call_frame_def write_frame_def set_outbound_def conn_avail_def)

lemma tcp_EnableRead_frame: "call_frame w [] (tcp_EnableRead w)"
  by (auto simp: call_frame_def write_frame_def tcp_EnableRead_def split: prod.splits)

lemma tcp_written_frame: "call_frame w [] (tcp_written w)"
  using tcp_EnableRead_frame by (auto simp: tcp_written_def split: option.splits)

lemma set_outbound_simps [simp]:
  "tw_poll (set_outbound ob w) = tw_poll w"
  "tc_fd (tw_conn (set_outbound ob w)) = tc_fd (tw_conn w)"
  "tc_outbound (tw_conn (set_outbound ob w)) = Some ob"
  "connected (set_outbound ob w) = connected w"
  by (simp_all add: set_outbound_def)

lemma out_invI: "epoll_ctl_documented (tw_poll w) \<and> closed_inv w \<Longrightarrow> out_inv w"
  "epoll_ctl_documented (tw_poll w) \<and> open_inv w \<Longrightarrow> out_inv w"
  by (simp_all add: out_inv_def)

lemma tcp_handleWrite_inv:
  assumes f: "OnClose_ok OnClose" and doc: "epoll_ctl_documented (tw_poll w)" and op: "open_inv w"
    and ne: "tc_outbound (tw_conn w) = Some ob" "\<not> rb_IsEmpty ob"
  shows "\<exists>w'. tcp_handleWrite OnClose w = (Returns (), w') \<and> out_inv w' \<and> call_frame w [] w'"
proof -
  from op ne have o: "rb_inv ob" "rb_contents ob \<noteq> []" "wr_ok w (rb_contents ob)"
    "accepted w @ rb_contents ob = asked w"
    by (auto elim!: open_outbound)
  then have wr: "ep_wr (tw_poll w) (tc_fd (tw_conn w))" by (simp add: wr_ok_def)
  obtain h t where ht: "rb_LazyReadAll ob = Some (h, t)" "h @ t = rb_contents ob"
    using rb_LazyReadAll_eq [OF o(1)] by metis
  have mid: "open_mid w (h @ t) []"
    using op doc ne o ht by (auto simp: open_mid_def open_inv_def)
  obtain a w1 where sw: "sys_write h w = (a, w1)" by fastforce
  note m1 = flush_mid [OF mid ne(1) sw]
  have closes: "\<exists>w'. tcp_handleClose OnClose (tc_fd (tw_conn v)) v = (Returns (), w') \<and> out_inv w' \<and>
      call_frame w [] w'" if "open_mid v pend []" "call_frame w [] v" for v pend
    using open_mid_close [OF f that(1)] tcp_handleClose_frame [OF f, of v "tc_fd (tw_conn v)"]
      call_frame_then [OF that(2)] by (force intro: out_invI)
  have stays: "out_inv v" if "open_mid v pend []" "pend \<noteq> []" "ep_wr (tw_poll v) (tc_fd (tw_conn v))"
    for v pend using open_mid_open [OF that(1)] that by (auto simp: wr_ok_def intro: out_invI)
  show ?thesis
  proof (cases a)
    case (Inl e)
    then have v: "open_mid w1 (h @ t) []" "call_frame w [] w1" "ep_wr (tw_poll w1) (tc_fd (tw_conn w1))"
      using m1 wr by auto
    from closes [OF v(1,2)] stays [OF v(1) _ v(3)] v(2) Inl sw ne ht o show ?thesis
      by (auto simp: tcp_handleWrite_def)
  next
    case (Inr n)
    let ?ob1 = "rb_Shift ob (int n)" and ?w2 = "set_outbound (rb_Shift ob (int n)) w1"
    have n: "n \<le> length h" "open_mid ?w2 (drop n h @ t) []" "tw_poll w1 = tw_poll w"
      "tc_fd (tw_conn w1) = tc_fd (tw_conn w)"
      using m1 Inr by auto
    have w2: "call_frame w [] ?w2"
      using m1 call_frame_then [OF _ set_outbound_frame] by blast
    show ?thesis
    proof (cases "length h = n \<and> t \<noteq> []")
      case False
      with Inr sw ne ht n wr tcp_written_inv [OF n(2)] call_frame_then [OF w2 tcp_written_frame]
      show ?thesis by (auto simp: tcp_handleWrite_def Let_def)
    next
      case True
      then have mid2: "open_mid ?w2 (t @ []) []" using n by simp
      obtain b w3 where sw3: "sys_write t ?w2 = (b, w3)" by fastforce
      have m3: "(case b of
          Inl e \<Rightarrow> open_mid w3 (t @ []) [] \<and> tw_conn w3 = tw_conn ?w2
        | Inr n \<Rightarrow> n \<le> length t \<and> open_mid (set_outbound (rb_Shift ?ob1 (int n)) w3) (drop n t @ []) []) \<and>
        tw_poll w3 = tw_poll ?w2 \<and> call_frame ?w2 [] w3 \<and> tc_fd (tw_conn w3) = tc_fd (tw_conn ?w2)"
        by (rule flush_mid [OF mid2 _ sw3]) simp
      then have w3: "call_frame w [] w3" using call_frame_then [OF w2] by blast
      show ?thesis
      proof (cases b)
        case (Inl e)
        with m3 have v: "open_mid w3 t []" "ep_wr (tw_poll w3) (tc_fd (tw_conn w3))" using n wr by auto
        from closes [OF v(1) w3] stays [OF v(1) _ v(2)] w3 Inl \<open>a = Inr n\<close> sw sw3 ne ht True
        show ?thesis by (auto simp: tcp_handleWrite_def Let_def)
      next
        case (Inr m)
        let ?w4 = "set_outbound (rb_Shift ?ob1 (int m)) w3"
        have v: "open_mid ?w4 (drop m t) []" "ep_wr (tw_poll ?w4) (tc_fd (tw_conn ?w4))"
          using m3 Inr n wr by auto
        have "call_frame w [] (tcp_written ?w4)"
          using w3 set_outbound_frame tcp_written_frame call_frame_then by blast
        with tcp_written_inv [OF v] Inr \<open>a = Inr n\<close> sw sw3 ne ht True
        show ?thesis by (auto simp: tcp_handleWrite_def Let_def)
      qed
    qed
  qed
qed

subsection \<open>The packet loop\<close>

text \<open>What the loop does to the state whether or not there is room for the replies.\<close>

definition loop_frame ::
  "('h, 'b, 'x, 'k, 'm) tcp_world_scheme \<Rightarrow> ('h, 'b, 'x, 'k, 'm) tcp_world_scheme \<Rightarrow> bool" where
  "loop_frame w w' \<longleftrightarrow>
     prefix (asked w) (asked w') \<and> received w' = received w \<and>
     tc_fd (tw_conn w') = tc_fd (tw_conn w) \<and>
     length (conn_avail (tw_conn w')) \<le> length (conn_avail (tw_conn w)) \<and>
     (connected w' \<longrightarrow> connected w) \<and>
     ((connected w \<longrightarrow> conn_inv (tw_conn w)) \<longrightarrow> connected w' \<longrightarrow> conn_inv (tw_conn w'))"

lemma loop_frame_refl [simp]: "loop_frame w w"
  by (simp add: loop_frame_def)

lemma loop_frame_trans: "loop_frame w w1 \<Longrightarrow> loop_frame w1 w2 \<Longrightarrow> loop_frame w w2"
  by (auto simp: loop_frame_def)

lemma call_loop_frame: "call_frame w p w' \<Longrightarrow> loop_frame w w'"
  by (auto simp: call_frame_def write_frame_def loop_frame_def conn_inv_def)

lemma user_loop_frame: "user_step w w' \<Longrightarrow> loop_frame w w'"
  by (auto simp: user_step_def loop_frame_def)

lemma note_loop_frame: "loop_frame w (tw_note (Delivered p) w)"
  by (simp add: loop_frame_def tw_note_def)

lemma out_inv_delivered [simp]: "out_inv (tw_note (Delivered p) w) = out_inv w"
  by (auto simp: out_inv_def open_inv_def closed_inv_def tw_note_def watched_def wr_ok_def)

lemma loop_frame_fits: "loop_frame w w' \<Longrightarrow> fits (asked w') \<Longrightarrow> fits (asked w)"
  by (auto simp: loop_frame_def dest!: prefix_length_le)

lemma tcp_packets_inv:
  assumes f: "OnClose_ok OnClose" and g: "OnPacket_ok OnPacket" and u: "unPacket_ok unPacket"
    and "connected w \<Longrightarrow> conn_inv (tw_conn w)"
  shows "\<exists>r w'. tcp_packets OnClose OnPacket unPacket w = Some (r, w') \<and> loop_frame w w' \<and>
    (out_inv w \<and> fits (asked w') \<longrightarrow> r = Returns () \<and> out_inv w')"
  using assms(4)
proof (induction "length (conn_avail (tw_conn w))" arbitrary: w rule: less_induct)
  case (less w)
  show ?case
  proof (cases "connected w")
    case False
    with u obtain w' where "unPacket w = (Returns None, w')" "user_step w w'"
      by (auto simp: unPacket_ok_def)
    then show ?thesis
      using user_loop_frame user_step_out by (subst tcp_packets.simps) auto
  next
    case True
    with less.prems u obtain r w1 where w1: "unPacket w = (Returns r, w1)" "user_step w w1"
      "r \<noteq> None \<longrightarrow> length (conn_avail (tw_conn w1)) < length (conn_avail (tw_conn w))"
      by (auto simp: unPacket_ok_def)
    show ?thesis
    proof (cases r)
      case None
      with w1 show ?thesis
        using user_loop_frame user_step_out by (subst tcp_packets.simps) auto
    next
      case (Some p)
      let ?n = "tw_note (Delivered p) w1"
      obtain out w2 where w2: "OnPacket p ?n = (Returns out, w2)" "user_step ?n w2"
        using g by (meson OnPacket_ok_def)
      obtain r3 w3 where w3: "(if length out > 0 then tcp_write OnClose out w2 else (Returns (), w2)) = (r3, w3)"
        by fastforce
      have "\<exists>q. call_frame w2 q w3"
        using tcp_write_frame [OF f, of w2 out] w3 by (metis call_frame_refl snd_conv)
      then have f23: "loop_frame w2 w3" using call_loop_frame by blast
      have f02: "loop_frame w w2"
        using user_loop_frame w1(2) w2(2) note_loop_frame loop_frame_trans by metis
      have f13: "loop_frame w1 w3"
        using user_loop_frame w2(2) note_loop_frame loop_frame_trans f23 by metis
      have inv2: "out_inv w \<Longrightarrow> out_inv w2"
        using user_step_out w1(2) w2(2) by (metis out_inv_delivered)
      have inv3: "r3 = Returns () \<and> out_inv w3" if "out_inv w" "fits (asked w3)"
      proof (cases "length out > 0")
        case True
        have "fits (asked w2 @ out)" if "connected w2"
          using tcp_write_frame [OF f, of w2 out] w3 True that \<open>fits (asked w3)\<close>
          by (auto simp: call_frame_def)
        from tcp_write_inv [OF f inv2 [OF that(1)] this] w3 True show ?thesis by auto
      qed (use w3 inv2 that in auto)
      have eq: "tcp_packets OnClose OnPacket unPacket w =
          (case r3 of Panics v \<Rightarrow> Some (Panics v, w3)
           | Returns _ \<Rightarrow> tcp_packets OnClose OnPacket unPacket w3)"
        using w3 by (subst tcp_packets.simps) (auto simp: w1 Some w2 split: call.split if_splits)
      show ?thesis
      proof (cases r3)
        case (Panics v)
        with eq loop_frame_trans [OF f02 f23] inv3 show ?thesis by auto
      next
        case (Returns x)
        have "length (conn_avail (tw_conn w3)) < length (conn_avail (tw_conn w))"
          using f13 w1(3) Some by (simp add: loop_frame_def)
        moreover have "connected w3 \<Longrightarrow> conn_inv (tw_conn w3)"
          using loop_frame_trans [OF f02 f23] less.prems by (simp add: loop_frame_def)
        ultimately obtain r' w' where ih: "tcp_packets OnClose OnPacket unPacket w3 = Some (r', w')"
          "loop_frame w3 w'" "out_inv w3 \<and> fits (asked w') \<longrightarrow> r' = Returns () \<and> out_inv w'"
          using less.hyps by blast
        with eq Returns inv3 loop_frame_fits [OF ih(2)] loop_frame_trans [OF loop_frame_trans [OF f02 f23] ih(2)]
        show ?thesis by auto
      qed
    qed
  qed
qed

subsection \<open>Events\<close>

definition event_frame ::
  "('h, 'b, 'x, 'k, 'm) tcp_world_scheme \<Rightarrow> ('h, 'b, 'x, 'k, 'm) tcp_world_scheme \<Rightarrow> bool" where
  "event_frame w w' \<longleftrightarrow>
     prefix (asked w) (asked w') \<and> prefix (received w) (received w') \<and>
     tc_fd (tw_conn w') = tc_fd (tw_conn w) \<and> (connected w' \<longrightarrow> connected w)"

lemma event_frame_refl [simp]: "event_frame w w"
  by (simp add: event_frame_def)

lemma event_frame_trans: "event_frame w w1 \<Longrightarrow> event_frame w1 w2 \<Longrightarrow> event_frame w w2"
  by (auto simp: event_frame_def)

lemma loop_event_frame: "loop_frame w w' \<Longrightarrow> event_frame w w'"
  by (simp add: event_frame_def loop_frame_def)

lemma call_event_frame: "call_frame w p w' \<Longrightarrow> event_frame w w'"
  using call_loop_frame loop_event_frame by blast

lemma event_frame_fits:
  "event_frame w w' \<Longrightarrow> fits (asked w') \<Longrightarrow> fits (asked w)"
  "event_frame w w' \<Longrightarrow> fits (received w') \<Longrightarrow> fits (received w)"
  by (auto simp: event_frame_def dest!: prefix_length_le)

text \<open>Only the output side of a write matters for what is buffered for reading.\<close>

lemma tcp_inv_call:
  assumes "tcp_inv w" "out_inv w'" "call_frame w p w'"
  shows "tcp_inv w'"
  using assms(2)
proof (cases rule: out_inv_cases)
  case opened
  with assms show ?thesis
    by (auto simp: tcp_inv_def call_frame_def write_frame_def)
next
  case closed
  with assms show ?thesis by (auto simp: tcp_inv_def closed_inv_def)
qed

lemma closed_tcp_inv: "epoll_ctl_documented (tw_poll w) \<and> closed_inv w \<Longrightarrow> tcp_inv w"
  by (auto simp: tcp_inv_def out_inv_def closed_inv_def)

lemma closed_keep:
  "closed_inv w \<Longrightarrow> on_conn (\<lambda>c. map_option (Pair ()) (conn_keep (ci_buffer c) c)) w = (Returns (), w)"
  by (simp add: closed_inv_def on_conn_def conn_keep_def)

lemma out_inv_buffer:
  "connected w \<Longrightarrow> out_inv w \<Longrightarrow> out_inv (w\<lparr>tw_conn := (tw_conn w)\<lparr>ci_buffer := p\<rparr>\<rparr>)"
  by (auto simp: out_inv_def open_inv_def closed_inv_def conn_inv_def wr_ok_def)

lemma keep_inv:
  assumes inv: "out_inv w" and room: "fits (received w)" and le: "length (conn_avail (tw_conn w)) \<le> length (received w)"
  shows "\<exists>w'. on_conn (\<lambda>c. map_option (Pair ()) (conn_keep (ci_buffer c) c)) w = (Returns (), w') \<and>
    tcp_inv w' \<and> tw_log w' = tw_log w \<and> event_frame w w'"
  using inv
proof (cases rule: out_inv_cases)
  case opened
  then have ci: "conn_inv (tw_conn w)" by (simp add: open_inv_def)
  then obtain rb where rb: "ci_inbound (tw_conn w) = Some rb" "rb_inv rb"
    "conn_avail (tw_conn w) = rb_contents rb @ ci_buffer (tw_conn w)"
    by (rule conn_inv_cases)
  have "rb_room rb (length (ci_buffer (tw_conn w)))"
    using room le rb(3) by (simp add: rb_room_def)
  then obtain n rb' where rb': "rb_Write rb (ci_buffer (tw_conn w)) = Some (n, rb')" "rb_inv rb'"
    "rb_contents rb' = rb_contents rb @ ci_buffer (tw_conn w)"
    using rbq.write_law [OF rb(2)] by blast
  show ?thesis
  proof (cases "ci_buffer (tw_conn w) = []")
    case True
    with opened inv rb le show ?thesis
      by (auto simp: on_conn_def conn_keep_def tcp_inv_def)
  next
    case False
    with opened inv rb rb' le show ?thesis
      by (auto simp: on_conn_def conn_keep_def tcp_inv_def out_inv_def open_inv_def conn_inv_def
          wr_ok_def event_frame_def)
  qed
next
  case closed
  with closed_keep [of w] closed_tcp_inv [of w] show ?thesis by auto
qed

lemma sys_read_inv:
  assumes "out_inv w" "sys_read w = (a, w1)"
  shows "out_inv w1 \<and> tw_conn w1 = tw_conn w \<and> asked w1 = asked w \<and>
    received w1 = received w @ (case a of Inl e \<Rightarrow> [] | Inr p \<Rightarrow> p) \<and> event_frame w w1"
proof -
  have "out_inv (w\<lparr>tw_reads := rs\<rparr>) = out_inv w" "out_inv (tw_note (Received q) w) = out_inv w"
    for rs q and w :: "('h, 'b, 'x, 'k, 'm) tcp_world_scheme"
    by (auto simp: out_inv_def open_inv_def closed_inv_def tw_note_def watched_def wr_ok_def)
  with assms show ?thesis
    by (auto simp: sys_read_def Let_def event_frame_def split: list.splits sum.splits)
      (auto simp: tw_note_def)
qed

lemma tcp_handleRead_inv:
  assumes f: "OnClose_ok OnClose" and g: "OnPacket_ok OnPacket" and u: "unPacket_ok unPacket"
    and inv: "tcp_inv w" and con: "connected w"
  shows "\<exists>r w'. tcp_handleRead OnClose OnPacket unPacket w = Some (r, w') \<and> event_frame w w' \<and>
    (fits (asked w') \<and> fits (received w') \<longrightarrow> r = Returns () \<and> tcp_inv w')"
proof -
  obtain a w1 where sr: "sys_read w = (a, w1)" by fastforce
  have out: "out_inv w" using inv by (simp add: tcp_inv_def)
  have w1: "out_inv w1" "tw_conn w1 = tw_conn w" "asked w1 = asked w" "event_frame w w1"
    "received w1 = received w @ (case a of Inl e \<Rightarrow> [] | Inr p \<Rightarrow> p)"
    using sys_read_inv [OF out sr] by auto
  have tcp1: "tcp_inv w1"
    using inv w1 by (auto simp: tcp_inv_def)
  have closing: "\<exists>w'. tcp_handleClose OnClose (tc_fd (tw_conn w1)) w1 = (Returns (), w') \<and> tcp_inv w' \<and>
      event_frame w w'"
    using tcp_handleClose_inv [OF f w1(1) refl] closed_tcp_inv
      call_event_frame [OF tcp_handleClose_frame [OF f, of w1 "tc_fd (tw_conn w1)"]]
      event_frame_trans [OF w1(4)] by (metis snd_conv)
  show ?thesis
  proof (cases "\<exists>p. a = Inr p \<and> p \<noteq> []")
    case False
    with sr closing tcp1 w1(4) show ?thesis
      by (cases a) (auto simp: tcp_handleRead_def)
  next
    case True
    then obtain p where p: "a = Inr p" "p \<noteq> []" by blast
    let ?w2 = "w1\<lparr>tw_conn := (tw_conn w1)\<lparr>ci_buffer := p\<rparr>\<rparr>"
    have c1: "connected w1" using con w1(2) by simp
    have out2: "out_inv ?w2" using out_inv_buffer [OF c1 w1(1)] .
    have ci2: "conn_inv (tw_conn ?w2)"
      using out2 c1 by (auto elim!: out_inv_cases simp: open_inv_def)
    have av: "length (conn_avail (tw_conn ?w2)) \<le> length (received ?w2)"
      using inv w1(2,5) p by (auto simp: conn_avail_def tcp_inv_def split: option.splits)
    have ev2: "event_frame w ?w2" using w1(4) by (simp add: event_frame_def)
    from tcp_packets_inv [OF f g u ci2] obtain r3 w3 where
      w3: "tcp_packets OnClose OnPacket unPacket ?w2 = Some (r3, w3)" "loop_frame ?w2 w3"
        "out_inv ?w2 \<and> fits (asked w3) \<longrightarrow> r3 = Returns () \<and> out_inv w3" by blast
    have ev3: "event_frame w w3" using event_frame_trans [OF ev2 loop_event_frame [OF w3(2)]] .
    have av3: "length (conn_avail (tw_conn w3)) \<le> length (received w3)"
      using w3(2) av by (simp add: loop_frame_def)
    obtain r4 w4 where w4: "on_conn (\<lambda>c. map_option (Pair ()) (conn_keep (ci_buffer c) c)) w3 = (r4, w4)"
      by fastforce
    have log4: "tw_log w4 = tw_log w3" "tc_fd (tw_conn w4) = tc_fd (tw_conn w3)" "connected w4 = connected w3"
      using w4 by (auto simp: on_conn_def conn_keep_def split: option.splits if_splits bind_splits)
    then have ev4: "event_frame w w4" using ev3 by (simp add: event_frame_def)
    have eq: "tcp_handleRead OnClose OnPacket unPacket w =
        Some (case r3 of Panics v \<Rightarrow> (Panics v, w3) | Returns _ \<Rightarrow> (r4, w4))"
      using sr p w3(1) w4 by (simp add: tcp_handleRead_def split: call.split)
    show ?thesis
    proof (cases r3)
      case (Panics v)
      with eq ev3 w3(3) out2 show ?thesis by auto
    next
      case (Returns x)
      have "r4 = Returns () \<and> tcp_inv w4" if "fits (asked w4)" "fits (received w4)"
        using keep_inv [OF _ _ av3] w3(3) out2 that log4 w4 by auto
      with eq ev4 Returns show ?thesis by auto
    qed
  qed
qed

lemma tcp_inv_active:
  "tcp_inv w \<Longrightarrow> tcp_inv (w\<lparr>tw_conn := (tw_conn w)\<lparr>tc_activeTime := t\<rparr>\<rparr>)"
  by (auto simp: tcp_inv_def out_inv_def open_inv_def closed_inv_def conn_inv_def wr_ok_def watched_def)

lemma tcp_Handle_inv:
  assumes f: "OnClose_ok OnClose" and g: "OnPacket_ok OnPacket" and u: "unPacket_ok unPacket"
    and inv: "tcp_inv w" and con: "connected w" and fd: "fd = tc_fd (tw_conn w)"
  shows "\<exists>r w'. tcp_Handle OnClose OnPacket unPacket fd ev w = Some (r, w') \<and> event_frame w w' \<and>
    (fits (asked w') \<and> fits (received w') \<longrightarrow> r = Returns () \<and> tcp_inv w')"
proof -
  let ?w = "if tw_idle w > 0 then w\<lparr>tw_conn := (tw_conn w)\<lparr>tc_activeTime := tw_now w div 1000000000\<rparr>\<rparr> else w"
  have w: "tcp_inv ?w" "connected ?w" "fd = tc_fd (tw_conn ?w)" "event_frame w ?w"
    using tcp_inv_active [OF inv] inv con fd by (simp_all add: event_frame_def)
  define v where "v = ?w"
  note v = w [folded v_def]
  have out: "out_inv v" using v(1) by (simp add: tcp_inv_def)
  then have op: "epoll_ctl_documented (tw_poll v)" "open_inv v"
    using v(2) by (auto elim: out_inv_cases)
  obtain ob where ob: "tc_outbound (tw_conn v) = Some ob" using op(2) by (rule open_outbound)
  have eq: "tcp_Handle OnClose OnPacket unPacket fd ev w =
      (if has_event ev EventErr then Some (tcp_handleClose OnClose fd v)
       else if \<not> rb_IsEmpty ob
       then (if has_event ev EventWrite then Some (tcp_handleWrite OnClose v) else Some (Returns (), v))
       else (if has_event ev EventRead then tcp_handleRead OnClose OnPacket unPacket v
             else Some (Returns (), v)))"
    using ob by (simp add: tcp_Handle_def v_def Let_def)
  consider "has_event ev EventErr" | "\<not> has_event ev EventErr" "\<not> rb_IsEmpty ob" "has_event ev EventWrite"
    | "\<not> has_event ev EventErr" "rb_IsEmpty ob" "has_event ev EventRead"
    | "tcp_Handle OnClose OnPacket unPacket fd ev w = Some (Returns (), v)"
    by (cases "has_event ev EventErr"; cases "rb_IsEmpty ob"; cases "has_event ev EventWrite";
        cases "has_event ev EventRead") (simp_all add: eq)
  then show ?thesis
  proof cases
    case 1
    obtain w' where "tcp_handleClose OnClose fd v = (Returns (), w')"
      "epoll_ctl_documented (tw_poll w') \<and> closed_inv w'"
      using tcp_handleClose_inv [OF f out v(3)] by blast
    with 1 eq closed_tcp_inv event_frame_trans [OF v(4)]
      call_event_frame [OF tcp_handleClose_frame [OF f, of v fd]] show ?thesis by auto
  next
    case 2
    from tcp_handleWrite_inv [OF f op ob 2(2)] 2 eq tcp_inv_call [OF v(1)] call_event_frame
      event_frame_trans [OF v(4)] show ?thesis by fastforce
  next
    case 3
    from tcp_handleRead_inv [OF f g u v(1,2)] 3 eq event_frame_trans [OF v(4)] show ?thesis by fastforce
  next
    case 4
    with v show ?thesis by auto
  qed
qed

lemma tcp_job_inv:
  assumes f: "OnClose_ok OnClose" and inv: "tcp_inv w"
  shows "\<exists>r w'. tcp_job_call OnClose j w = (r, w') \<and> event_frame w w' \<and>
    (fits (asked w') \<longrightarrow> r = Returns () \<and> tcp_inv w')"
proof -
  have out: "out_inv w" using inv by (simp add: tcp_inv_def)
  show ?thesis
  proof (cases j)
    case JClose
    obtain w' where "tcp_handleClose OnClose (tc_fd (tw_conn w)) w = (Returns (), w')"
      "epoll_ctl_documented (tw_poll w') \<and> closed_inv w'"
      using tcp_handleClose_inv [OF f out refl] by blast
    with JClose closed_tcp_inv call_event_frame [OF tcp_handleClose_frame [OF f, of w "tc_fd (tw_conn w)"]]
    show ?thesis by (auto simp: tcp_job_call_def)
  next
    case (JWrite buf)
    obtain r w' where w': "tcp_write OnClose buf w = (r, w')" by fastforce
    then have fr: "call_frame w (if connected w then buf else []) w'"
      using tcp_write_frame [OF f, of w buf] by simp
    have "r = Returns () \<and> tcp_inv w'" if "fits (asked w')"
    proof -
      have "connected w \<Longrightarrow> fits (asked w @ buf)"
        using fr that by (simp add: call_frame_def)
      from tcp_write_inv [OF f out this] w' have "r = Returns ()" "out_inv w'" by auto
      with tcp_inv_call [OF inv _ fr] show ?thesis by blast
    qed
    with JWrite w' call_event_frame [OF fr] show ?thesis by (auto simp: tcp_job_call_def)
  qed
qed

end
