(* ===== verification/Tcp_Stream.thy ===== *)
theory Tcp_Stream
  imports Tcp_Conn_Correct
begin

text \<open>
  Packets out of a byte stream. A framing protocol decides from the front of the stream
  alone how long the first packet is (\<open>flen\<close>); \<open>frames\<close> cuts a stream into the packets it
  holds and the rest. Whatever the sizes of the chunks that the socket delivers, the
  connection hands the packets of the whole stream to OnPacket, and its inbound buffer
  holds the rest.
\<close>

function frames :: "(bytes \<Rightarrow> nat option) \<Rightarrow> bytes \<Rightarrow> bytes list \<times> bytes" where
  "frames flen xs =
     (case flen xs of
        None \<Rightarrow> ([], xs)
      | Some n \<Rightarrow>
          (if n = 0 \<or> n > length xs then ([], xs)
           else (let (fs, r) = frames flen (drop n xs) in (take n xs # fs, r))))"
  by auto
termination by (relation "measure (\<lambda>(_, xs). length xs)") auto

declare frames.simps [simp del]

definition flen_ok :: "(bytes \<Rightarrow> nat option) \<Rightarrow> bool" where
  "flen_ok flen \<longleftrightarrow>
     (\<forall>xs n. flen xs = Some n \<longrightarrow> 0 < n \<and> n \<le> length xs \<and> (\<forall>ys. flen (xs @ ys) = Some n))"

lemma frames_None: "flen xs = None \<Longrightarrow> frames flen xs = ([], xs)"
  by (simp add: frames.simps)

lemma flen_ok_bounds: "flen_ok flen \<Longrightarrow> flen xs = Some n \<Longrightarrow> n \<noteq> 0 \<and> \<not> n > length xs"
  by (fastforce simp: flen_ok_def)

lemma frames_Some:
  "flen_ok flen \<Longrightarrow> flen xs = Some n \<Longrightarrow>
    frames flen xs = (let (fs, r) = frames flen (drop n xs) in (take n xs # fs, r))"
  by (subst frames.simps) (simp add: flen_ok_bounds)

lemma frames_append:
  assumes "flen_ok flen"
  shows "frames flen (xs @ ys) =
    (let (fs, r) = frames flen xs; (gs, r') = frames flen (r @ ys) in (fs @ gs, r'))"
proof (induction "length xs" arbitrary: xs rule: less_induct)
  case (less xs)
  show ?case
  proof (cases "flen xs")
    case None
    then show ?thesis by (simp add: frames_None split: prod.split)
  next
    case (Some n)
    with assms have n: "0 < n" "n \<le> length xs" "flen (xs @ ys) = Some n"
      by (auto simp: flen_ok_def)
    then have "frames flen (drop n xs @ ys) =
      (let (fs, r) = frames flen (drop n xs); (gs, r') = frames flen (r @ ys) in (fs @ gs, r'))"
      by (intro less.hyps) simp
    with n Some assms show ?thesis
      by (simp add: frames_Some split: prod.splits)
  qed
qed

lemma frames_concat: "flen_ok flen \<Longrightarrow> concat (fst (frames flen xs)) @ snd (frames flen xs) = xs"
proof (induction "length xs" arbitrary: xs rule: less_induct)
  case (less xs)
  show ?case
  proof (cases "flen xs")
    case None
    then show ?thesis by (simp add: frames_None)
  next
    case (Some n)
    with less.prems have "0 < n" "n \<le> length xs" by (auto simp: flen_ok_def)
    with less.hyps [of "drop n xs"] less.prems Some show ?thesis
      by (auto simp: frames_Some split: prod.splits)
  qed
qed

subsection \<open>UnPacket and OnPacket of a framing protocol\<close>

definition unpacks_frames ::
  "(bytes \<Rightarrow> nat option) \<Rightarrow>
   (('h, 'b, 'x, 'k, 'm) tcp_world_scheme \<Rightarrow> bytes option call \<times> ('h, 'b, 'x, 'k, 'm) tcp_world_scheme) \<Rightarrow>
   bool" where
  "unpacks_frames flen u \<longleftrightarrow>
     (\<forall>w. conn_inv (tw_conn w) \<longrightarrow>
        (\<exists>w'. user_step w w' \<and>
          u w = (Returns (map_option (\<lambda>n. take n (conn_avail (tw_conn w))) (flen (conn_avail (tw_conn w)))), w') \<and>
          conn_avail (tw_conn w') =
            (case flen (conn_avail (tw_conn w)) of
               None \<Rightarrow> conn_avail (tw_conn w) | Some n \<Rightarrow> drop n (conn_avail (tw_conn w))))) \<and>
     (\<forall>w. \<not> connected w \<longrightarrow> (\<exists>w'. u w = (Returns None, w') \<and> user_step w w'))"

definition OnPacket_leaves_input ::
  "(bytes \<Rightarrow> ('h, 'b, 'x, 'k, 'm) tcp_world_scheme \<Rightarrow> bytes call \<times> ('h, 'b, 'x, 'k, 'm) tcp_world_scheme) \<Rightarrow>
   bool" where
  "OnPacket_leaves_input g \<longleftrightarrow>
     (\<forall>p w. \<exists>out w'. g p w = (Returns out, w') \<and> user_step w w' \<and>
        conn_avail (tw_conn w') = conn_avail (tw_conn w))"

lemma unpacks_framesE:
  assumes "unpacks_frames flen u" "conn_inv (tw_conn w)"
  obtains w' where "user_step w w'"
    "u w = (Returns (map_option (\<lambda>n. take n (conn_avail (tw_conn w))) (flen (conn_avail (tw_conn w)))), w')"
    "conn_avail (tw_conn w') = (case flen (conn_avail (tw_conn w)) of
       None \<Rightarrow> conn_avail (tw_conn w) | Some n \<Rightarrow> drop n (conn_avail (tw_conn w)))"
  using assms unfolding unpacks_frames_def by blast

lemma unpacks_frames_ok:
  fixes u :: "('a, 'b, 'c, 'd, 'e) tcp_world_scheme \<Rightarrow>
    bytes option call \<times> ('a, 'b, 'c, 'd, 'e) tcp_world_scheme"
  assumes "unpacks_frames flen u" "flen_ok flen"
  shows "unPacket_ok u"
  unfolding unPacket_ok_def
proof (intro conjI allI impI)
  fix w :: "('a, 'b, 'c, 'd, 'e) tcp_world_scheme"
  assume "conn_inv (tw_conn w)"
  with assms(1) obtain w' where "user_step w w'" and
      u: "u w = (Returns (map_option (\<lambda>n. take n (conn_avail (tw_conn w))) (flen (conn_avail (tw_conn w)))), w')"
      "conn_avail (tw_conn w') = (case flen (conn_avail (tw_conn w)) of
               None \<Rightarrow> conn_avail (tw_conn w) | Some n \<Rightarrow> drop n (conn_avail (tw_conn w)))"
    by (rule unpacks_framesE)
  moreover have "flen xs = Some n \<Longrightarrow> 0 < n \<and> n \<le> length xs" for xs n
    using assms(2) by (simp add: flen_ok_def)
  ultimately show "\<exists>r w'. u w = (Returns r, w') \<and> user_step w w' \<and>
      (r \<noteq> None \<longrightarrow> length (conn_avail (tw_conn w')) < length (conn_avail (tw_conn w)))"
    by (cases "flen (conn_avail (tw_conn w))") fastforce+
qed (use assms(1) in \<open>auto simp: unpacks_frames_def\<close>)

lemma leaves_input_ok: "OnPacket_leaves_input g \<Longrightarrow> OnPacket_ok g"
  unfolding OnPacket_leaves_input_def OnPacket_ok_def by blast

subsection \<open>The packet loop delivers the frames\<close>

lemma tcp_packets_frames:
  assumes f: "OnClose_ok OnClose" and g: "OnPacket_leaves_input OnPacket"
    and u: "unpacks_frames flen unPacket" and fl: "flen_ok flen"
    and "conn_inv (tw_conn w)"
    and "tcp_packets OnClose OnPacket unPacket w = Some (Returns (), w')" "connected w'"
  shows "delivered w' = delivered w @ fst (frames flen (conn_avail (tw_conn w))) \<and>
    conn_avail (tw_conn w') = snd (frames flen (conn_avail (tw_conn w))) \<and> conn_inv (tw_conn w')"
  using assms(5,6)
proof (induction "length (conn_avail (tw_conn w))" arbitrary: w rule: less_induct)
  case (less w)
  let ?a = "conn_avail (tw_conn w)"
  obtain w1 where w1: "user_step w w1"
      "unPacket w = (Returns (map_option (\<lambda>n. take n ?a) (flen ?a)), w1)"
      "conn_avail (tw_conn w1) = (case flen ?a of None \<Rightarrow> ?a | Some n \<Rightarrow> drop n ?a)"
    using u less.prems(1) by (rule unpacks_framesE)
  have log1: "tw_log w1 = tw_log w" "conn_inv (tw_conn w1)"
    using w1(1) less.prems(1) by (auto simp: user_step_def)
  show ?case
  proof (cases "flen ?a")
    case None
    with w1 less.prems(2) have "w' = w1" by (simp add: tcp_packets.simps)
    with None w1 log1 show ?thesis by (simp add: frames_None)
  next
    case (Some n)
    let ?n = "tw_note (Delivered (take n ?a)) w1"
    obtain out w2 where w2: "OnPacket (take n ?a) ?n = (Returns out, w2)" "user_step ?n w2"
        "conn_avail (tw_conn w2) = conn_avail (tw_conn ?n)"
      using g unfolding OnPacket_leaves_input_def by blast
    obtain r3 w3 where w3: "(if length out > 0 then tcp_write OnClose out w2 else (Returns (), w2)) = (r3, w3)"
      by fastforce
    have eq: "Some (Returns (), w') = (case r3 of Panics v \<Rightarrow> Some (Panics v, w3)
           | Returns _ \<Rightarrow> tcp_packets OnClose OnPacket unPacket w3)"
      using less.prems(2) w3 by (subst (asm) tcp_packets.simps)
        (auto simp: w1 Some w2 split: call.split if_splits)
    then have loop: "tcp_packets OnClose OnPacket unPacket w3 = Some (Returns (), w')"
      by (auto split: call.splits)
    have fr: "\<exists>q. call_frame w2 q w3"
      using tcp_write_frame [OF f, of w2 out] w3 by (metis call_frame_refl snd_conv)
    have con3: "connected w3"
    proof (rule ccontr)
      assume "\<not> connected w3"
      then obtain w4 where "unPacket w3 = (Returns None, w4)" "user_step w3 w4"
        using u unfolding unpacks_frames_def by blast
      with loop have "w' = w4" "connected w4 = connected w3"
        by (simp_all add: tcp_packets.simps user_step_def)
      with assms(7) \<open>\<not> connected w3\<close> show False by simp
    qed
    have av3: "conn_avail (tw_conn w3) = drop n ?a" "delivered w3 = delivered w @ [take n ?a]"
        "conn_inv (tw_conn w3)"
    proof -
      have wf: "write_frame w2 w3" using fr by (auto simp: call_frame_def)
      then show "conn_avail (tw_conn w3) = drop n ?a"
        using write_frame_avail [OF wf con3] w2(3) w1(3) Some by (simp add: tw_note_def)
      show "delivered w3 = delivered w @ [take n ?a]"
        using wf w2(2) log1 by (simp add: write_frame_def user_step_def tw_note_def)
      have "conn_inv (tw_conn w2)" using w2(2) log1 by (simp add: user_step_def tw_note_def)
      then show "conn_inv (tw_conn w3)" using wf con3 by (auto simp: write_frame_def conn_inv_def)
    qed
    have "0 < n" "n \<le> length ?a" using fl Some by (auto simp: flen_ok_def)
    with av3 less.hyps [of w3] loop Some fl show ?thesis
      by (auto simp: frames_Some split: prod.splits)
  qed
qed

subsection \<open>The stream seen between events\<close>

definition stream_ok :: "(bytes \<Rightarrow> nat option) \<Rightarrow> ('h, 'b, 'x, 'k, 'm) tcp_world_scheme \<Rightarrow> bool" where
  "stream_ok flen w \<longleftrightarrow>
     (connected w \<longrightarrow>
       (\<exists>ib. ci_inbound (tw_conn w) = Some ib \<and> frames flen (received w) = (delivered w, rb_contents ib)))"

lemma call_frame_stream: "call_frame w p w' \<Longrightarrow> stream_ok flen w \<Longrightarrow> stream_ok flen w'"
  by (auto simp: call_frame_def write_frame_def stream_ok_def)

lemma keep_contents:
  assumes "conn_inv (tw_conn w)" "fits (received w)" "length (conn_avail (tw_conn w)) \<le> length (received w)"
    and "on_conn (\<lambda>c. map_option (Pair ()) (conn_keep (ci_buffer c) c)) w = (r, w')"
  shows "tw_log w' = tw_log w \<and> (\<exists>ib. ci_inbound (tw_conn w') = Some ib \<and> rb_contents ib = conn_avail (tw_conn w))"
proof -
  obtain rb where rb: "ci_inbound (tw_conn w) = Some rb" "rb_inv rb"
    "conn_avail (tw_conn w) = rb_contents rb @ ci_buffer (tw_conn w)"
    using assms(1) by (rule conn_inv_cases)
  have "rb_room rb (length (ci_buffer (tw_conn w)))"
    using assms(2,3) rb(3) by (simp add: rb_room_def)
  then obtain n rb' where "rb_Write rb (ci_buffer (tw_conn w)) = Some (n, rb')"
    "rb_contents rb' = rb_contents rb @ ci_buffer (tw_conn w)"
    using rbq.write_law [OF rb(2)] by blast
  with rb assms(4) show ?thesis
    by (auto simp: on_conn_def conn_keep_def split: if_splits)
qed

lemma sys_read_stream:
  assumes "sys_read w = (Inl e, w1)" "stream_ok flen w"
  shows "stream_ok flen w1"
  using assms by (auto simp: sys_read_def stream_ok_def Let_def split: list.splits sum.splits)

lemma tcp_handleRead_stream:
  assumes f: "OnClose_ok OnClose" and g: "OnPacket_leaves_input OnPacket"
    and u: "unpacks_frames flen unPacket" and fl: "flen_ok flen"
    and inv: "tcp_inv w" and con: "connected w" and st: "stream_ok flen w"
    and res: "tcp_handleRead OnClose OnPacket unPacket w = Some (Returns (), w')"
    and fits: "fits (received w')"
  shows "stream_ok flen w'"
proof -
  obtain a w1 where sr: "sys_read w = (a, w1)" by fastforce
  have close: "stream_ok flen w'" if "tcp_handleClose OnClose fd v = (Returns (), w')"
      "connected v" "out_inv v" "fd = tc_fd (tw_conn v)" for v fd
    using tcp_handleClose_inv [OF f that(3,4)] that(1) by (auto simp: stream_ok_def closed_inv_def)
  have out: "out_inv w" using inv by (simp add: tcp_inv_def)
  have w1: "out_inv w1" "tw_conn w1 = tw_conn w"
    "received w1 = received w @ (case a of Inl e \<Rightarrow> [] | Inr p \<Rightarrow> p)"
    using sys_read_inv [OF out sr] by auto
  have "delivered w1 = delivered w"
    using sr by (auto simp: sys_read_def tw_note_def Let_def split: list.splits sum.splits)
  show ?thesis
  proof (cases "\<exists>p. a = Inr p \<and> p \<noteq> []")
    case False
    with sr res close [of "tc_fd (tw_conn w1)" w1] w1(1,2) con sys_read_stream [of w _ w1] st
    show ?thesis by (cases a) (auto simp: tcp_handleRead_def split: if_splits)
  next
    case True
    then obtain p where p: "a = Inr p" "p \<noteq> []" by blast
    let ?w2 = "w1\<lparr>tw_conn := (tw_conn w1)\<lparr>ci_buffer := p\<rparr>\<rparr>"
    have c1: "connected w1" using con w1(2) by simp
    have out2: "out_inv ?w2" using out_inv_buffer [OF c1 w1(1)] .
    have ci2: "conn_inv (tw_conn ?w2)"
      using out2 c1 by (auto elim!: out_inv_cases simp: open_inv_def)
    obtain ib where ib: "ci_inbound (tw_conn w) = Some ib" "frames flen (received w) = (delivered w, rb_contents ib)"
      using st con by (auto simp: stream_ok_def)
    have av2: "conn_avail (tw_conn ?w2) = rb_contents ib @ p"
      using w1(2) ib by (simp add: conn_avail_def)
    obtain r3 w3 where w3: "tcp_packets OnClose OnPacket unPacket ?w2 = Some (r3, w3)" "loop_frame ?w2 w3"
      using tcp_packets_inv [OF f leaves_input_ok [OF g] unpacks_frames_ok [OF u fl] ci2] by blast
    obtain r4 w4 where w4: "on_conn (\<lambda>c. map_option (Pair ()) (conn_keep (ci_buffer c) c)) w3 = (r4, w4)"
      by fastforce
    have r: "r3 = Returns ()" "w' = w4"
      using res sr p w3(1) w4 by (auto simp: tcp_handleRead_def split: call.splits)
    have log4: "tw_log w4 = tw_log w3" "connected w4 = connected w3"
      using w4 by (auto simp: on_conn_def conn_keep_def split: option.splits if_splits bind_splits)
    show ?thesis
    proof (cases "connected w3")
      case False
      with r log4 show ?thesis by (simp add: stream_ok_def)
    next
      case True
      have d: "delivered w3 = delivered w @ fst (frames flen (rb_contents ib @ p))"
        "conn_avail (tw_conn w3) = snd (frames flen (rb_contents ib @ p))" "conn_inv (tw_conn w3)"
        using tcp_packets_frames [OF f g u fl ci2 _ True] w3(1) r(1) av2 \<open>delivered w1 = delivered w\<close>
        by auto
      have rec: "received w3 = received w @ p" using w3(2) w1(3) p by (simp add: loop_frame_def)
      have le: "length (conn_avail (tw_conn w3)) \<le> length (received w3)"
        using w3(2) av2 inv ib w1(3) p by (auto simp: loop_frame_def tcp_inv_def)
      have "\<exists>ib'. ci_inbound (tw_conn w4) = Some ib' \<and> rb_contents ib' = conn_avail (tw_conn w3)"
        using keep_contents [OF d(3) _ le w4] fits r(2) log4 by simp
      with d rec log4 r(2) ib(2) frames_append [OF fl, of "received w" p] show ?thesis
        by (auto simp: stream_ok_def split: prod.splits)
    qed
  qed
qed

lemma tcp_Handle_stream:
  assumes f: "OnClose_ok OnClose" and g: "OnPacket_leaves_input OnPacket"
    and u: "unpacks_frames flen unPacket" and fl: "flen_ok flen"
    and inv: "tcp_inv w" and con: "connected w" and st: "stream_ok flen w"
    and res: "tcp_Handle OnClose OnPacket unPacket fd ev w = Some (Returns (), w')"
    and fits: "fits (received w')" and fd: "fd = tc_fd (tw_conn w)"
  shows "stream_ok flen w'"
proof -
  define v where
    "v = (if tw_idle w > 0 then w\<lparr>tw_conn := (tw_conn w)\<lparr>tc_activeTime := tw_now w div 1000000000\<rparr>\<rparr> else w)"
  have v: "tcp_inv v" "connected v" "stream_ok flen v" "fd = tc_fd (tw_conn v)"
    using tcp_inv_active [OF inv] inv con st fd by (auto simp: v_def stream_ok_def)
  have out: "out_inv v" using v(1) by (simp add: tcp_inv_def)
  then have op: "epoll_ctl_documented (tw_poll v)" "open_inv v"
    using v(2) by (auto elim: out_inv_cases)
  obtain ob where ob: "tc_outbound (tw_conn v) = Some ob" using op(2) by (rule open_outbound)
  have eq: "tcp_Handle OnClose OnPacket unPacket fd ev w =
      (if has_event ev EventErr then Some (tcp_handleClose OnClose fd v)
       else if \<not> rb_IsEmpty ob
       then (if has_event ev EventWrite then Some (tcp_handleWrite OnClose v) else Some (Returns (), v))
       else (if has_event ev EventRead then tcp_handleRead OnClose OnPacket unPacket v
             else Some (Returns (), v)))"
    using ob by (simp add: tcp_Handle_def v_def Let_def)
  have "stream_ok flen (snd (tcp_handleClose OnClose fd v))"
    using call_frame_stream [OF tcp_handleClose_frame [OF f] v(3)] .
  moreover have "\<not> rb_IsEmpty ob \<Longrightarrow> stream_ok flen (snd (tcp_handleWrite OnClose v))"
    using tcp_handleWrite_inv [OF f op ob] call_frame_stream [OF _ v(3)] by fastforce
  moreover have "tcp_handleRead OnClose OnPacket unPacket v = Some (Returns (), w') \<Longrightarrow> stream_ok flen w'"
    using tcp_handleRead_stream [OF f g u fl v(1,2,3) _ fits] .
  ultimately show ?thesis
    using res v(3) unfolding eq by (metis option.inject snd_conv)
qed

lemma tcp_job_frame:
  assumes "OnClose_ok OnClose"
  shows "\<exists>p. call_frame w p (snd (tcp_job_call OnClose j w))"
  using tcp_write_frame [OF assms, of w] tcp_handleClose_frame [OF assms, of w "tc_fd (tw_conn w)"]
  by (cases j) (force simp: tcp_job_call_def)+

end
