(* ===== verification/Tcp_Run.thy ===== *)
theory Tcp_Run
  imports Tcp_Stream
begin

text \<open>
  A TCP connection in its event loop: the poller delivers the events of its descriptor
  and wake-ups to \<open>handleEvent\<close>, which runs the connection's handler and then the queued
  jobs; other goroutines call Write and Close at any time in between.
\<close>

definition tcp_handler ::
  "(('h, 'b, 'x, 'k, 'm) tcp_world_scheme \<Rightarrow> unit call \<times> ('h, 'b, 'x, 'k, 'm) tcp_world_scheme) \<Rightarrow>
   (bytes \<Rightarrow> ('h, 'b, 'x, 'k, 'm) tcp_world_scheme \<Rightarrow> bytes call \<times> ('h, 'b, 'x, 'k, 'm) tcp_world_scheme) \<Rightarrow>
   (('h, 'b, 'x, 'k, 'm) tcp_world_scheme \<Rightarrow> bytes option call \<times> ('h, 'b, 'x, 'k, 'm) tcp_world_scheme) \<Rightarrow>
   'h \<Rightarrow> int \<Rightarrow> event \<Rightarrow> ('h, 'b, 'x, 'k, 'm) tcp_world_scheme \<Rightarrow>
   outcome \<times> ('h, 'b, 'x, 'k, 'm) tcp_world_scheme" where
  "tcp_handler OnClose OnPacket unPacket h fd ev w =
     tcp_outcome (the (tcp_Handle OnClose OnPacket unPacket fd ev w))"

definition tcp_exec ::
  "(('h, 'b, 'x, 'k, 'm) tcp_world_scheme \<Rightarrow> unit call \<times> ('h, 'b, 'x, 'k, 'm) tcp_world_scheme) \<Rightarrow>
   tcp_job \<Rightarrow> ('h, 'b, 'x, 'k, 'm) tcp_world_scheme \<Rightarrow> outcome \<times> ('h, 'b, 'x, 'k, 'm) tcp_world_scheme" where
  "tcp_exec OnClose j w = tcp_outcome (tcp_job_call OnClose j w)"

datatype tcp_input = Ready event | WokenUp | CallWrite bytes | CallClose | Tick int

fun tcp_step ::
  "(('h, 'b, 'x, 'k, 'm) tcp_world_scheme \<Rightarrow> unit call \<times> ('h, 'b, 'x, 'k, 'm) tcp_world_scheme) \<Rightarrow>
   (bytes \<Rightarrow> ('h, 'b, 'x, 'k, 'm) tcp_world_scheme \<Rightarrow> bytes call \<times> ('h, 'b, 'x, 'k, 'm) tcp_world_scheme) \<Rightarrow>
   (('h, 'b, 'x, 'k, 'm) tcp_world_scheme \<Rightarrow> bytes option call \<times> ('h, 'b, 'x, 'k, 'm) tcp_world_scheme) \<Rightarrow>
   tcp_input \<Rightarrow> ('h, 'b, 'x, 'k, 'm) tcp_world_scheme \<Rightarrow> bool \<times> ('h, 'b, 'x, 'k, 'm) tcp_world_scheme" where
  "tcp_step OnClose OnPacket unPacket (Ready ev) w =
     handleEvent (tcp_handler OnClose OnPacket unPacket) (tcp_exec OnClose) (tc_fd (tw_conn w)) ev w"
| "tcp_step OnClose OnPacket unPacket WokenUp w =
     handleEvent (tcp_handler OnClose OnPacket unPacket) (tcp_exec OnClose) (-1) 0 w"
| "tcp_step OnClose OnPacket unPacket (CallWrite p) w = (True, snd (tcp_Write p w))"
| "tcp_step OnClose OnPacket unPacket CallClose w = (True, snd (tcp_Close w))"
| "tcp_step OnClose OnPacket unPacket (Tick t) w = (True, snd (tcp_closeTimeoutConn (w\<lparr>tw_now := t\<rparr>)))"

fun tcp_run ::
  "(('h, 'b, 'x, 'k, 'm) tcp_world_scheme \<Rightarrow> unit call \<times> ('h, 'b, 'x, 'k, 'm) tcp_world_scheme) \<Rightarrow>
   (bytes \<Rightarrow> ('h, 'b, 'x, 'k, 'm) tcp_world_scheme \<Rightarrow> bytes call \<times> ('h, 'b, 'x, 'k, 'm) tcp_world_scheme) \<Rightarrow>
   (('h, 'b, 'x, 'k, 'm) tcp_world_scheme \<Rightarrow> bytes option call \<times> ('h, 'b, 'x, 'k, 'm) tcp_world_scheme) \<Rightarrow>
   tcp_input list \<Rightarrow> ('h, 'b, 'x, 'k, 'm) tcp_world_scheme \<Rightarrow> bool \<times> ('h, 'b, 'x, 'k, 'm) tcp_world_scheme" where
  "tcp_run OnClose OnPacket unPacket [] w = (True, w)"
| "tcp_run OnClose OnPacket unPacket (i # is) w =
     (case tcp_step OnClose OnPacket unPacket i w of
        (False, w1) \<Rightarrow> (False, w1)
      | (True, w1) \<Rightarrow> tcp_run OnClose OnPacket unPacket is w1)"

text \<open>Everything the connection has to buffer fits into the address space.\<close>

definition within :: "('h, 'b, 'x, 'k, 'm) tcp_world_scheme \<Rightarrow> bool" where
  "within w \<longleftrightarrow> fits (asked w) \<and> fits (received w)"

fun stays_within ::
  "(('h, 'b, 'x, 'k, 'm) tcp_world_scheme \<Rightarrow> unit call \<times> ('h, 'b, 'x, 'k, 'm) tcp_world_scheme) \<Rightarrow>
   (bytes \<Rightarrow> ('h, 'b, 'x, 'k, 'm) tcp_world_scheme \<Rightarrow> bytes call \<times> ('h, 'b, 'x, 'k, 'm) tcp_world_scheme) \<Rightarrow>
   (('h, 'b, 'x, 'k, 'm) tcp_world_scheme \<Rightarrow> bytes option call \<times> ('h, 'b, 'x, 'k, 'm) tcp_world_scheme) \<Rightarrow>
   tcp_input list \<Rightarrow> ('h, 'b, 'x, 'k, 'm) tcp_world_scheme \<Rightarrow> bool" where
  "stays_within OnClose OnPacket unPacket [] w = True"
| "stays_within OnClose OnPacket unPacket (i # is) w =
     (let w1 = snd (tcp_step OnClose OnPacket unPacket i w)
      in within w1 \<and> stays_within OnClose OnPacket unPacket is w1)"

subsection \<open>The loop's own fields do not matter to the connection\<close>

lemma tcp_inv_loop_fields [simp]:
  "tcp_inv (w\<lparr>el_eventHandling := b\<rparr>) = tcp_inv w"
  "tcp_inv (w\<lparr>el_jobs := js\<rparr>) = tcp_inv w"
  "tcp_inv (w\<lparr>el_wakes := n\<rparr>) = tcp_inv w"
  "tcp_inv (w\<lparr>tw_now := t\<rparr>) = tcp_inv w"
  "stream_ok flen (w\<lparr>el_eventHandling := b\<rparr>) = stream_ok flen w"
  "stream_ok flen (w\<lparr>el_jobs := js\<rparr>) = stream_ok flen w"
  "stream_ok flen (w\<lparr>el_wakes := n\<rparr>) = stream_ok flen w"
  "stream_ok flen (w\<lparr>tw_now := t\<rparr>) = stream_ok flen w"
  by (auto simp: tcp_inv_def out_inv_def open_inv_def closed_inv_def wr_ok_def watched_def stream_ok_def)

lemma event_frame_loop_fields [simp]:
  "event_frame w (w'\<lparr>el_eventHandling := b\<rparr>) = event_frame w w'"
  "event_frame w (w'\<lparr>el_jobs := js\<rparr>) = event_frame w w'"
  "event_frame (w\<lparr>el_eventHandling := b\<rparr>) w' = event_frame w w'"
  "event_frame (w\<lparr>el_jobs := js\<rparr>) w' = event_frame w w'"
  by (simp_all add: event_frame_def)

lemma tcp_inv_Trigger [simp]:
  "tcp_inv (Trigger j w) = tcp_inv w" "stream_ok flen (Trigger j w) = stream_ok flen w"
  by (simp_all add: Trigger_def Push_def Wake_def Let_def)

lemma connected_handler:
  "tcp_inv w \<Longrightarrow> connected w \<longleftrightarrow> el_handlers w (tc_fd (tw_conn w)) \<noteq> None"
  by (auto simp: tcp_inv_def open_inv_def closed_inv_def elim!: out_inv_cases)

subsection \<open>Jobs\<close>

lemma tcp_outcome_simps [simp]:
  "tcp_outcome (Returns x, w) = (Returned, w)" "tcp_outcome (Panics v, w) = (Panicked v, w)"
  by (simp_all add: tcp_outcome_def)

lemma run_jobs_frame:
  assumes f: "OnClose_ok OnClose"
  shows "event_frame w (snd (run_jobs (tcp_exec OnClose) js w))"
proof (induction js arbitrary: w)
  case (Cons j js)
  obtain r w1 where j: "tcp_job_call OnClose j w = (r, w1)" by fastforce
  then have "event_frame w w1"
    using tcp_job_frame [OF f, of w j] call_event_frame by fastforce
  with Cons.IH [of w1] j event_frame_trans show ?case
    by (cases r) (auto simp: tcp_exec_def)
qed simp

text \<open>
  A further invariant \<open>P\<close> of the connection that writes and closes keep, that does not
  depend on the loop's fields, and that the handler keeps when it ends well.
\<close>

definition kept_by_calls :: "(('h, 'b, 'x, 'k, 'm) tcp_world_scheme \<Rightarrow> bool) \<Rightarrow> bool" where
  "kept_by_calls P \<longleftrightarrow>
     (\<forall>v v' p. P v \<longrightarrow> call_frame v p v' \<longrightarrow> P v') \<and>
     (\<forall>v b. P (v\<lparr>el_eventHandling := b\<rparr>) = P v) \<and> (\<forall>v js. P (v\<lparr>el_jobs := js\<rparr>) = P v) \<and>
     (\<forall>v j. P (Trigger j v) = P v) \<and> (\<forall>v t. P (v\<lparr>tw_now := t\<rparr>) = P v)"

definition kept_by_handler ::
  "(('h, 'b, 'x, 'k, 'm) tcp_world_scheme \<Rightarrow> unit call \<times> ('h, 'b, 'x, 'k, 'm) tcp_world_scheme) \<Rightarrow>
   (bytes \<Rightarrow> ('h, 'b, 'x, 'k, 'm) tcp_world_scheme \<Rightarrow> bytes call \<times> ('h, 'b, 'x, 'k, 'm) tcp_world_scheme) \<Rightarrow>
   (('h, 'b, 'x, 'k, 'm) tcp_world_scheme \<Rightarrow> bytes option call \<times> ('h, 'b, 'x, 'k, 'm) tcp_world_scheme) \<Rightarrow>
   (('h, 'b, 'x, 'k, 'm) tcp_world_scheme \<Rightarrow> bool) \<Rightarrow> bool" where
  "kept_by_handler OnClose OnPacket unPacket P \<longleftrightarrow>
     (\<forall>v v' ev. tcp_inv v \<longrightarrow> connected v \<longrightarrow> P v \<longrightarrow>
       tcp_Handle OnClose OnPacket unPacket (tc_fd (tw_conn v)) ev v = Some (Returns (), v') \<longrightarrow>
       fits (received v') \<longrightarrow> P v')"

lemma kept_by_calls_fields:
  assumes "kept_by_calls P"
  shows "P v \<Longrightarrow> call_frame v p v' \<Longrightarrow> P v'"
    "P (v\<lparr>el_eventHandling := b\<rparr>) = P v" "P (v\<lparr>el_jobs := js\<rparr>) = P v"
    "P (Trigger j v) = P v" "P (v\<lparr>tw_now := t\<rparr>) = P v"
proof -
  note d = assms [unfolded kept_by_calls_def]
  note d2 = d [THEN conjunct2] and d3 = d [THEN conjunct2, THEN conjunct2]
  note d4 = d3 [THEN conjunct2]
  show "P v \<Longrightarrow> call_frame v p v' \<Longrightarrow> P v'" by (rule d [THEN conjunct1, rule_format])
  show "P (v\<lparr>el_eventHandling := b\<rparr>) = P v" by (rule d2 [THEN conjunct1, rule_format])
  show "P (v\<lparr>el_jobs := js\<rparr>) = P v" by (rule d3 [THEN conjunct1, rule_format])
  show "P (Trigger j v) = P v" by (rule d4 [THEN conjunct1, rule_format])
  show "P (v\<lparr>tw_now := t\<rparr>) = P v" by (rule d4 [THEN conjunct2, rule_format])
qed

lemma run_jobs_inv:
  assumes f: "OnClose_ok OnClose" and inv: "tcp_inv w"
    and keep: "kept_by_calls P" and "P w"
    and fits: "fits (asked (snd (run_jobs (tcp_exec OnClose) js w)))"
  shows "fst (run_jobs (tcp_exec OnClose) js w) = Returned \<and>
    tcp_inv (snd (run_jobs (tcp_exec OnClose) js w)) \<and> P (snd (run_jobs (tcp_exec OnClose) js w))"
  using inv \<open>P w\<close> fits
proof (induction js arbitrary: w)
  case (Cons j js)
  obtain r w1 where j: "tcp_job_call OnClose j w = (r, w1)" "event_frame w w1"
    "fits (asked w1) \<Longrightarrow> r = Returns () \<and> tcp_inv w1"
    using tcp_job_inv [OF f Cons.prems(1), of j] by blast
  have "P w1" using tcp_job_frame [OF f, of w j] kept_by_calls_fields(1) [OF keep Cons.prems(2)] j(1) by auto
  have ex: "tcp_exec OnClose j w = tcp_outcome (r, w1)" by (simp add: tcp_exec_def j)
  have "fits (asked w1)"
    using Cons.prems(3) ex event_frame_fits(1) [OF run_jobs_frame [OF f, of w1 js]]
    by (cases r) auto
  with j have "r = Returns ()" "tcp_inv w1" by auto
  with Cons.IH [of w1] \<open>P w1\<close> Cons.prems(3) ex show ?case by simp
qed simp

subsection \<open>One step\<close>

lemma handleEvent_tcp:
  assumes f: "OnClose_ok OnClose" and g: "OnPacket_ok OnPacket" and u: "unPacket_ok unPacket"
    and inv: "tcp_inv w" and P: "P w" and fd: "fd = tc_fd (tw_conn w) \<or> fd = -1"
    and keep: "kept_by_calls P" and handle: "kept_by_handler OnClose OnPacket unPacket P"
    and res: "handleEvent (tcp_handler OnClose OnPacket unPacket) (tcp_exec OnClose) fd ev w = (ok, w')"
    and within: "within w'"
  shows "ok \<and> tcp_inv w' \<and> P w'"
proof -
  note fields = kept_by_calls_fields(2,3) [OF keep]
  let ?w1 = "w\<lparr>el_eventHandling := True\<rparr>"
  obtain out w2 where w2: "(if fd \<noteq> -1 then (case el_handlers ?w1 fd of
       Some h \<Rightarrow> tcp_handler OnClose OnPacket unPacket h fd ev ?w1 | None \<Rightarrow> (Returned, ?w1))
     else (Returned, ?w1)) = (out, w2)" by fastforce
  have called: "out = Returned \<and> w2 = ?w1 \<or> (connected ?w1 \<and> fd = tc_fd (tw_conn ?w1) \<and>
      (out, w2) = tcp_outcome (the (tcp_Handle OnClose OnPacket unPacket fd ev ?w1)))"
    using w2 fd connected_handler [OF inv] by (auto simp: tcp_handler_def split: if_splits option.splits)
  have a: "event_frame w w2 \<and>
      (fits (asked w2) \<and> fits (received w2) \<longrightarrow> out = Returned \<and> tcp_inv w2 \<and> P w2)"
    using called
  proof
    assume c: "connected ?w1 \<and> fd = tc_fd (tw_conn ?w1) \<and>
      (out, w2) = tcp_outcome (the (tcp_Handle OnClose OnPacket unPacket fd ev ?w1))"
    have inv1: "tcp_inv ?w1" "P ?w1" using inv P fields by simp_all
    from c tcp_Handle_inv [OF f g u inv1(1), of fd ev] obtain r v where
      v: "tcp_Handle OnClose OnPacket unPacket fd ev ?w1 = Some (r, v)" "event_frame ?w1 v"
        "fits (asked v) \<and> fits (received v) \<longrightarrow> r = Returns () \<and> tcp_inv v" by blast
    from c v(1) have "w2 = v" "r = Returns () \<Longrightarrow> out = Returned" by (cases r; simp)+
    moreover have "P v" if "r = Returns ()" "fits (received v)"
      using handle inv1 c v(1) that unfolding kept_by_handler_def by blast
    ultimately show ?thesis using v by auto
  qed (use inv P fields in simp)
  obtain out3 w4 where w4: "ExecuteJobs (tcp_exec OnClose) (w2\<lparr>el_eventHandling := False\<rparr>) = (out3, w4)"
    by fastforce
  have eq: "handleEvent (tcp_handler OnClose OnPacket unPacket) (tcp_exec OnClose) fd ev w =
      (case out of Panicked v \<Rightarrow> (recovered v, w2)
       | _ \<Rightarrow> (case out3 of Panicked v \<Rightarrow> (recovered v, w4) | _ \<Rightarrow> (True, w4)))"
    unfolding handleEvent_def Let_def w2 w4 by (simp add: w4 split: outcome.split)
  have exec: "(out3, w4) = run_jobs (tcp_exec OnClose) (el_jobs w2) (w2\<lparr>el_eventHandling := False, el_jobs := []\<rparr>)"
    using w4 by (simp add: ExecuteJobs_def)
  have "event_frame w2 w4"
    using run_jobs_frame [OF f, of "w2\<lparr>el_eventHandling := False, el_jobs := []\<rparr>" "el_jobs w2"] exec
    by (metis event_frame_loop_fields(3,4) snd_conv)
  then have "fits (asked w2) \<and> fits (received w2)"
    using within res eq event_frame_fits [of w2 w4] unfolding within_def by (cases out; cases out3) auto
  with a have w2': "out = Returned" "tcp_inv w2" "P w2" by auto
  then have "fits (asked w4)" using within res eq unfolding within_def by (cases out3) auto
  then have "out3 = Returned \<and> tcp_inv w4 \<and> P w4"
    using run_jobs_inv [OF f _ keep, of "w2\<lparr>el_eventHandling := False, el_jobs := []\<rparr>" "el_jobs w2"]
    unfolding exec [symmetric] using w2' fields by simp
  with res eq w2' show ?thesis by simp
qed

lemma tcp_step_inv:
  assumes f: "OnClose_ok OnClose" and g: "OnPacket_ok OnPacket" and u: "unPacket_ok unPacket"
    and inv: "tcp_inv w" and P: "P w"
    and keep: "kept_by_calls P" and handle: "kept_by_handler OnClose OnPacket unPacket P"
    and res: "tcp_step OnClose OnPacket unPacket i w = (ok, w')" and within: "within w'"
  shows "ok \<and> tcp_inv w' \<and> P w'"
proof (cases i)
  case (Ready ev)
  with res have "handleEvent (tcp_handler OnClose OnPacket unPacket) (tcp_exec OnClose)
      (tc_fd (tw_conn w)) ev w = (ok, w')" by simp
  from handleEvent_tcp [OF f g u inv P _ keep handle this within] show ?thesis by simp
next
  case WokenUp
  with res have "handleEvent (tcp_handler OnClose OnPacket unPacket) (tcp_exec OnClose) (-1) 0 w = (ok, w')"
    by simp
  from handleEvent_tcp [OF f g u inv P _ keep handle this within] show ?thesis by simp
qed (use res inv P kept_by_calls_fields(4,5) [OF keep] in \<open>auto simp: tcp_Write_def tcp_Close_def tcp_closeTimeoutConn_def Let_def split: if_splits\<close>)

lemma tcp_run_inv:
  assumes f: "OnClose_ok OnClose" and g: "OnPacket_ok OnPacket" and u: "unPacket_ok unPacket"
    and inv: "tcp_inv w" and P: "P w"
    and keep: "kept_by_calls P" and handle: "kept_by_handler OnClose OnPacket unPacket P"
    and within: "stays_within OnClose OnPacket unPacket is w"
  shows "\<exists>w'. tcp_run OnClose OnPacket unPacket is w = (True, w') \<and> tcp_inv w' \<and> P w'"
  using inv P within
proof (induction "is" arbitrary: w)
  case (Cons i "is")
  obtain ok w1 where s: "tcp_step OnClose OnPacket unPacket i w = (ok, w1)" by fastforce
  with Cons.prems have "within w1" by (simp add: Let_def)
  from tcp_step_inv [OF f g u Cons.prems(1,2) keep handle s this]
  have "ok" "tcp_inv w1" "P w1" by auto
  with Cons s show ?case by (simp add: Let_def)
qed simp

end
