(* ===== verification/Kqueue.thy ===== *)
theory Kqueue
  imports Poller_Contract
begin

text \<open>
  pkg/limpoller/kqueue.go. The kernel's kevent is a parameter, carried in the state with
  the kernel state it works on; its documented behaviour (kevent(2)) is
  \<open>kevent_documented\<close>: a call that succeeds has applied its changes in order, EV_ADD
  adding and EV_DELETE removing the filter of the descriptor. The Poller keeps its own
  record \<open>sockets\<close> of the events registered per descriptor and computes from it which
  changes to submit.
\<close>

datatype kfilter = EVFILT_READ | EVFILT_WRITE
datatype kflag = EV_ADD | EV_DELETE

record kchange =
  kc_ident :: int
  kc_flags :: kflag
  kc_filter :: kfilter

record 'k kqueue_env =
  kq_kevent :: "kchange list \<Rightarrow> 'k \<Rightarrow> nat option \<times> 'k"
  kq_filters :: "'k \<Rightarrow> int \<Rightarrow> kfilter \<Rightarrow> bool"
  kq_kernel :: 'k
  kq_sockets :: "int \<Rightarrow> event option"

fun apply_changes :: "kchange list \<Rightarrow> (int \<Rightarrow> kfilter \<Rightarrow> bool) \<Rightarrow> int \<Rightarrow> kfilter \<Rightarrow> bool" where
  "apply_changes [] m = m"
| "apply_changes (c # cs) m =
     apply_changes cs
       (m(kc_ident c := (m (kc_ident c))(kc_filter c := (kc_flags c = EV_ADD))))"

definition kevent_spec ::
  "(kchange list \<Rightarrow> 'k \<Rightarrow> nat option \<times> 'k) \<Rightarrow> ('k \<Rightarrow> int \<Rightarrow> kfilter \<Rightarrow> bool) \<Rightarrow> bool" where
  "kevent_spec kevent filters \<longleftrightarrow>
     (\<forall>cs k k'. kevent cs k = (None, k') \<longrightarrow> filters k' = apply_changes cs (filters k))"

definition kevent_documented :: "'k kqueue_env \<Rightarrow> bool" where
  "kevent_documented s \<longleftrightarrow> kevent_spec (kq_kevent s) (kq_filters s)"

definition kq_kEvents :: "event \<Rightarrow> event \<Rightarrow> int \<Rightarrow> kchange list" where
  "kq_kEvents old new fd =
     (if has_event new EventRead
      then (if \<not> has_event old EventRead
            then [\<lparr>kc_ident = fd, kc_flags = EV_ADD, kc_filter = EVFILT_READ\<rparr>] else [])
      else (if has_event old EventRead
            then [\<lparr>kc_ident = fd, kc_flags = EV_DELETE, kc_filter = EVFILT_READ\<rparr>] else [])) @
     (if has_event new EventWrite
      then (if \<not> has_event old EventWrite
            then [\<lparr>kc_ident = fd, kc_flags = EV_ADD, kc_filter = EVFILT_WRITE\<rparr>] else [])
      else (if has_event old EventWrite
            then [\<lparr>kc_ident = fd, kc_flags = EV_DELETE, kc_filter = EVFILT_WRITE\<rparr>] else []))"

definition kq_submit ::
  "kchange list \<Rightarrow> 'k kqueue_env \<Rightarrow> poll_error option \<times> 'k kqueue_env" where
  "kq_submit cs s =
     (let (e, k) = kq_kevent s cs (kq_kernel s) in (map_option Errno e, s\<lparr>kq_kernel := k\<rparr>))"

definition kq_AddRead :: "int \<Rightarrow> 'k kqueue_env \<Rightarrow> poll_error option \<times> 'k kqueue_env" where
  "kq_AddRead fd s0 =
     (let s = s0\<lparr>kq_sockets := (kq_sockets s0)(fd := Some EventRead)\<rparr>
      in kq_submit (kq_kEvents EventNone EventRead fd) s)"

definition kq_Del :: "int \<Rightarrow> 'k kqueue_env \<Rightarrow> poll_error option \<times> 'k kqueue_env" where
  "kq_Del fd s =
     (case kq_sockets s fd of
        None \<Rightarrow> (Some SyncMapLoad, s)
      | Some v \<Rightarrow>
          (let (err, s') = kq_submit (kq_kEvents v EventNone fd) s
           in (err, if err \<noteq> None then s'\<lparr>kq_sockets := (kq_sockets s')(fd := None)\<rparr> else s')))"

text \<open>
  EnableReadWrite, EnableRead and EnableWrite differ in the new events only. The code
  stores the new events where the kernel call returned an error.
\<close>

definition kq_enable :: "event \<Rightarrow> int \<Rightarrow> 'k kqueue_env \<Rightarrow> poll_error option \<times> 'k kqueue_env" where
  "kq_enable newEvents fd s =
     (case kq_sockets s fd of
        None \<Rightarrow> (Some SyncMapLoad, s)
      | Some oldEvents \<Rightarrow>
          (let (err, s') = kq_submit (kq_kEvents oldEvents newEvents fd) s
           in (err, if err \<noteq> None
                    then s'\<lparr>kq_sockets := (kq_sockets s')(fd := Some newEvents)\<rparr> else s')))"

definition kq_EnableReadWrite :: "int \<Rightarrow> 'k kqueue_env \<Rightarrow> poll_error option \<times> 'k kqueue_env" where
  "kq_EnableReadWrite fd s = kq_enable (EventWrite OR EventRead) fd s"

definition kq_EnableRead :: "int \<Rightarrow> 'k kqueue_env \<Rightarrow> poll_error option \<times> 'k kqueue_env" where
  "kq_EnableRead fd s = kq_enable EventRead fd s"

definition kq_EnableWrite :: "int \<Rightarrow> 'k kqueue_env \<Rightarrow> poll_error option \<times> 'k kqueue_env" where
  "kq_EnableWrite fd s = kq_enable EventWrite fd s"

subsection \<open>The interests of a descriptor\<close>

text \<open>
  What the record says is registered, the kernel has registered: this holds after
  successful calls and is what lets the code leave a change out.
\<close>

definition kq_ok :: "'k kqueue_env \<Rightarrow> bool" where
  "kq_ok s \<longleftrightarrow> kevent_documented s \<and>
     (\<forall>fd ev. kq_sockets s fd = Some ev \<longrightarrow>
        (has_event ev EventRead \<longrightarrow> kq_filters s (kq_kernel s) fd EVFILT_READ) \<and>
        (has_event ev EventWrite \<longrightarrow> kq_filters s (kq_kernel s) fd EVFILT_WRITE))"

definition kq_rd :: "'k kqueue_env \<Rightarrow> int \<Rightarrow> bool" where
  "kq_rd s fd \<longleftrightarrow> kq_filters s (kq_kernel s) fd EVFILT_READ"

definition kq_wr :: "'k kqueue_env \<Rightarrow> int \<Rightarrow> bool" where
  "kq_wr s fd \<longleftrightarrow> kq_filters s (kq_kernel s) fd EVFILT_WRITE"

lemma event_flags [simp]:
  "has_event EventRead EventRead" "\<not> has_event EventRead EventWrite"
  "has_event (EventWrite OR EventRead) EventRead" "has_event (EventWrite OR EventRead) EventWrite"
  "\<not> has_event EventNone EventRead" "\<not> has_event EventNone EventWrite"
  by (simp_all add: has_event_def EventRead_def EventWrite_def EventNone_def)

lemma kq_submit_ok:
  assumes "kevent_documented s" "kq_submit cs s = (None, s')"
  shows "kevent_documented s'" "kq_sockets s' = kq_sockets s"
    "kq_filters s' (kq_kernel s') = apply_changes cs (kq_filters s (kq_kernel s))"
  using assms by (auto simp: kq_submit_def kevent_documented_def kevent_spec_def split: prod.splits)

lemma kq_enable_ok:
  assumes "kevent_documented s" "kq_enable new fd s = (None, s')"
  obtains old where "kq_sockets s fd = Some old" "kevent_documented s'" "kq_sockets s' = kq_sockets s"
    "kq_filters s' (kq_kernel s') =
       apply_changes (kq_kEvents old new fd) (kq_filters s (kq_kernel s))"
  using assms kq_submit_ok by (fastforce simp: kq_enable_def split: option.splits prod.splits)

interpretation kq: poller_base kq_ok kq_rd kq_wr kq_AddRead kq_EnableReadWrite
proof unfold_locales
  fix s s' :: "'a kqueue_env" and fd
  assume ok: "kq_ok s" and add: "kq_AddRead fd s = (None, s')"
  define s0 where "s0 = s\<lparr>kq_sockets := (kq_sockets s)(fd := Some EventRead)\<rparr>"
  have d: "kevent_documented s0" using ok by (simp add: s0_def kq_ok_def kevent_documented_def)
  have sub: "kq_submit [\<lparr>kc_ident = fd, kc_flags = EV_ADD, kc_filter = EVFILT_READ\<rparr>] s0 = (None, s')"
    using add by (simp add: kq_AddRead_def s0_def kq_kEvents_def Let_def)
  note r = kq_submit_ok [OF d sub]
  show "kq_ok s'" using r ok by (auto simp: kq_ok_def s0_def)
  show "kq_rd s' = (kq_rd s)(fd := True)" using r by (auto simp: kq_rd_def s0_def fun_eq_iff)
  show "\<not> kq_wr s fd \<Longrightarrow> kq_wr s' = kq_wr s" using r by (auto simp: kq_wr_def s0_def fun_eq_iff)
next
  fix s s' :: "'a kqueue_env" and fd
  assume ok: "kq_ok s" and en: "kq_EnableReadWrite fd s = (None, s')"
  then have d: "kevent_documented s" by (simp add: kq_ok_def)
  obtain old where r: "kq_sockets s fd = Some old" "kevent_documented s'"
    "kq_sockets s' = kq_sockets s" "kq_filters s' (kq_kernel s') =
       apply_changes (kq_kEvents old (EventWrite OR EventRead) fd) (kq_filters s (kq_kernel s))"
    using kq_enable_ok [OF d en [unfolded kq_EnableReadWrite_def]] by metis
  show "kq_ok s'" using r ok by (auto simp: kq_ok_def kq_kEvents_def)
  show "kq_rd s fd \<Longrightarrow> kq_rd s' = kq_rd s"
    using r ok by (auto simp: kq_rd_def kq_kEvents_def fun_eq_iff)
  show "kq_wr s' = (kq_wr s)(fd := True)"
    using r ok by (auto simp: kq_wr_def kq_ok_def kq_kEvents_def fun_eq_iff)
qed

subsection \<open>The wait loop\<close>

text \<open>
  The loop of kqueue.go has the shape of the epoll loop; the wake-up is the user event
  with identifier 0, and nothing is drained.
\<close>

definition EV_ERROR :: "16 word" where "EV_ERROR = 0x4000"
definition EV_EOF :: "16 word" where "EV_EOF = 0x8000"
definition kq_EINTR :: nat where "kq_EINTR = 4"

record kevent =
  ke_ident :: int
  ke_flags :: "16 word"
  ke_filter :: "kfilter option"

definition kq_translate :: "kevent \<Rightarrow> event" where
  "kq_translate ev =
     (let r0 = 0;
          r1 = (if ke_flags ev AND EV_ERROR \<noteq> 0 \<or> ke_flags ev AND EV_EOF \<noteq> 0
                then r0 OR EventErr else r0);
          r2 = (if ke_filter ev = Some EVFILT_WRITE then r1 OR EventWrite else r1);
          r3 = (if ke_filter ev = Some EVFILT_READ then r2 OR EventRead else r2)
      in r3)"

fun kq_batch ::
  "(int \<Rightarrow> event \<Rightarrow> 's \<Rightarrow> bool \<times> 's) \<Rightarrow> kevent list \<Rightarrow> bool \<Rightarrow> 's \<Rightarrow> bool \<times> bool \<times> 's" where
  "kq_batch handler [] wake s = (True, wake, s)"
| "kq_batch handler (ev # evs) wake s =
     (if ke_ident ev \<noteq> 0
      then (case handler (ke_ident ev) (kq_translate ev) s of
              (False, s') \<Rightarrow> (False, wake, s')
            | (True, s') \<Rightarrow> kq_batch handler evs wake s')
      else kq_batch handler evs True s)"

record kwait_result =
  kwait_err :: "nat option"
  kwait_events :: "kevent list"
  kwait_running :: bool

fun kq_Poll ::
  "(int \<Rightarrow> event \<Rightarrow> 's \<Rightarrow> bool \<times> 's) \<Rightarrow> nat \<Rightarrow> kwait_result list \<Rightarrow> 's \<Rightarrow> bool \<times> nat \<times> 's" where
  "kq_Poll handler buflen [] s = (False, buflen, s)"
| "kq_Poll handler buflen (w # ws) s =
     (if kwait_err w \<noteq> None \<and> kwait_err w \<noteq> Some kq_EINTR
      then kq_Poll handler buflen ws s
      else (let evs = (if kwait_err w = None then kwait_events w else []);
                buflen' = (if kwait_err w = None \<and> length evs = buflen then length evs * 2 else buflen)
            in case kq_batch handler evs False s of
                 (False, _, s1) \<Rightarrow> (True, buflen, s1)
               | (True, False, s1) \<Rightarrow> kq_Poll handler buflen' ws s1
               | (True, True, s1) \<Rightarrow>
                   (case handler (-1) 0 s1 of
                      (False, s2) \<Rightarrow> (True, buflen, s2)
                    | (True, s2) \<Rightarrow>
                        (if \<not> kwait_running w then (True, buflen, s2)
                         else kq_Poll handler buflen' ws s2))))"

end
