(* ===== verification/Poller_Props.thy ===== *)
theory Poller_Props
  imports Epoll Kqueue
begin

text \<open>
  The epoll loop hands every event of every round to the handler, once, in order and
  translated, coalesces any number of wake-ups of a round into one wake-up call after
  the round's events, skips failed waits, and ends exactly in the first round that held
  a wake-up with \<open>running\<close> cleared; for a handler whose panics do not escape and a
  wake-up read that touches only the kernel.
\<close>
theorem epoll_loop_delivers:
  assumes "\<And>fd ev s. fst (handler fd ev s)"
  shows "\<exists>buflen'. ep_Poll eventFd handler (\<lambda>s. s) buflen ws s =
    (fst (poll_calls eventFd ws), buflen', run_calls handler (snd (poll_calls eventFd ws)) s)"
proof (induction ws arbitrary: buflen s)
  case Nil
  then show ?case by simp
next
  case (Cons w ws)
  have h: "\<exists>s2. handler (-1) 0 s' = (True, s2)" for s'
    using assms [of "-1" 0 s'] by (cases "handler (-1) 0 s'") auto
  show ?case
  proof (cases "wait_err w \<noteq> None \<and> wait_err w \<noteq> Some EINTR")
    case True
    then have "round_calls eventFd w = []" "\<not> round_wakes eventFd w"
      by (auto simp: round_calls_def round_wakes_def round_events_def)
    with True Cons.IH show ?thesis by (cases "poll_calls eventFd ws") auto
  next
    case False
    let ?s1 = "run_calls handler (map (\<lambda>(fd, ev). (fd, ep_translate ev))
       (filter (\<lambda>(fd, ev). fd \<noteq> eventFd) (round_events w))) s"
    have b: "ep_batch eventFd handler (\<lambda>s. s) (round_events w) False s =
        (True, round_wakes eventFd w, ?s1)"
      using ep_batch_calls [OF assms] by (simp add: round_wakes_def)
    show ?thesis
    proof (cases "round_wakes eventFd w")
      case True
      obtain s2 where "handler (-1) 0 ?s1 = (True, s2)" using h by blast
      with True False b Cons.IH show ?thesis
        by (cases "poll_calls eventFd ws")
           (auto simp: Let_def round_events_def [symmetric] round_calls_def run_calls_append)
    next
      case nw: False
      with False b Cons.IH show ?thesis
        by (cases "poll_calls eventFd ws")
           (auto simp: Let_def round_events_def [symmetric] round_calls_def run_calls_append)
    qed
  qed
qed

definition log_call :: "int \<Rightarrow> event \<Rightarrow> (int \<times> event) list \<Rightarrow> bool \<times> (int \<times> event) list" where
  "log_call fd ev cs = (True, cs @ [(fd, ev)])"

definition poll_example :: "wait_result list" where
  "poll_example =
     [\<lparr>wait_err = None, wait_events = [(9, 1), (7, 4), (9, 1)], wait_running = True\<rparr>,
      \<lparr>wait_err = Some EINTR, wait_events = [], wait_running = True\<rparr>,
      \<lparr>wait_err = None, wait_events = [(9, 1), (8, 0x10)], wait_running = False\<rparr>]"

theorem epoll_loop_delivers_witness:
  "\<exists>buflen'. ep_Poll 9 log_call (\<lambda>s. s) 1024 poll_example [] =
     (True, buflen', [(7, EventWrite), (-1, 0), (8, EventErr), (-1, 0)])"
proof -
  have "fst (log_call fd ev cs)" for fd ev cs by (simp add: log_call_def)
  from epoll_loop_delivers [OF this, where eventFd = 9 and buflen = 1024 and ws = poll_example and s = "[]"] show ?thesis
    by (simp add: poll_example_def round_wakes_def round_calls_def round_events_def log_call_def
        ep_translate_def POLLHUP_def EPOLLIN_def EPOLLERR_def EPOLLOUT_def EPOLLPRI_def
        EPOLLRDHUP_def EventWrite_def EventErr_def EINTR_def)
qed

text \<open>
  Concrete kernels that behave as documented, for the witnesses: the kernel state is the
  interest list, and the set of filters.
\<close>

definition ep_example :: "(int \<Rightarrow> 32 word option) epoll_env" where
  "ep_example =
     \<lparr>ee_ctl = (\<lambda>op fd ev k.
        (case op of
           EPOLL_CTL_ADD \<Rightarrow> if k fd = None then (None, k(fd := Some ev)) else (Some 17, k)
         | EPOLL_CTL_MOD \<Rightarrow> if k fd = None then (Some 2, k) else (None, k(fd := Some ev))
         | EPOLL_CTL_DEL \<Rightarrow> if k fd = None then (Some 2, k) else (None, k(fd := None)))),
      ee_interest = (\<lambda>k. k), ee_kernel = (\<lambda>_. None)\<rparr>"

lemma ep_example_documented: "epoll_ctl_documented ep_example"
  unfolding epoll_ctl_documented_def ctl_documented_def
  by (auto simp: ep_example_def split: ctl_op.splits if_splits)

definition kq_example :: "(int \<Rightarrow> kfilter \<Rightarrow> bool) kqueue_env" where
  "kq_example =
     \<lparr>kq_kevent = (\<lambda>cs k. (None, apply_changes cs k)), kq_filters = (\<lambda>k. k),
      kq_kernel = (\<lambda>_ _. False), kq_sockets = (\<lambda>_. None)\<rparr>"

lemma kq_example_ok: "kq_ok kq_example"
  by (simp add: kq_ok_def kevent_documented_def kevent_spec_def kq_example_def)

text \<open>
  On epoll, registering a descriptor, watching it for output and then for input only
  (what a connection does when its output blocks and later drains) leaves it watched for
  input only, and leaves every other descriptor as it was; deleting it then removes it.
\<close>
theorem epoll_block_drain_delete:
  assumes "epoll_ctl_documented s" "\<not> ep_rd s fd" "\<not> ep_wr s fd"
    and "ep_AddRead fd s = (None, s1)" "ep_EnableReadWrite fd s1 = (None, s2)"
    and "ep_EnableRead fd s2 = (None, s3)" "ep_Del fd s3 = (None, s4)"
  shows "ep_rd s2 fd \<and> ep_wr s2 fd \<and> ep_rd s3 fd \<and> \<not> ep_wr s3 fd \<and>
    ep_rd s3 = (ep_rd s)(fd := True) \<and> ep_wr s3 = ep_wr s \<and> ep_rd s4 = ep_rd s \<and> ep_wr s4 = ep_wr s"
proof -
  have s1: "epoll_ctl_documented s1" "ep_rd s1 = (ep_rd s)(fd := True)" "ep_wr s1 = ep_wr s"
    using ep.add_ok [OF assms(1,4)] ep.add_rd [OF assms(1,4)] ep.add_wr [OF assms(1,4,3)] by simp_all
  have s2: "ep_rd s2 fd" "ep_wr s2 fd" "epoll_ctl_documented s2"
    using ep.add_then_block [OF assms(1,4,5)] by simp_all
  have s3: "ep_rd s3 = ep_rd s1" "ep_wr s3 = ep_wr s1"
    using ep.block_then_drain [OF s1(1) _ _ assms(5,6)] s1 assms(3) by simp_all
  have "epoll_ctl_documented s3" using ep.enr_ok [OF s2(3) assms(6)] .
  then have "ep_rd s4 = (ep_rd s3)(fd := False)" "ep_wr s4 = (ep_wr s3)(fd := False)"
    using ep.del_rd ep.del_wr assms(7) by blast+
  with s1 s2 s3 assms(2,3) show ?thesis by (auto simp: fun_upd_idem_iff)
qed

theorem epoll_block_drain_delete_witness:
  "\<exists>s1 s2 s3 s4. ep_AddRead 5 ep_example = (None, s1) \<and> ep_EnableReadWrite 5 s1 = (None, s2) \<and>
     ep_EnableRead 5 s2 = (None, s3) \<and> ep_Del 5 s3 = (None, s4) \<and> ep_wr s2 5 \<and> \<not> ep_wr s3 5"
proof -
  define s1 where "s1 = snd (ep_AddRead 5 ep_example)"
  define s2 where "s2 = snd (ep_EnableReadWrite 5 s1)"
  define s3 where "s3 = snd (ep_EnableRead 5 s2)"
  define s4 where "s4 = snd (ep_Del 5 s3)"
  have run: "ep_AddRead 5 ep_example = (None, s1)" "ep_EnableReadWrite 5 s1 = (None, s2)"
    "ep_EnableRead 5 s2 = (None, s3)" "ep_Del 5 s3 = (None, s4)"
    by (simp_all add: s1_def s2_def s3_def s4_def ep_ops ep_ctl_def ep_example_def)
  have "\<not> ep_rd ep_example 5" "\<not> ep_wr ep_example 5"
    by (simp_all add: ep_rd_def ep_wr_def ep_example_def)
  from epoll_block_drain_delete [OF ep_example_documented this run] run show ?thesis by blast
qed

text \<open>
  C38. On kqueue the same successful calls leave the descriptor watched for output for
  ever: EnableReadWrite does not record the new events when the kernel call succeeds, so
  neither EnableRead nor Del later submits the removal of the write filter. The full
  contract that epoll satisfies does not hold for kqueue.
\<close>
theorem kqueue_write_filter_never_removed:
  assumes "kq_ok s"
    and "kq_AddRead fd s = (None, s1)" "kq_EnableReadWrite fd s1 = (None, s2)"
    and "kq_EnableRead fd s2 = (None, s3)" "kq_Del fd s3 = (None, s4)"
  shows "kq_wr s2 fd \<and> kq_wr s3 fd \<and> kq_wr s4 fd \<and> \<not> kq_rd s4 fd"
proof -
  have s2: "kq_ok s2" "kq_wr s2 fd" using kq.add_then_block [OF assms(1-3)] by simp_all
  have doc: "kevent_documented t" if "kq_ok t" for t using that by (simp add: kq_ok_def)
  have s1: "kq_ok s1" "kq_sockets s1 fd = Some EventRead"
    using kq.add_ok [OF assms(1,2)] kq_submit_ok(2) [of "s\<lparr>kq_sockets := (kq_sockets s)(fd := Some EventRead)\<rparr>"]
      assms(1,2) by (auto simp: kq_AddRead_def Let_def kq_ok_def kevent_documented_def)
  obtain e2 where k2: "kq_sockets s1 fd = Some e2" "kq_sockets s2 = kq_sockets s1"
    using kq_enable_ok [OF doc [OF s1(1)] assms(3) [unfolded kq_EnableReadWrite_def]] by metis
  obtain e3 where k3: "kq_sockets s2 fd = Some e3" "kevent_documented s3" "kq_sockets s3 = kq_sockets s2"
    "kq_filters s3 (kq_kernel s3) = apply_changes (kq_kEvents e3 EventRead fd) (kq_filters s2 (kq_kernel s2))"
    using kq_enable_ok [OF doc [OF s2(1)] assms(4) [unfolded kq_EnableRead_def]] by metis
  have e3: "e3 = EventRead" using k2 k3 s1 by simp
  have "kq_sockets s3 fd = Some EventRead" using k2 k3 s1 by simp
  then have "kq_submit (kq_kEvents EventRead EventNone fd) s3 = (None, s4)"
    using assms(5) by (auto simp: kq_Del_def split: prod.splits)
  from kq_submit_ok(3) [OF k3(2) this] s2 k3(4) e3 show ?thesis
    by (simp add: kq_wr_def kq_rd_def kq_kEvents_def)
qed

theorem kqueue_write_filter_never_removed_witness:
  "\<exists>s1 s2 s3 s4. kq_AddRead 5 kq_example = (None, s1) \<and> kq_EnableReadWrite 5 s1 = (None, s2) \<and>
     kq_EnableRead 5 s2 = (None, s3) \<and> kq_Del 5 s3 = (None, s4) \<and> kq_wr s4 5"
proof -
  define s1 where "s1 = snd (kq_AddRead 5 kq_example)"
  define s2 where "s2 = snd (kq_EnableReadWrite 5 s1)"
  define s3 where "s3 = snd (kq_EnableRead 5 s2)"
  define s4 where "s4 = snd (kq_Del 5 s3)"
  have run: "kq_AddRead 5 kq_example = (None, s1)" "kq_EnableReadWrite 5 s1 = (None, s2)"
    "kq_EnableRead 5 s2 = (None, s3)" "kq_Del 5 s3 = (None, s4)"
    by (simp_all add: s1_def s2_def s3_def s4_def kq_AddRead_def kq_EnableReadWrite_def
        kq_EnableRead_def kq_Del_def kq_enable_def kq_submit_def kq_example_def Let_def)
  from kqueue_write_filter_never_removed [OF kq_example_ok run] run show ?thesis by blast
qed

end
