(* ===== verification/Tcp_Props.thy ===== *)
theory Tcp_Props
  imports Tcp_Run Poller_Props
begin

text \<open>
  The properties of the TCP connection, with a length-prefixed protocol and an echo
  server for the witnesses.
\<close>

subsection \<open>UnPacket functions\<close>

lemma on_conn_step:
  assumes "f (tw_conn w) = Some (x, c)" "conn_rest c = conn_rest (tw_conn w)"
    "conn_inv (tw_conn w)" "conn_inv c" "length (conn_avail c) \<le> length (conn_avail (tw_conn w))"
  shows "on_conn f w = (Returns x, w\<lparr>tw_conn := c\<rparr>)" "user_step w (w\<lparr>tw_conn := c\<rparr>)"
proof -
  show "on_conn f w = (Returns x, w\<lparr>tw_conn := c\<rparr>)" using assms(1) by (simp add: on_conn_def)
  have "tc_fd c = tc_fd (tw_conn w)" "tc_outbound c = tc_outbound (tw_conn w)"
    using assms(2) by (cases c; cases "tw_conn w"; simp add: conn_rest_def)+
  with assms show "user_step w (w\<lparr>tw_conn := c\<rparr>)"
    by (auto simp: user_step_def conn_inv_def)
qed

lemma user_step_trans: "user_step w w1 \<Longrightarrow> user_step w1 w2 \<Longrightarrow> user_step w w2"
  by (auto simp: user_step_def)

lemma closed_Read: "\<not> connected w \<Longrightarrow> on_conn (conn_Read A) w = (Returns [], w)"
  by (simp add: on_conn_def conn_Read_def)

lemma default_unPacket_ok:
  fixes A :: "'b bb_api"
  assumes A: "bb_laws A"
  shows "unPacket_ok (default_unPacket A :: ('h, 'b, 'x, 'k, 'm) tcp_world_scheme \<Rightarrow> _)"
  unfolding unPacket_ok_def
proof (intro conjI allI impI)
  fix w :: "('h, 'b, 'x, 'k, 'm) tcp_world_scheme"
  assume inv: "conn_inv (tw_conn w)"
  obtain c1 where c1: "conn_Read A (tw_conn w) = Some (conn_avail (tw_conn w), c1)" "conn_inv c1"
    "conn_avail c1 = conn_avail (tw_conn w)" "conn_rest c1 = conn_rest (tw_conn w)"
    using ci.Read_law [of A "tw_conn w"] A inv by auto
  let ?w1 = "w\<lparr>tw_conn := c1\<rparr>"
  have r1: "on_conn (conn_Read A) w = (Returns (conn_avail (tw_conn w)), ?w1)" "user_step w ?w1"
    using on_conn_step [where f = "conn_Read A", OF c1(1,4) inv c1(2)] c1(3) by simp_all
  show "\<exists>r w'. default_unPacket A w = (Returns r, w') \<and> user_step w w' \<and>
      (r \<noteq> None \<longrightarrow> length (conn_avail (tw_conn w')) < length (conn_avail (tw_conn w)))"
  proof (cases "conn_avail (tw_conn w) = []")
    case True
    with r1 show ?thesis by (auto simp: default_unPacket_def)
  next
    case False
    obtain c2 where c2: "conn_ResetBuffer c1 = Some c2" "conn_inv c2" "conn_avail c2 = []"
      "conn_rest c2 = conn_rest c1"
      using conn_ResetBuffer_correct [OF c1(2)] by blast
    have "on_conn (\<lambda>c. map_option (Pair ()) (conn_ResetBuffer c)) ?w1 = (Returns (), ?w1\<lparr>tw_conn := c2\<rparr>)"
      "user_step ?w1 (?w1\<lparr>tw_conn := c2\<rparr>)"
      using on_conn_step [of "\<lambda>c. map_option (Pair ()) (conn_ResetBuffer c)" ?w1 "()" c2] c1 c2 by simp_all
    with r1 False c2 user_step_trans [OF r1(2)] show ?thesis
      by (auto simp: default_unPacket_def)
  qed
next
  fix w :: "('h, 'b, 'x, 'k, 'm) tcp_world_scheme"
  assume "\<not> connected w"
  then show "\<exists>w'. default_unPacket A w = (Returns None, w') \<and> user_step w w'"
    by (simp add: default_unPacket_def closed_Read)
qed

text \<open>A packet is a length byte and that many bytes; the protocol looks, then takes.\<close>

definition len_frame :: "bytes \<Rightarrow> nat option" where
  "len_frame xs =
     (case xs of
        [] \<Rightarrow> None
      | b # _ \<Rightarrow> (if Suc (unat b) \<le> length xs then Some (Suc (unat b)) else None))"

definition len_unPacket ::
  "'b bb_api \<Rightarrow> ('h, 'b, 'x, 'k, 'm) tcp_world_scheme \<Rightarrow>
   bytes option call \<times> ('h, 'b, 'x, 'k, 'm) tcp_world_scheme" where
  "len_unPacket A w =
     (case on_conn (conn_Read A) w of
        (Panics v, w1) \<Rightarrow> (Panics v, w1)
      | (Returns buf, w1) \<Rightarrow>
          (case len_frame buf of
             None \<Rightarrow> (Returns None, w1)
           | Some n \<Rightarrow>
               (case on_conn (\<lambda>c. map_option (\<lambda>(_, p, c'). (p, c')) (conn_ReadN A (int n) c)) w1 of
                  (Panics v, w2) \<Rightarrow> (Panics v, w2)
                | (Returns p, w2) \<Rightarrow>
                    (case on_conn (conn_ShiftN (int n)) w2 of
                       (Panics v, w3) \<Rightarrow> (Panics v, w3)
                     | (Returns _, w3) \<Rightarrow> (Returns (Some p), w3)))))"

lemma len_frame_ok: "flen_ok len_frame"
  by (auto simp: flen_ok_def len_frame_def split: list.splits if_splits)

lemma len_unPacket_frames:
  fixes A :: "'b bb_api"
  assumes A: "bb_laws A"
  shows "unpacks_frames len_frame (len_unPacket A :: ('h, 'b, 'x, 'k, 'm) tcp_world_scheme \<Rightarrow> _)"
  unfolding unpacks_frames_def
proof (intro conjI allI impI)
  fix w :: "('h, 'b, 'x, 'k, 'm) tcp_world_scheme"
  assume inv: "conn_inv (tw_conn w)"
  let ?a = "conn_avail (tw_conn w)"
  obtain c1 where c1: "conn_Read A (tw_conn w) = Some (?a, c1)" "conn_inv c1"
    "conn_avail c1 = ?a" "conn_rest c1 = conn_rest (tw_conn w)"
    using ci.Read_law [of A "tw_conn w"] A inv by auto
  let ?w1 = "w\<lparr>tw_conn := c1\<rparr>"
  have r1: "on_conn (conn_Read A) w = (Returns ?a, ?w1)" "user_step w ?w1"
    using on_conn_step [where f = "conn_Read A", OF c1(1,4) inv c1(2)] c1(3) by simp_all
  show "\<exists>w'. user_step w w' \<and>
      len_unPacket A w = (Returns (map_option (\<lambda>n. take n ?a) (len_frame ?a)), w') \<and>
      conn_avail (tw_conn w') = (case len_frame ?a of None \<Rightarrow> ?a | Some n \<Rightarrow> drop n ?a)"
  proof (cases "len_frame ?a")
    case None
    with r1 c1 show ?thesis by (auto simp: len_unPacket_def)
  next
    case (Some n)
    then have n: "read_size (int n) ?a = n"
      using len_frame_ok by (auto simp: flen_ok_def)
    obtain c2 where c2: "conn_ReadN A (int n) c1 = Some (int n, take n ?a, c2)" "conn_inv c2"
      "conn_avail c2 = ?a" "conn_rest c2 = conn_rest c1"
      using ci.ReadN_law [of A c1 "int n"] A c1 n by auto
    let ?w2 = "?w1\<lparr>tw_conn := c2\<rparr>"
    have r2: "on_conn (\<lambda>c. map_option (\<lambda>(_, p, c'). (p, c')) (conn_ReadN A (int n) c)) ?w1 =
        (Returns (take n ?a), ?w2)" "user_step ?w1 ?w2"
      using on_conn_step [of "\<lambda>c. map_option (\<lambda>(_, p, c'). (p, c')) (conn_ReadN A (int n) c)" ?w1
          "take n ?a" c2] c1 c2 by simp_all
    obtain c3 where c3: "conn_ShiftN (int n) c2 = Some (int n, c3)" "conn_inv c3"
      "conn_avail c3 = drop n ?a" "conn_rest c3 = conn_rest c2"
      using conn_ShiftN_correct [OF c2(2), of "int n"] c2(3) n by auto
    let ?w3 = "?w2\<lparr>tw_conn := c3\<rparr>"
    have r3: "on_conn (conn_ShiftN (int n)) ?w2 = (Returns (int n), ?w3)" "user_step ?w2 ?w3"
      using on_conn_step [of "conn_ShiftN (int n)" ?w2 "int n" c3] c2 c3 by simp_all
    have "user_step w ?w3" using r1(2) r2(2) r3(2) user_step_trans by blast
    with r1(1) r2(1) r3(1) Some c3(3) show ?thesis by (auto simp: len_unPacket_def)
  qed
next
  fix w :: "('h, 'b, 'x, 'k, 'm) tcp_world_scheme"
  assume "\<not> connected w"
  then show "\<exists>w'. len_unPacket A w = (Returns None, w') \<and> user_step w w'"
    by (simp add: len_unPacket_def closed_Read len_frame_def)
qed

definition echo :: "bytes \<Rightarrow> ('h, 'b, 'x, 'k, 'm) tcp_world_scheme \<Rightarrow> bytes call \<times> ('h, 'b, 'x, 'k, 'm) tcp_world_scheme" where
  "echo p w = (Returns p, w)"

definition no_close :: "('h, 'b, 'x, 'k, 'm) tcp_world_scheme \<Rightarrow> unit call \<times> ('h, 'b, 'x, 'k, 'm) tcp_world_scheme" where
  "no_close w = (Returns (), w)"

lemma callbacks_ok: "OnPacket_ok echo" "OnPacket_leaves_input echo" "OnClose_ok no_close"
  by (simp_all add: OnPacket_ok_def OnPacket_leaves_input_def OnClose_ok_def echo_def no_close_def)

subsection \<open>A connection for the witnesses\<close>

definition ring8 :: ring_buffer where
  "ring8 = \<lparr>rb_buf = [0, 0, 0, 0, 0, 0, 0, 0], rb_size = 8, rb_mask = 7, rb_r = 6, rb_w = 6, rb_isEmpty = True\<rparr>"

definition tcp_example ::
  "(nat + bytes) list \<Rightarrow> (nat + nat) list \<Rightarrow> (unit, bytes, unit, int \<Rightarrow> 32 word option) tcp_world" where
  "tcp_example rs ws =
     snd (tcp_BindHandler 7 ()
       \<lparr>el_jobs = [], el_handlers = (\<lambda>_. None), el_eventHandling = False, el_wakes = 0,
        tw_conn = NewTCPConn 1 7 ''10.0.0.1:4000'' ring8 ring8 0 0, tw_poll = ep_example,
        tw_reads = rs, tw_writes = ws, tw_idle = 0, tw_now = 0, tw_log = []\<rparr>)"

lemma ring8: "rb_inv ring8" "rb_contents ring8 = []"
  by (simp_all add: rb_inv_def rb_contents_def ring8_def is_pow2_def)
     (rule bexI [of _ 3], simp_all)

lemma ring8_example:
  "tc_outbound (tw_conn (tcp_example rs ws)) = Some ring8" "ci_inbound (tw_conn (tcp_example rs ws)) = Some ring8"
  "connected (tcp_example rs ws)" "tw_log (tcp_example rs ws) = []" "tc_fd (tw_conn (tcp_example rs ws)) = 7"
  "tw_reads (tcp_example rs ws) = rs" "tw_writes (tcp_example rs ws) = ws" "tw_idle (tcp_example rs ws) = 0"
  "el_handlers (tcp_example rs ws) 7 = Some ()" "el_jobs (tcp_example rs ws) = []"
  "ci_buffer (tw_conn (tcp_example rs ws)) = []"
  by (auto simp: tcp_example_def tcp_BindHandler_def ep_AddRead_def ep_add_def ep_ctl_def ep_example_def
      BindHandler_def NewTCPConn_def)

lemma frames_Nil: "frames flen [] = ([], [])"
  by (cases "flen []") (auto simp: frames.simps)

lemma fresh_inv:
  assumes "rb_inv rb1" "rb_inv rb2" "rb_contents rb1 = []" "rb_contents rb2 = []"
    and "epoll_ctl_documented (tw_poll w)" "ee_interest (tw_poll w) (ee_kernel (tw_poll w)) fd = None"
    and "tw_conn w = NewTCPConn i fd addr rb1 rb2 idle now" "tw_log w = []"
    and "tcp_BindHandler fd h w = (None, w')"
  shows "tcp_inv w' \<and> stream_ok flen w' \<and> connected w' \<and> watched w'"
proof -
  obtain p where p: "ep_AddRead fd (tw_poll w) = (None, p)" "tw_poll w' = p" "tw_conn w' = tw_conn w"
    "tw_log w' = tw_log w" "el_handlers w' fd = Some h"
    using assms(9) by (auto simp: tcp_BindHandler_def BindHandler_def Let_def split: prod.splits option.splits)
  have nw: "\<not> ep_wr (tw_poll w) fd" using assms(6) interest_rd_wr by blast
  have "epoll_ctl_documented p" "ep_rd p fd" "\<not> ep_wr p fd"
    using ep.add_ok [OF assms(5) p(1)] ep.add_rd [OF assms(5) p(1)] ep.add_wr [OF assms(5) p(1) nw] nw
    by simp_all
  moreover from this have "watched w'" using p assms(7) by (intro watched_rd) (simp add: NewTCPConn_def)
  ultimately show ?thesis
    using p assms by (auto simp: tcp_inv_def out_inv_def open_inv_def conn_inv_def wr_ok_def
        stream_ok_def NewTCPConn_def frames_Nil)
qed

definition tcp_unbound ::
  "(nat + bytes) list \<Rightarrow> (nat + nat) list \<Rightarrow> (unit, bytes, unit, int \<Rightarrow> 32 word option) tcp_world" where
  "tcp_unbound rs ws =
     \<lparr>el_jobs = [], el_handlers = (\<lambda>_. None), el_eventHandling = False, el_wakes = 0,
      tw_conn = NewTCPConn 1 7 ''10.0.0.1:4000'' ring8 ring8 0 0, tw_poll = ep_example,
      tw_reads = rs, tw_writes = ws, tw_idle = 0, tw_now = 0, tw_log = []\<rparr>"

lemma tcp_unbound_bind:
  "tcp_BindHandler 7 () (tcp_unbound rs ws) = (None, tcp_example rs ws)"
  by (simp add: tcp_example_def tcp_unbound_def tcp_BindHandler_def ep_AddRead_def ep_add_def ep_ctl_def
      ep_example_def BindHandler_def)

lemma tcp_unbound_fresh:
  "epoll_ctl_documented (tw_poll (tcp_unbound rs ws))"
  "ee_interest (tw_poll (tcp_unbound rs ws)) (ee_kernel (tw_poll (tcp_unbound rs ws))) 7 = None"
  "tw_conn (tcp_unbound rs ws) = NewTCPConn 1 7 ''10.0.0.1:4000'' ring8 ring8 0 0" "tw_log (tcp_unbound rs ws) = []"
  by (simp_all add: tcp_unbound_def ep_example_documented) (simp add: ep_example_def)

lemma tcp_example_inv:
  "tcp_inv (tcp_example rs ws)" "stream_ok flen (tcp_example rs ws)" "watched (tcp_example rs ws)"
  using fresh_inv [OF ring8(1) ring8(1) ring8(2) ring8(2) tcp_unbound_fresh tcp_unbound_bind] by blast+

text \<open>
  C2. Whatever the socket answers to reads and writes, in whatever order events, wake-ups,
  timer ticks and calls of Write and Close come, and whatever the callbacks do with the
  connection's input and user fields: no call panics; what the kernel has accepted is
  always a prefix of everything asked to be written, in order; while the connection is
  open the rest of it is in the outbound buffer, watched for writing if there is any;
  once it is closed, the descriptor was removed from the poller, OnClose called and the
  descriptor closed, each once and in this order, and the buffers are released.
\<close>
theorem tcp_connection_correct:
  assumes "OnClose_ok OnClose" "OnPacket_ok OnPacket" "unPacket_ok unPacket" "tcp_inv w"
    and "stays_within OnClose OnPacket unPacket is w"
  shows "\<exists>w'. tcp_run OnClose OnPacket unPacket is w = (True, w') \<and> tcp_inv w' \<and>
    prefix (accepted w') (asked w') \<and>
    (connected w' \<longrightarrow> log_closing (tw_log w') = [] \<and>
      (\<exists>ob. tc_outbound (tw_conn w') = Some ob \<and> accepted w' @ rb_contents ob = asked w' \<and>
        (rb_contents ob \<noteq> [] \<longrightarrow> ep_wr (tw_poll w') (tc_fd (tw_conn w'))))) \<and>
    (\<not> connected w' \<longrightarrow> ci_inbound (tw_conn w') = None \<and> tc_outbound (tw_conn w') = None \<and> \<not> watched w' \<and>
      log_closing (tw_log w') =
        [PollDeleted (tc_fd (tw_conn w')), OnCloseCalled, FdClosed (tc_fd (tw_conn w'))])"
proof -
  obtain w' where w': "tcp_run OnClose OnPacket unPacket is w = (True, w')" "tcp_inv w'"
    using tcp_run_inv [OF assms(1-4), of "\<lambda>_. True" "is"] assms(5)
    by (auto simp: kept_by_calls_def kept_by_handler_def)
  then have "out_inv w'" by (simp add: tcp_inv_def)
  then show ?thesis
  proof (cases rule: out_inv_cases)
    case opened
    from opened(2) open_closable(4) obtain ob where "tc_outbound (tw_conn w') = Some ob"
      "wr_ok w' (rb_contents ob)" "accepted w' @ rb_contents ob = asked w'"
      by (auto elim: open_outbound)
    with opened w' open_closable show ?thesis by (auto simp: wr_ok_def)
  next
    case closed
    with w' show ?thesis by (auto simp: closed_inv_def)
  qed
qed

text \<open>
  Five bytes are asked for, the kernel takes two; later it reports room and takes the
  rest; then another write fails.
\<close>

definition tcp_schedule :: "tcp_input list" where
  "tcp_schedule = [CallWrite [1, 2, 3, 4, 5], WokenUp, Ready EventWrite, CallWrite [6], WokenUp]"

lemma tcp_schedule_within:
  "stays_within no_close echo (len_unPacket bb_list) tcp_schedule (tcp_example [] [Inr 2, Inr 3, Inr 1, Inl 104])"
  by code_simp

theorem tcp_connection_correct_witness:
  "\<exists>w'. tcp_run no_close echo (len_unPacket bb_list) tcp_schedule (tcp_example [] [Inr 2, Inr 3, Inr 1, Inl 104]) =
      (True, w') \<and> tcp_inv w' \<and> accepted w' = [1, 2, 3, 4, 5] \<and> asked w' = [1, 2, 3, 4, 5, 6] \<and> \<not> connected w'"
proof -
  let ?r = "tcp_run no_close echo (len_unPacket bb_list) tcp_schedule (tcp_example [] [Inr 2, Inr 3, Inr 1, Inl 104])"
  have "accepted (snd ?r) = [1, 2, 3, 4, 5] \<and> asked (snd ?r) = [1, 2, 3, 4, 5, 6] \<and> \<not> connected (snd ?r)"
    by code_simp
  with tcp_connection_correct [OF callbacks_ok(3,1) unpacks_frames_ok [OF len_unPacket_frames [OF bb_list_laws] len_frame_ok]
      tcp_example_inv(1) tcp_schedule_within]
  show ?thesis by auto
qed

lemma stream_kept:
  assumes "OnClose_ok OnClose" "OnPacket_leaves_input OnPacket" "unpacks_frames flen unPacket" "flen_ok flen"
  shows "kept_by_calls (stream_ok flen)" "kept_by_handler OnClose OnPacket unPacket (stream_ok flen)"
  using call_frame_stream tcp_Handle_stream [OF assms] by (auto simp: kept_by_calls_def kept_by_handler_def)

text \<open>
  C7. For a protocol that cuts packets off the front of the stream, the packets handed to
  OnPacket while the connection is open are those of everything received, in order, and
  the inbound buffer holds the rest: how the socket cuts the stream into reads, and what
  is written, blocked or triggered meanwhile, does not matter.
\<close>
theorem packets_reassembled:
  assumes "OnClose_ok OnClose" "OnPacket_leaves_input OnPacket" "unpacks_frames flen unPacket" "flen_ok flen"
    and "tcp_inv w" "stream_ok flen w" "stays_within OnClose OnPacket unPacket is w"
  shows "\<exists>w'. tcp_run OnClose OnPacket unPacket is w = (True, w') \<and>
    (connected w' \<longrightarrow>
      (\<exists>ib. ci_inbound (tw_conn w') = Some ib \<and> frames flen (received w') = (delivered w', rb_contents ib) \<and>
        concat (delivered w') @ rb_contents ib = received w'))"
proof -
  obtain w' where w': "tcp_run OnClose OnPacket unPacket is w = (True, w')" "stream_ok flen w'"
    using tcp_run_inv [OF assms(1) leaves_input_ok [OF assms(2)] unpacks_frames_ok [OF assms(3,4)]
        assms(5,6) stream_kept [OF assms(1-4)] assms(7)] by blast
  have "\<exists>ib. ci_inbound (tw_conn w') = Some ib \<and> frames flen (received w') = (delivered w', rb_contents ib) \<and>
        concat (delivered w') @ rb_contents ib = received w'" if "connected w'"
  proof -
    obtain ib where ib: "ci_inbound (tw_conn w') = Some ib" "frames flen (received w') = (delivered w', rb_contents ib)"
      using w'(2) \<open>connected w'\<close> by (auto simp: stream_ok_def)
    with frames_concat [OF assms(4), of "received w'"] show ?thesis by auto
  qed
  with w'(1) show ?thesis by blast
qed

text \<open>
  The stream 2 a b 0 1 c 3 d arrives in three pieces that cut packets, the reply to the
  first is taken in parts.
\<close>

definition read_schedule :: "tcp_input list" where
  "read_schedule = [Ready EventRead, Ready EventRead, Ready EventWrite, Ready EventRead]"

definition read_chunks :: "(nat + bytes) list" where
  "read_chunks = [Inr [2, 10], Inr [11, 0, 1], Inr [12, 3, 13]]"

lemma read_schedule_within:
  "stays_within no_close echo (len_unPacket bb_list) read_schedule (tcp_example read_chunks [Inr 1])"
  by code_simp

theorem packets_reassembled_witness:
  "\<exists>w' ib. tcp_run no_close echo (len_unPacket bb_list) read_schedule (tcp_example read_chunks [Inr 1]) = (True, w') \<and>
     delivered w' = [[2, 10, 11], [0], [1, 12]] \<and> ci_inbound (tw_conn w') = Some ib \<and> rb_contents ib = [3, 13]"
proof -
  let ?r = "tcp_run no_close echo (len_unPacket bb_list) read_schedule (tcp_example read_chunks [Inr 1])"
  have e: "connected (snd ?r) \<and> received (snd ?r) = [2, 10, 11, 0, 1, 12, 3, 13]" by code_simp
  have f: "frames len_frame [2, 10, 11, 0, 1, 12, 3, 13] = ([[2, 10, 11], [0], [1, 12]], [3, 13])" by code_simp
  from packets_reassembled [OF callbacks_ok(3,2) len_unPacket_frames [OF bb_list_laws] len_frame_ok
      tcp_example_inv(1,2) read_schedule_within] e f
  show ?thesis by fastforce
qed

subsection \<open>Single operations\<close>

definition drained ::
  "('h, 'b, 'x, 'k, 'm) tcp_world_scheme \<Rightarrow> ('h, 'b, 'x, 'k, 'm) tcp_world_scheme \<Rightarrow> bool" where
  "drained v w' \<longleftrightarrow>
     connected w' \<and> (\<exists>ob'. tc_outbound (tw_conn w') = Some ob' \<and> rb_contents ob' = []) \<and>
     accepted w' = asked v \<and> asked w' = asked v \<and>
     ep_rd (tw_poll w') (tc_fd (tw_conn v)) \<and> \<not> ep_wr (tw_poll w') (tc_fd (tw_conn v))"

lemma tcp_written_drained:
  assumes "open_mid w [] []" "asked w = asked v" "tc_fd (tw_conn w) = tc_fd (tw_conn v)"
  shows "drained v (tcp_written w)"
proof -
  obtain ob where ob: "tc_outbound (tw_conn w) = Some ob" "rb_inv ob" "rb_contents ob = []"
    using assms(1) by (auto simp: open_mid_def)
  then have eq: "tcp_written w = tcp_EnableRead w"
    by (simp add: tcp_written_def rb_IsEmpty_def rb_isEmpty_iff)
  have "tc_fd (tw_conn (tcp_EnableRead w)) = tc_fd (tw_conn w)"
    using tcp_EnableRead_mid(3) [OF assms(1)] by (simp add: write_frame_def)
  with tcp_EnableRead_mid [OF assms(1)] assms(2,3) show ?thesis
    unfolding eq by (auto simp: drained_def open_mid_def conn_inv_def)
qed

lemma sys_write_all: "tw_writes w = [] \<Longrightarrow> sys_write p w = (Inr (length p), tw_note (Accepted p) w)"
  by (simp add: sys_write_def)

lemma handleWrite_drains:
  assumes op: "open_inv v" and doc: "epoll_ctl_documented (tw_poll v)"
    and ob: "tc_outbound (tw_conn v) = Some ob" and ne: "rb_contents ob \<noteq> []" and ws: "tw_writes v = []"
  shows "\<exists>w'. tcp_handleWrite OnClose v = (Returns (), w') \<and> drained v w'"
proof -
  have o: "rb_inv ob" "accepted v @ rb_contents ob = asked v"
    using op ob by (auto elim!: open_outbound)
  obtain h t where ht: "rb_LazyReadAll ob = Some (h, t)" "h @ t = rb_contents ob"
    using rb_LazyReadAll_eq [OF o(1)] by metis
  have mid: "open_mid v (h @ t) []"
    using op doc ob o ht by (auto simp: open_mid_def open_inv_def)
  let ?w1 = "tw_note (Accepted h) v"
  let ?ob1 = "rb_Shift ob (int (length h))" let ?w2 = "set_outbound ?ob1 ?w1"
  note sw1 = sys_write_all [OF ws, of h]
  have mid2: "open_mid ?w2 t []" using flush_mid [OF mid ob sw1] by simp
  have log2: "asked ?w2 = asked v" "tc_fd (tw_conn ?w2) = tc_fd (tw_conn v)" "tw_writes ?w2 = []"
    using ws by (simp_all add: set_outbound_def tw_note_def)
  show ?thesis
  proof (cases "t = []")
    case True
    with mid2 have "open_mid ?w2 [] []" by simp
    from tcp_written_drained [OF this log2(1,2)] True ob ht sw1 show ?thesis
      by (simp add: tcp_handleWrite_def Let_def)
  next
    case False
    let ?w3 = "tw_note (Accepted t) ?w2" let ?w4 = "set_outbound (rb_Shift ?ob1 (int (length t))) ?w3"
    note sw2 = sys_write_all [OF log2(3), of t]
    from mid2 have "open_mid ?w2 (t @ []) []" by simp
    from flush_mid [OF this _ sw2] have "open_mid ?w4 [] []" by simp
    moreover have "asked ?w4 = asked v" "tc_fd (tw_conn ?w4) = tc_fd (tw_conn v)"
      by (simp_all add: set_outbound_def tw_note_def)
    ultimately have "drained v (tcp_written ?w4)" by (rule tcp_written_drained)
    with False ob ht sw1 sw2 show ?thesis by (simp add: tcp_handleWrite_def Let_def)
  qed
qed

text \<open>
  C21. One event of room for output suffices for all of it when the kernel takes what it is
  given, however the outbound buffer is laid out (one write or two): everything asked for
  is then accepted, the buffer is empty and the descriptor is watched for input only.
\<close>
theorem write_event_drains:
  assumes "OnClose_ok OnClose" "tcp_inv w" "connected w" "tw_writes w = []"
    and "tc_outbound (tw_conn w) = Some ob" "rb_contents ob \<noteq> []"
    and "has_event ev EventWrite" "\<not> has_event ev EventErr"
  shows "\<exists>w' ob'. tcp_Handle OnClose OnPacket unPacket (tc_fd (tw_conn w)) ev w = Some (Returns (), w') \<and>
    connected w' \<and> tc_outbound (tw_conn w') = Some ob' \<and> rb_contents ob' = [] \<and>
    accepted w' = asked w \<and> asked w' = asked w \<and>
    ep_rd (tw_poll w') (tc_fd (tw_conn w)) \<and> \<not> ep_wr (tw_poll w') (tc_fd (tw_conn w))"
proof -
  define v where
    "v = (if tw_idle w > 0 then w\<lparr>tw_conn := (tw_conn w)\<lparr>tc_activeTime := tw_now w div 1000000000\<rparr>\<rparr> else w)"
  have v: "tcp_inv v" "connected v" "tw_writes v = []" "tc_outbound (tw_conn v) = Some ob" "asked v = asked w"
      "tc_fd (tw_conn v) = tc_fd (tw_conn w)"
    using tcp_inv_active [OF assms(2)] assms(2-5) by (auto simp: v_def)
  then obtain doc: "epoll_ctl_documented (tw_poll v)" and op: "open_inv v"
    by (auto simp: tcp_inv_def elim: out_inv_cases)
  have o: "rb_inv ob" "accepted v @ rb_contents ob = asked v"
    using op v(4) by (auto elim!: open_outbound)
  obtain w' where hw: "tcp_handleWrite OnClose v = (Returns (), w')" "drained v w'"
    using handleWrite_drains [OF op doc v(4) assms(6) v(3)] by blast
  have "tcp_Handle OnClose OnPacket unPacket (tc_fd (tw_conn w)) ev w = Some (tcp_handleWrite OnClose v)"
    using v(4) assms(5-8) o(1) by (simp add: tcp_Handle_def v_def Let_def rb_IsEmpty_def rb_isEmpty_iff)
  with hw v(5,6) show ?thesis by (auto simp: drained_def)
qed

theorem write_event_drains_witness:
  "\<exists>w' ob'. tcp_Handle no_close echo (default_unPacket bb_list) 7 EventWrite
      ((snd (tcp_write no_close [1, 2, 3, 4, 5] (tcp_example [] [Inr 1])))) = Some (Returns (), w') \<and>
    tc_outbound (tw_conn w') = Some ob' \<and> rb_contents ob' = [] \<and> accepted w' = [1, 2, 3, 4, 5]"
proof -
  let ?w = "snd (tcp_write no_close [1, 2, 3, 4, 5] (tcp_example [] [Inr 1]))"
  have e: "connected ?w" "tw_writes ?w = []" "tc_fd (tw_conn ?w) = 7" "asked ?w = [1, 2, 3, 4, 5]"
    "map_option rb_contents (tc_outbound (tw_conn ?w)) = Some [2, 3, 4, 5]"
    "has_event EventWrite EventWrite" "\<not> has_event EventWrite EventErr"
    by code_simp+
  have "fits (asked (tcp_example [] [Inr 1]) @ [1, 2, 3, 4, 5])" by code_simp
  then have "out_inv ?w"
    using tcp_write_inv [OF callbacks_ok(3), of "tcp_example [] [Inr 1]" "[1, 2, 3, 4, 5]"]
      tcp_example_inv(1) [of "[]" "[Inr 1]"] by (auto simp: tcp_inv_def)
  then have "tcp_inv ?w"
    using tcp_inv_call [OF tcp_example_inv(1) _ tcp_write_frame [OF callbacks_ok(3)]] by blast
  moreover from e(5) obtain ob where "tc_outbound (tw_conn ?w) = Some ob" "rb_contents ob = [2, 3, 4, 5]"
    by auto
  ultimately show ?thesis
    using write_event_drains [OF callbacks_ok(3), of ?w ob EventWrite echo "default_unPacket bb_list"] e by auto
qed

end
