(* ===== verification/Tcp_Edges.thy ===== *)
theory Tcp_Edges
  imports Tcp_Props
begin

text \<open>
  The interface Conn as a protocol sees it, the idle timer, and where the connection
  code departs from what it means to do: bytes counted twice between events, a protocol
  that reads after the connection closed under it, output written before the descriptor
  is registered.
\<close>

text \<open>
  C11. The methods of Conn describe one stream: with \<open>a\<close> the bytes received and not yet
  consumed, BufferLength is its length and Read is \<open>a\<close>; ReadN n is its first n bytes and
  consumes nothing; ShiftN n consumes exactly these; ResetBuffer consumes all; where n is
  not positive or more than there are, all of them are meant. None of it touches the
  output or the user's fields.
\<close>
theorem conn_interface_contract:
  assumes "bb_laws A" "conn_inv c" "a = conn_avail c"
    and "k = (if n \<le> 0 \<or> n > int (length a) then length a else nat n)"
  shows "conn_BufferLength c = Some (int (length a)) \<and>
    (\<exists>c1. conn_Read A c = Some (a, c1) \<and> conn_avail c1 = a) \<and>
    (\<exists>c2 c3. conn_ReadN A n c = Some (int k, take k a, c2) \<and> conn_avail c2 = a \<and>
      conn_ShiftN n c2 = Some (int k, c3) \<and> conn_avail c3 = drop k a \<and> conn_inv c3 \<and>
      conn_rest c3 = conn_rest c) \<and>
    (\<exists>c4. conn_ResetBuffer c = Some c4 \<and> conn_avail c4 = [] \<and> conn_inv c4 \<and> conn_rest c4 = conn_rest c)"
proof -
  have k: "read_size n a = k" using assms(4) by (auto simp: read_size_def)
  have "conn_BufferLength c = Some (int (length a))"
    using assms(2,3) by (auto simp: conn_BufferLength_def elim!: conn_inv_cases)
  moreover obtain c1 where "conn_Read A c = Some (a, c1)" "conn_avail c1 = a"
    using conn_Read_correct [OF assms(1,2)] assms(3) by auto
  moreover obtain c2 where c2: "conn_ReadN A n c = Some (int k, take k a, c2)" "conn_inv c2"
    "conn_avail c2 = a" "conn_rest c2 = conn_rest c"
    using conn_ReadN_correct [OF assms(1,2), of n] k assms(3) by auto
  moreover obtain c3 where "conn_ShiftN n c2 = Some (int k, c3)" "conn_inv c3" "conn_avail c3 = drop k a"
    "conn_rest c3 = conn_rest c2"
    using conn_ShiftN_correct [OF c2(2), of n] k c2(3) by auto
  moreover obtain c4 where "conn_ResetBuffer c = Some c4" "conn_avail c4 = []" "conn_inv c4"
    "conn_rest c4 = conn_rest c"
    using conn_ResetBuffer_correct [OF assms(2)] by blast
  ultimately show ?thesis by simp
qed

definition input_example :: "bytes conn_input" where
  "input_example =
     \<lparr>ci_connected = True, ci_buffer = [3, 4], ci_inbound = Some ring_wrapped, ci_byteBuffer = None\<rparr>"

theorem conn_interface_contract_witness:
  "\<exists>c2 c3. conn_ReadN bb_list 3 input_example = Some (3, [1, 2, 3], c2) \<and>
     conn_ShiftN 3 c2 = Some (3, c3) \<and> conn_avail c3 = [4]"
proof -
  have a: "conn_inv input_example" "[1, 2, 3, 4] = conn_avail input_example"
    using ring_wrapped_inv by (simp_all add: input_example_def conn_inv_def conn_avail_def)
  from conn_interface_contract [OF bb_list_laws a, of 3 3] show ?thesis by auto
qed

text \<open>
  C27. The idle timer. With \<open>t\<close> the time of the last event (kept in whole seconds), the
  callback asks for the connection to be closed only when more than the idle time less
  one second has passed since \<open>t\<close>, and always when the idle time has; otherwise it
  runs again after a positive delay that ends within the last second before the idle
  time is over.
\<close>
theorem idle_timer:
  assumes "connected w" "tw_idle w > 0" "tc_activeTime (tw_conn w) = t div 1000000000" "t \<le> tw_now w"
    and "tcp_closeTimeoutConn w = (next, w')"
  shows "(case next of
      None \<Rightarrow> tw_now w - t > tw_idle w - 1000000000 \<and> w' = Trigger JClose w
    | Some d \<Rightarrow> 0 < d \<and> d \<le> tw_idle w \<and> t + tw_idle w - 1000000000 < tw_now w + d \<and>
        tw_now w + d \<le> t + tw_idle w \<and> w' = w) \<and>
    (tw_now w - t \<ge> tw_idle w \<longrightarrow> next = None)"
proof -
  let ?s = "t div 1000000000 * 1000000000"
  have s: "?s \<le> t" "t < ?s + 1000000000" by (simp_all add: mult.commute)
  with assms show ?thesis
    by (auto simp: tcp_closeTimeoutConn_def tcp_Close_def Let_def split: if_splits)
qed

theorem idle_timer_witness:
  "\<exists>d w'. tcp_closeTimeoutConn ((tcp_example [] [])\<lparr>tw_idle := 70000000000, tw_now := 20500000000\<rparr>) = (Some d, w') \<and>
     d \<le> 70000000000"
proof -
  let ?w = "(tcp_example [] [])\<lparr>tw_idle := 70000000000, tw_now := 20500000000\<rparr>"
  have a: "connected ?w" "tw_idle ?w > 0" "tc_activeTime (tw_conn ?w) = 900000000 div 1000000000"
    "900000000 \<le> tw_now ?w" "fst (tcp_closeTimeoutConn ?w) = Some 49500000000"
    by code_simp+
  obtain w' where "tcp_closeTimeoutConn ?w = (Some 49500000000, w')"
    using a(5) by (cases "tcp_closeTimeoutConn ?w") auto
  with idle_timer [OF a(1-4) this] show ?thesis by auto
qed

text \<open>A protocol with packets of a fixed size.\<close>

definition fixed_unPacket ::
  "'b bb_api \<Rightarrow> int \<Rightarrow> ('h, 'b, 'x, 'k, 'm) tcp_world_scheme \<Rightarrow>
   bytes option call \<times> ('h, 'b, 'x, 'k, 'm) tcp_world_scheme" where
  "fixed_unPacket A n w =
     (case on_conn (\<lambda>c. map_option (\<lambda>(k, p, c'). ((k, p), c')) (conn_ReadN A n c)) w of
        (Panics v, w1) \<Rightarrow> (Panics v, w1)
      | (Returns (k, p), w1) \<Rightarrow>
          (if k < n then (Returns None, w1)
           else (case on_conn (conn_ShiftN n) w1 of
                   (Panics v, w2) \<Rightarrow> (Panics v, w2)
                 | (Returns _, w2) \<Rightarrow> (Returns (Some p), w2))))"

lemma fixed_unPacket_released:
  "ci_inbound (tw_conn w) = None \<Longrightarrow> fixed_unPacket A n w = (Panics ErrorValue, w)"
  by (simp add: fixed_unPacket_def on_conn_def conn_ReadN_def)

lemma fixed_unPacket_packet:
  assumes "bb_laws A" "conn_inv (tw_conn w)" "0 < n" "n \<le> int (length (conn_avail (tw_conn w)))"
  shows "\<exists>c. fixed_unPacket A n w =
    (Returns (Some (take (nat n) (conn_avail (tw_conn w)))), w\<lparr>tw_conn := c\<rparr>) \<and>
    conn_inv c \<and> conn_rest c = conn_rest (tw_conn w)"
proof -
  have k: "read_size n (conn_avail (tw_conn w)) = nat n" using assms(3,4) by (simp add: read_size_def)
  obtain c1 where c1: "conn_ReadN A n (tw_conn w) = Some (n, take (nat n) (conn_avail (tw_conn w)), c1)"
    "conn_inv c1" "conn_avail c1 = conn_avail (tw_conn w)" "conn_rest c1 = conn_rest (tw_conn w)"
    using conn_ReadN_correct [OF assms(1,2), of n] k assms(3) by auto
  obtain c2 where "conn_ShiftN n c1 = Some (n, c2)" "conn_inv c2" "conn_rest c2 = conn_rest c1"
    using conn_ShiftN_correct [OF c1(2), of n] k c1(3) assms(3) by auto
  with c1 show ?thesis by (intro exI [of _ c2]) (simp add: fixed_unPacket_def on_conn_def)
qed

lemma close_keeps_loop:
  assumes "tcp_handleClose no_close fd v = (r, v')"
  shows "el_jobs v' = el_jobs v \<and> el_eventHandling v' = el_eventHandling v"
  using assms by (auto simp: tcp_handleClose_def tcp_release_def tw_note_def tcp_DeleteFdInLoop_def
      DeleteFdInLoop_def no_close_def split: if_splits prod.splits)

text \<open>A reply that the socket refuses for good closes the connection.\<close>

lemma failed_write_closes:
  assumes "epoll_ctl_documented (tw_poll w)" "open_inv w" "tc_outbound (tw_conn w) = Some ob"
    and "rb_contents ob = []" "tw_writes w = Inl e # ws" "e \<noteq> EAGAIN"
  shows "\<exists>w'. tcp_write no_close buf w = (Returns (), w') \<and> closed_inv w' \<and>
    el_jobs w' = el_jobs w \<and> el_eventHandling w' = el_eventHandling w"
proof -
  let ?w = "tw_note (Asked buf) w" let ?v = "?w\<lparr>tw_writes := ws\<rparr>"
  have o: "rb_inv ob" "rb_IsEmpty ob" "accepted w = asked w" "connected w"
    using assms(2-4) open_connected [OF assms(2)] by (auto elim!: open_outbound)
  have "open_mid ?v [] buf"
    using assms(1-4) o by (auto simp: open_mid_def open_inv_def tw_note_def)
  from open_mid_close [OF callbacks_ok(3) this] obtain w' where
    w': "tcp_handleClose no_close (tc_fd (tw_conn ?v)) ?v = (Returns (), w')" "closed_inv w'" by blast
  have "sys_write buf ?w = (Inl e, ?v)" using assms(5) by (simp add: sys_write_def tw_note_def)
  with assms(3,6) o w' close_keeps_loop [OF w'(1)] show ?thesis
    by (simp add: tcp_write_def Let_def tw_note_def)
qed

lemma handleRead_failed_write:
  assumes "bb_laws A" "out_inv v" "connected v" "tc_outbound (tw_conn v) = Some ob" "rb_contents ob = []"
    and "tw_reads v = Inr p # rs" "0 < n" "n \<le> int (length p)" "int (length p) \<le> packetLen"
    and "tw_writes v = Inl e # ws" "e \<noteq> EAGAIN"
  obtains v4 where "tcp_handleRead no_close echo (fixed_unPacket A n) v = Some (Panics ErrorValue, v4)"
    "closed_inv v4" "el_jobs v4 = el_jobs v" "el_eventHandling v4 = el_eventHandling v"
proof -
  let ?v1 = "tw_note (Received p) (v\<lparr>tw_reads := rs\<rparr>)"
  let ?v2 = "?v1\<lparr>tw_conn := (tw_conn ?v1)\<lparr>ci_buffer := p\<rparr>\<rparr>"
  have sr: "sys_read v = (Inr p, ?v1)" using assms(6,9) by (simp add: sys_read_def into_packet_def)
  have out2: "out_inv ?v2"
    using sys_read_inv [OF assms(2) sr] out_inv_buffer [of ?v1 p] assms(3) by (simp add: tw_note_def)
  then have op2: "open_inv ?v2" "epoll_ctl_documented (tw_poll ?v2)"
    using assms(3) by (auto elim!: out_inv_cases simp: tw_note_def)
  then have "conn_inv (tw_conn ?v2)" "n \<le> int (length (conn_avail (tw_conn ?v2)))"
    using assms(8) by (auto simp: open_inv_def conn_avail_def)
  from fixed_unPacket_packet [OF assms(1) this(1) assms(7) this(2)] obtain q c where
    up: "fixed_unPacket A n ?v2 = (Returns (Some q), ?v2\<lparr>tw_conn := c\<rparr>)" "conn_inv c"
      "conn_rest c = conn_rest (tw_conn ?v2)" "q = take (nat n) (conn_avail (tw_conn ?v2))" by blast
  have q: "q \<noteq> []" using up(4) assms(7,8) by (auto simp: conn_avail_def)
  let ?v3 = "tw_note (Delivered q) (?v2\<lparr>tw_conn := c\<rparr>)"
  have c: "tc_fd c = tc_fd (tw_conn ?v2)" "tc_outbound c = tc_outbound (tw_conn ?v2)"
    using up(3) by (cases c; cases "tw_conn v"; simp add: conn_rest_def tw_note_def)+
  then have op3: "open_inv ?v3"
    using op2(1) up(2) by (auto simp: open_inv_def tw_note_def wr_ok_def)
  obtain v4 where v4: "tcp_write no_close q ?v3 = (Returns (), v4)" "closed_inv v4"
    "el_jobs v4 = el_jobs ?v3" "el_eventHandling v4 = el_eventHandling ?v3"
    using failed_write_closes [OF _ op3 _ assms(5) _ assms(11)] op2(2) c assms(4,10) by (auto simp: tw_note_def)
  have "tcp_packets no_close echo (fixed_unPacket A n) v4 = Some (Panics ErrorValue, v4)"
    using v4(2) by (subst tcp_packets.simps) (simp add: fixed_unPacket_released closed_inv_def)
  then have "tcp_packets no_close echo (fixed_unPacket A n) ?v2 = Some (Panics ErrorValue, v4)"
    using q v4(1) by (subst tcp_packets.simps) (simp add: up(1) echo_def)
  with sr assms(7,8) have "tcp_handleRead no_close echo (fixed_unPacket A n) v = Some (Panics ErrorValue, v4)"
    by (cases "p = []") (simp_all add: tcp_handleRead_def)
  then show thesis using that v4 by (simp add: tw_note_def)
qed

text \<open>
  C35. A connection can close inside the packet loop, when the reply to a packet cannot be
  written. An UnPacket that starts with ReadN (as a fixed-size protocol would) is then
  called on the released connection and panics; the event loop recovers the panic, but
  leaves its handling flag set, so that from then on Trigger wakes nobody.
\<close>
theorem close_in_packet_loop_panics:
  assumes "bb_laws A" "tcp_inv w" "connected w" "tc_outbound (tw_conn w) = Some ob" "rb_contents ob = []"
    and "tc_fd (tw_conn w) \<noteq> -1" "has_event ev EventRead" "\<not> has_event ev EventErr"
    and "tw_reads w = Inr p # rs" "0 < n" "n \<le> int (length p)" "int (length p) \<le> packetLen"
    and "tw_writes w = Inl e # ws" "e \<noteq> EAGAIN"
  shows "\<exists>w'. handleEvent (tcp_handler no_close echo (fixed_unPacket A n)) (tcp_exec no_close)
      (tc_fd (tw_conn w)) ev w = (True, w') \<and>
    closed_inv w' \<and> el_eventHandling w' \<and> el_jobs w' = el_jobs w \<and>
    (\<forall>j. el_wakes (Trigger j w') = el_wakes w')"
proof -
  let ?w0 = "w\<lparr>el_eventHandling := True\<rparr>"
  define v where "v = (if tw_idle ?w0 > 0
    then ?w0\<lparr>tw_conn := (tw_conn ?w0)\<lparr>tc_activeTime := tw_now ?w0 div 1000000000\<rparr>\<rparr> else ?w0)"
  have "tcp_inv ?w0" using assms(2) by simp
  then have v: "tcp_inv v" "connected v" "tc_outbound (tw_conn v) = Some ob" "tw_reads v = Inr p # rs"
    "tw_writes v = Inl e # ws" "el_jobs v = el_jobs w" "el_eventHandling v"
    using tcp_inv_active [of ?w0] assms(3,4,9,13) by (auto simp: v_def)
  then have out: "out_inv v" by (simp add: tcp_inv_def)
  then have op: "open_inv v" using v(2) by (auto elim: out_inv_cases)
  have ob: "rb_IsEmpty ob" using op v(3) assms(5) by (auto elim!: open_outbound)
  obtain v4 where rd: "tcp_handleRead no_close echo (fixed_unPacket A n) v = Some (Panics ErrorValue, v4)"
    "closed_inv v4" "el_jobs v4 = el_jobs v" "el_eventHandling v4 = el_eventHandling v"
    by (rule handleRead_failed_write [OF assms(1) out v(2,3) assms(5) v(4) assms(10-12) v(5) assms(14)])
  have "tcp_Handle no_close echo (fixed_unPacket A n) (tc_fd (tw_conn w)) ev ?w0 =
      tcp_handleRead no_close echo (fixed_unPacket A n) v"
    using v(3) ob assms(7,8) by (simp add: tcp_Handle_def v_def Let_def)
  moreover obtain h where "el_handlers w (tc_fd (tw_conn w)) = Some h"
    using connected_handler [OF assms(2)] assms(3) by auto
  ultimately have "handleEvent (tcp_handler no_close echo (fixed_unPacket A n)) (tcp_exec no_close)
      (tc_fd (tw_conn w)) ev w = (True, v4)"
    using rd(1) assms(6) by (simp add: handleEvent_def tcp_handler_def recovered_def)
  moreover have "el_eventHandling v4" "el_jobs v4 = el_jobs w" using rd(3,4) v(6,7) by simp_all
  ultimately show ?thesis using rd(2) by auto
qed

theorem close_in_packet_loop_panics_witness:
  "\<exists>w'. handleEvent (tcp_handler no_close echo (fixed_unPacket bb_list 2)) (tcp_exec no_close) 7 EventRead
      (tcp_example [Inr [1, 2, 3]] [Inl 104]) = (True, w') \<and> el_eventHandling w' \<and> \<not> connected w'"
proof -
  have "has_event EventRead EventRead" "\<not> has_event EventRead EventErr" by code_simp+
  with close_in_packet_loop_panics [OF bb_list_laws tcp_example_inv(1), of "[Inr [1, 2, 3]]" "[Inl 104]" ring8
      EventRead "[1, 2, 3]" "[]" 2 104 "[]"] ring8(2) closed_connected
  show ?thesis by (auto simp: ring8_example packetLen_def EAGAIN_def)
qed

text \<open>
  C34. handleNewConnection calls OnConnect before it registers the descriptor, so a Write
  made there can run in the connection's loop first. If the socket then does not take
  everything, asking for room fails (the descriptor is unknown to the poller), and
  registering afterwards watches for input only: the output stays in the buffer, and
  because output is pending every event of input is passed over, so that neither side
  makes progress.
\<close>
theorem write_before_bind_stalls:
  assumes "rb_inv rb1" "rb_inv rb2" "rb_contents rb2 = []" "buf \<noteq> []" "fits buf"
    and "epoll_ctl_documented (tw_poll w)" "ee_interest (tw_poll w) (ee_kernel (tw_poll w)) fd = None"
    and "tw_conn w = NewTCPConn i fd addr rb1 rb2 0 now" "tw_idle w = 0"
    and "tw_writes w = Inl EAGAIN # ws"
    and "tcp_BindHandler fd h (snd (tcp_job_call OnClose (JWrite buf) w)) = (None, w')"
    and "has_event ev EventRead" "\<not> has_event ev EventWrite" "\<not> has_event ev EventErr"
  shows "\<exists>ob. tc_outbound (tw_conn w') = Some ob \<and> rb_contents ob = buf \<and>
    \<not> ep_wr (tw_poll w') fd \<and> ep_rd (tw_poll w') fd \<and>
    tcp_Handle OnClose OnPacket unPacket fd ev w' = Some (Returns (), w')"
proof -
  let ?w1 = "(tw_note (Asked buf) w)\<lparr>tw_writes := ws\<rparr>"
  have e: "rb_isEmpty rb2" using assms(2,3) rb_isEmpty_iff by simp
  have "rb_room rb2 (length buf)" using assms(3,5) by (simp add: rb_room_def)
  then obtain n ob where ob: "rb_Write rb2 buf = Some (n, ob)" "rb_inv ob" "rb_contents ob = buf"
    using rbq.write_law [OF assms(2)] assms(3) by fastforce
  obtain k where k: "ee_ctl (tw_poll w) EPOLL_CTL_MOD fd (readEvent OR writeEvent) (ee_kernel (tw_poll w)) = k"
    by blast
  have none: "ee_interest (tw_poll w) (snd k) fd = None"
  proof -
    have "fst k \<noteq> None \<and> ee_interest (tw_poll w) (snd k) = ee_interest (tw_poll w) (ee_kernel (tw_poll w)) \<or>
        ee_interest (tw_poll w) (ee_kernel (tw_poll w)) fd \<noteq> None"
      using assms(6) k unfolding epoll_ctl_documented_def ctl_documented_def
      by (cases k; cases "fst k") (fastforce split: option.splits)+
    with assms(7) show ?thesis by auto
  qed
  let ?p = "(tw_poll w)\<lparr>ee_kernel := snd k\<rparr>"
  have job: "tcp_job_call OnClose (JWrite buf) w =
      (Returns (), (set_outbound ob ?w1)\<lparr>tw_poll := ?p\<rparr>)"
    using assms(8,10) e ob k
    by (simp add: tcp_job_call_def tcp_write_def NewTCPConn_def rb_IsEmpty_def sys_write_def tw_note_def
        tcp_enqueue_def set_outbound_def tcp_EnableReadWrite_def ep_EnableReadWrite_def ep_mod_def
        ep_ctl_def split: prod.split)
  obtain q where q: "ep_AddRead fd ?p = (None, q)" "tw_poll w' = q"
      "tw_conn w' = tw_conn ((set_outbound ob ?w1)\<lparr>tw_poll := ?p\<rparr>)" "tw_idle w' = tw_idle w"
    using assms(11) unfolding job
    by (auto simp: tcp_BindHandler_def BindHandler_def set_outbound_def tw_note_def Let_def
        split: prod.splits option.splits)
  have doc: "epoll_ctl_documented ?p" using assms(6) by simp
  have "\<not> ep_wr ?p fd" using none by (simp add: ep_wr_def)
  then have "\<not> ep_wr q fd" "ep_rd q fd"
    using ep.add_wr [OF doc q(1)] ep.add_rd [OF doc q(1)] by simp_all
  moreover have "tc_outbound (tw_conn w') = Some ob" using q(3) by (simp add: set_outbound_def)
  ultimately show ?thesis
    using ob q(2,4) assms(4,9,13,14)
    by (simp add: tcp_Handle_def rb_IsEmpty_def rb_isEmpty_iff)
qed

theorem write_before_bind_stalls_witness:
  "\<exists>w'. tcp_BindHandler 7 () (snd (tcp_job_call no_close (JWrite [1, 2]) (tcp_unbound [Inr [9]] [Inl EAGAIN]))) =
      (None, w') \<and>
    tcp_Handle no_close echo (default_unPacket bb_list) 7 EventRead w' = Some (Returns (), w')"
proof -
  let ?b = "tcp_BindHandler 7 () (snd (tcp_job_call no_close (JWrite [1, 2]) (tcp_unbound [Inr [9]] [Inl EAGAIN])))"
  have "fst ?b = None" by code_simp
  then obtain w' where b: "?b = (None, w')" by (cases ?b) auto
  have h: "has_event EventRead EventRead" "\<not> has_event EventRead EventWrite" "\<not> has_event EventRead EventErr"
    by code_simp+
  have "tw_idle (tcp_unbound [Inr [9]] [Inl EAGAIN]) = 0"
    "tw_writes (tcp_unbound [Inr [9]] [Inl EAGAIN]) = Inl EAGAIN # []"
    by (simp_all add: tcp_unbound_def)
  from write_before_bind_stalls [OF ring8(1) ring8 _ _ tcp_unbound_fresh(1-3) this b h] b
  show ?thesis by (auto simp: maxAlloc_def)
qed

end
