(* ===== verification/Packet_Loop.thy ===== *)
theory Packet_Loop
  imports Tcp_Props
begin

text \<open>When the packet loop of handleRead ends.\<close>

text \<open>
  An UnPacket that always finds a packet, with an OnPacket that answers nothing: the
  states of \<open>I\<close> are never left.
\<close>

definition never_done ::
  "(('h, 'b, 'x, 'k, 'm) tcp_world_scheme \<Rightarrow> bool) \<Rightarrow>
   (bytes \<Rightarrow> ('h, 'b, 'x, 'k, 'm) tcp_world_scheme \<Rightarrow> bytes call \<times> ('h, 'b, 'x, 'k, 'm) tcp_world_scheme) \<Rightarrow>
   (('h, 'b, 'x, 'k, 'm) tcp_world_scheme \<Rightarrow> bytes option call \<times> ('h, 'b, 'x, 'k, 'm) tcp_world_scheme) \<Rightarrow> bool" where
  "never_done I OnPacket unPacket \<longleftrightarrow>
     (\<forall>w. I w \<longrightarrow> (\<exists>p w1 w2. unPacket w = (Returns (Some p), w1) \<and>
        OnPacket p (tw_note (Delivered p) w1) = (Returns [], w2) \<and> I w2))"

lemma never_done_diverges:
  fixes w :: "('h, 'b, 'x, 'k, 'm) tcp_world_scheme"
  assumes "never_done I OnPacket unPacket" "I w"
  shows "tcp_packets OnClose OnPacket unPacket w = None"
proof -
  have "\<not> (never_done I g u \<and> I w)" if "tcp_packets f g u w = Some y"
    for f g u y and w :: "('h, 'b, 'x, 'k, 'm) tcp_world_scheme"
  proof (rule tcp_packets.raw_induct [OF _ that])
    fix loop f g u y and w :: "('h, 'b, 'x, 'k, 'm) tcp_world_scheme"
    assume IH: "\<And>f g u w y. loop f g u w = Some y \<Longrightarrow> \<not> (never_done I g u \<and> I w)"
      and step: "(case u w of
        (Panics v, w1) \<Rightarrow> Some (Panics v, w1)
      | (Returns None, w1) \<Rightarrow> Some (Returns (), w1)
      | (Returns (Some packet), w1) \<Rightarrow>
          (case g packet (tw_note (Delivered packet) w1) of
             (Panics v, w2) \<Rightarrow> Some (Panics v, w2)
           | (Returns out, w2) \<Rightarrow>
               (case (if length out > 0 then tcp_write f out w2 else (Returns (), w2)) of
                  (Panics v, w3) \<Rightarrow> Some (Panics v, w3)
                | (Returns _, w3) \<Rightarrow> loop f g u w3))) = Some y"
    show "\<not> (never_done I g u \<and> I w)"
    proof
      assume a: "never_done I g u \<and> I w"
      then obtain p w1 w2 where "u w = (Returns (Some p), w1)"
        "g p (tw_note (Delivered p) w1) = (Returns [], w2)" "I w2"
        unfolding never_done_def by blast
      with step have "loop f g u w2 = Some y" by simp
      with IH a \<open>I w2\<close> show False by blast
    qed
  qed
  with assms show ?thesis by (metis option.exhaust)
qed

definition peek_unPacket ::
  "'b bb_api \<Rightarrow> ('h, 'b, 'x, 'k, 'm) tcp_world_scheme \<Rightarrow> bytes option call \<times> ('h, 'b, 'x, 'k, 'm) tcp_world_scheme" where
  "peek_unPacket A w =
     (case on_conn (conn_Read A) w of
        (Panics v, w') \<Rightarrow> (Panics v, w')
      | (Returns buf, w') \<Rightarrow> (Returns (if buf = [] then None else Some buf), w'))"

text \<open>
  C20. The packet loop ends for every UnPacket that consumes something with each packet it
  returns, whatever the callbacks answer and the socket does; and it does not end for one
  that returns what Read gives and leaves it there, as soon as there is input.
\<close>
theorem packet_loop_ends:
  fixes w :: "('h, 'b, 'x, 'k, 'm) tcp_world_scheme"
  assumes "OnClose_ok OnClose" "OnPacket_ok OnPacket" "unPacket_ok unPacket" "conn_inv (tw_conn w)"
    and "bb_laws A" "conn_avail (tw_conn w) \<noteq> []"
  shows "(\<exists>r w'. tcp_packets OnClose OnPacket unPacket w = Some (r, w')) \<and>
    tcp_packets OnClose (\<lambda>p w. (Returns [], w)) (peek_unPacket A) w = None"
proof
  show "\<exists>r w'. tcp_packets OnClose OnPacket unPacket w = Some (r, w')"
    using tcp_packets_inv [OF assms(1-3)] assms(4) by blast
  let ?I = "\<lambda>w :: ('h, 'b, 'x, 'k, 'm) tcp_world_scheme. conn_inv (tw_conn w) \<and> conn_avail (tw_conn w) \<noteq> []"
  have "never_done ?I (\<lambda>p w. (Returns [], w)) (peek_unPacket A)"
    unfolding never_done_def
  proof (intro allI impI)
    fix w :: "('h, 'b, 'x, 'k, 'm) tcp_world_scheme"
    assume w: "?I w"
    then obtain c where c: "conn_Read A (tw_conn w) = Some (conn_avail (tw_conn w), c)" "conn_inv c"
      "conn_avail c = conn_avail (tw_conn w)"
      using conn_Read_correct [OF assms(5)] by blast
    show "\<exists>p w1 w2. peek_unPacket A w = (Returns (Some p), w1) \<and>
        (Returns [], tw_note (Delivered p) w1) = (Returns [], w2) \<and> ?I w2"
      using w c by (simp add: peek_unPacket_def on_conn_def tw_note_def)
  qed
  then show "tcp_packets OnClose (\<lambda>p w. (Returns [], w)) (peek_unPacket A) w = None"
    by (rule never_done_diverges) (use assms(4,6) in simp)
qed

theorem packet_loop_ends_witness:
  "let w = (tcp_example [] [])\<lparr>tw_conn := (tw_conn (tcp_example [] []))\<lparr>ci_buffer := [1, 2]\<rparr>\<rparr>
   in (\<exists>r w'. tcp_packets no_close echo (default_unPacket bb_list) w = Some (r, w')) \<and>
      tcp_packets no_close (\<lambda>p w. (Returns [], w)) (peek_unPacket bb_list) w = None"
proof -
  let ?w = "(tcp_example [] [])\<lparr>tw_conn := (tw_conn (tcp_example [] []))\<lparr>ci_buffer := [1, 2]\<rparr>\<rparr>"
  have w: "conn_inv (tw_conn ?w)" "conn_avail (tw_conn ?w) \<noteq> []"
    using ring8 ring8_example by (simp_all add: conn_inv_def conn_avail_def)
  from packet_loop_ends [OF callbacks_ok(3,1) default_unPacket_ok [OF bb_list_laws] w(1) bb_list_laws w(2)]
  show ?thesis unfolding Let_def .
qed

end
