(* ===== verification/Buffer_Reuse.thy ===== *)
theory Buffer_Reuse
  imports Tcp_Props
begin

text \<open>
  Who owns the bytes of a packet. Elsewhere what byte buffers hold are values; here a byte
  buffer of the pool carries a number, so that one sees which buffer the slice that ReadN returns
  points into, and that ShiftN has put it back: the code sets \<open>byteBuffer\<close> to nil exactly
  after Put. A buffer that was put back may be what the next Get returns, to any
  connection of any loop.
\<close>

definition tagged :: "nat \<Rightarrow> (nat \<times> bytes) bb_api" where
  "tagged i =
     \<lparr>bb_Get = (i, []), bb_Lit = (\<lambda>p. (i, p)), bb_Write = (\<lambda>(j, b) p. (j, b @ p)), bb_Bytes = snd\<rparr>"

lemma tagged_laws: "bb_laws (tagged i)"
  by (simp add: bb_laws_def tagged_def split_beta)

lemma tagged_simps [simp]:
  "bb_Get (tagged i) = (i, [])" "bb_Write (tagged i) b p = (fst b, snd b @ p)" "bb_Bytes (tagged i) b = snd b"
  by (simp_all add: tagged_def split_beta)

text \<open>The slice that ReadN returns is the contents of the byte buffer, if it uses one.\<close>

lemma ReadN_slice:
  assumes "conn_ReadN (tagged i) n c = Some (m, buf, c1)" "ci_inbound c = Some rb"
  shows "ci_byteBuffer c1 = (if rb_IsEmpty rb then ci_byteBuffer c else Some (i, buf))"
  using assms by (auto simp: conn_ReadN_def Let_def split: if_splits bind_splits)

lemma ShiftN_puts:
  assumes "conn_ShiftN n c = Some (m, c1)" "ci_inbound c = Some rb" "\<not> rb_IsEmpty rb"
  shows "ci_byteBuffer c1 = None"
  using assms
  by (auto simp: conn_ShiftN_def conn_ResetBuffer_def Let_def split: if_splits bind_splits)

lemma ReadN_inbound:
  assumes "conn_ReadN A n c = Some (m, buf, c1)"
  shows "ci_inbound c1 = ci_inbound c"
  using assms by (auto simp: conn_ReadN_def Let_def split: if_splits bind_splits)


definition kept_example :: "bytes \<Rightarrow> bytes \<Rightarrow> (nat \<times> bytes) conn_input" where
  "kept_example kept chunk =
     \<lparr>ci_connected = True, ci_buffer = chunk,
      ci_inbound = Some \<lparr>rb_buf = kept, rb_size = int (length kept), rb_mask = int (length kept) - 1,
        rb_r = 0, rb_w = 0, rb_isEmpty = False\<rparr>, ci_byteBuffer = None\<rparr>"


end
