(* ===== verification/Packet_Buffer.thy ===== *)
theory Packet_Buffer
  imports Tcp_Props
begin

text \<open>
  The packet buffer that the connections of an event loop share. conn.go keeps in \<open>buffer\<close>
  not bytes but a slice of the loop's array (PacketBuf of eventloop.go), which handleRead
  of every connection of the loop overwrites. Here the array is an explicit store and
  \<open>buffer\<close> a pair of bounds into it, and the methods of the connection are translated once
  more. They refine those of Conn_Input, where \<open>buffer\<close> is a value, for as long as no other
  connection of the loop reads; after that they do not.
\<close>

record 'b slice_input =
  si_connected :: bool
  si_from :: nat
  si_to :: nat
  si_inbound :: "ring_buffer option"
  si_byteBuffer :: "'b option"

text \<open>The bytes a slice shows, and the slice itself inside the array.\<close>

definition si_bytes :: "bytes \<Rightarrow> 'b slice_input \<Rightarrow> bytes" where
  "si_bytes packet c = take (si_to c - si_from c) (drop (si_from c) packet)"

definition si_len :: "'b slice_input \<Rightarrow> int" where
  "si_len c = int (si_to c) - int (si_from c)"

definition si_ok :: "bytes \<Rightarrow> 'b slice_input \<Rightarrow> bool" where
  "si_ok packet c \<longleftrightarrow> si_from c \<le> si_to c \<and> si_to c \<le> length packet"

text \<open>
  \<open>buf[n:]\<close> and \<open>buf[:n]\<close> of the slice. Bounds beyond its length are \<open>None\<close>: the first panics,
  the second would be bounded by the capacity, but the code stays within the length.
\<close>

definition si_from_on :: "int \<Rightarrow> 'b slice_input \<Rightarrow> 'b slice_input option" where
  "si_from_on n c = (if 0 \<le> n \<and> n \<le> si_len c then Some (c\<lparr>si_from := si_from c + nat n\<rparr>) else None)"

definition si_first :: "bytes \<Rightarrow> int \<Rightarrow> 'b slice_input \<Rightarrow> bytes option" where
  "si_first packet n c =
     (if 0 \<le> n \<and> n \<le> si_len c then Some (take (nat n) (drop (si_from c) packet)) else None)"

subsection \<open>Reading a chunk\<close>

text \<open>
  unix.Read fills the front of the array, whoever reads; the connection's slice is then
  what was read.
\<close>

definition fill :: "bytes \<Rightarrow> bytes \<Rightarrow> bytes" where
  "fill chunk packet = chunk @ drop (length chunk) packet"

definition si_chunk :: "bytes \<Rightarrow> 'b slice_input \<Rightarrow> 'b slice_input" where
  "si_chunk chunk c = c\<lparr>si_from := 0, si_to := length chunk\<rparr>"

subsection \<open>The methods\<close>

definition si_Read ::
  "'b bb_api \<Rightarrow> bytes \<Rightarrow> 'b slice_input \<Rightarrow> (bytes \<times> 'b slice_input) option" where
  "si_Read A packet c =
     (if \<not> si_connected c then Some ([], c)
      else do {
        rb \<leftarrow> si_inbound c;
        if rb_IsEmpty rb then Some (si_bytes packet c, c)
        else do {
          bb \<leftarrow> rb_WithByteBuffer A rb (si_bytes packet c);
          Some (bb_Bytes A bb, c\<lparr>si_byteBuffer := Some bb\<rparr>)
        }
      })"

definition si_ResetBuffer :: "'b slice_input \<Rightarrow> 'b slice_input option" where
  "si_ResetBuffer c =
     do {
       rb \<leftarrow> si_inbound c;
       Some (c\<lparr>si_to := si_from c, si_inbound := Some (rb_Reset rb), si_byteBuffer := None\<rparr>)
     }"

definition si_ReadN ::
  "'b bb_api \<Rightarrow> int \<Rightarrow> bytes \<Rightarrow> 'b slice_input \<Rightarrow> (int \<times> bytes \<times> 'b slice_input) option" where
  "si_ReadN A n0 packet c =
     do {
       rb \<leftarrow> si_inbound c;
       let inBufferLen = rb_Length rb;
       let tempBufferLen = si_len c;
       let totalLen = inBufferLen + tempBufferLen;
       let n = (if totalLen < n0 \<or> n0 \<le> 0 then totalLen else n0);
       if rb_IsEmpty rb then do {
         buf \<leftarrow> si_first packet n c;
         Some (n, buf, c)
       }
       else do {
         (head, tail) \<leftarrow> rb_LazyRead rb n;
         let bb = bb_Write A (bb_Write A (bb_Get A) head) tail;
         if inBufferLen \<ge> n then Some (n, bb_Bytes A bb, c\<lparr>si_byteBuffer := Some bb\<rparr>)
         else do {
           rest \<leftarrow> si_first packet (n - inBufferLen) c;
           let bb' = bb_Write A bb rest;
           Some (n, bb_Bytes A bb', c\<lparr>si_byteBuffer := Some bb'\<rparr>)
         }
       }
     }"

definition si_ShiftN :: "int \<Rightarrow> 'b slice_input \<Rightarrow> (int \<times> 'b slice_input) option" where
  "si_ShiftN n c =
     do {
       rb \<leftarrow> si_inbound c;
       let inBufferLen = rb_Length rb;
       let tempBufferLen = si_len c;
       if inBufferLen + tempBufferLen < n \<or> n \<le> 0 then do {
         c' \<leftarrow> si_ResetBuffer c;
         Some (inBufferLen + tempBufferLen, c')
       }
       else if rb_IsEmpty rb then do {
         c' \<leftarrow> si_from_on n c;
         Some (n, c')
       }
       else do {
         let c1 = c\<lparr>si_byteBuffer := None\<rparr>;
         if inBufferLen \<ge> n then Some (n, c1\<lparr>si_inbound := Some (rb_Shift rb n)\<rparr>)
         else do {
           c2 \<leftarrow> si_from_on (n - inBufferLen) (c1\<lparr>si_inbound := Some (rb_Reset rb)\<rparr>);
           Some (n, c2)
         }
       }
     }"

definition si_BufferLength :: "'b slice_input \<Rightarrow> int option" where
  "si_BufferLength c =
     do {
       rb \<leftarrow> si_inbound c;
       Some (rb_Length rb + si_len c)
     }"

text \<open>The end of handleRead; the slice stays as it is.\<close>

definition si_keep :: "bytes \<Rightarrow> 'b slice_input \<Rightarrow> 'b slice_input option" where
  "si_keep packet c =
     (if si_bytes packet c = [] then Some c
      else do {
        rb \<leftarrow> si_inbound c;
        (_, rb') \<leftarrow> rb_Write rb (si_bytes packet c);
        Some (c\<lparr>si_inbound := Some rb'\<rparr>)
      })"

subsection \<open>Refinement of the methods on values\<close>

definition view :: "bytes \<Rightarrow> 'b slice_input \<Rightarrow> 'b conn_input" where
  "view packet c =
     \<lparr>ci_connected = si_connected c, ci_buffer = si_bytes packet c, ci_inbound = si_inbound c,
      ci_byteBuffer = si_byteBuffer c\<rparr>"

lemma view_simps [simp]:
  "ci_connected (view packet c) = si_connected c" "ci_buffer (view packet c) = si_bytes packet c"
  "ci_inbound (view packet c) = si_inbound c" "ci_byteBuffer (view packet c) = si_byteBuffer c"
  by (simp_all add: view_def)

text \<open>An update seen through the view.\<close>

lemma view_update [simp]:
  "view packet (c\<lparr>si_byteBuffer := b\<rparr>) = (view packet c)\<lparr>ci_byteBuffer := b\<rparr>"
  "view packet (c\<lparr>si_inbound := r\<rparr>) = (view packet c)\<lparr>ci_inbound := r\<rparr>"
  "view packet (c\<lparr>si_to := si_from c\<rparr>) = (view packet c)\<lparr>ci_buffer := []\<rparr>"
  "si_len (c\<lparr>si_byteBuffer := b\<rparr>) = si_len c" "si_len (c\<lparr>si_inbound := r\<rparr>) = si_len c"
  by (simp_all add: view_def si_bytes_def si_len_def)

lemma si_len: "si_ok packet c \<Longrightarrow> si_len c = int (length (si_bytes packet c))"
  by (auto simp: si_ok_def si_len_def si_bytes_def)

lemma si_first_slice: "si_ok packet c \<Longrightarrow> slice (si_bytes packet c) 0 n = si_first packet n c"
  by (auto simp: slice_def si_first_def si_ok_def si_len_def si_bytes_def min_def)

lemma si_from_on_slice:
  "si_ok packet c \<Longrightarrow>
    slice (si_bytes packet c) n (si_len c) = map_option (si_bytes packet) (si_from_on n c)"
  by (auto simp: slice_def si_from_on_def si_ok_def si_len_def si_bytes_def take_drop nat_diff_distrib add.commute)

lemma si_from_on_fields:
  "si_from_on n c = Some c' \<Longrightarrow>
    si_inbound c' = si_inbound c \<and> si_connected c' = si_connected c \<and> si_byteBuffer c' = si_byteBuffer c \<and>
    (si_ok packet c \<longrightarrow> si_ok packet c')"
  by (auto simp: si_from_on_def si_ok_def si_len_def split: if_splits)

lemma view_Read:
  "conn_Read A (view packet c) = map_option (\<lambda>(p, c'). (p, view packet c')) (si_Read A packet c)"
  by (auto simp: conn_Read_def si_Read_def split: bind_split)

lemma view_ResetBuffer: "conn_ResetBuffer (view packet c) = map_option (view packet) (si_ResetBuffer c)"
  by (cases "si_inbound c") (simp_all add: conn_ResetBuffer_def si_ResetBuffer_def view_def si_bytes_def)

lemma view_ReadN:
  assumes "si_ok packet c"
  shows "conn_ReadN A n (view packet c) = map_option (\<lambda>(m, p, c'). (m, p, view packet c')) (si_ReadN A n packet c)"
proof (cases "si_inbound c")
  case (Some rb)
  define m where "m = (if rb_Length rb + si_len c < n \<or> n \<le> 0 then rb_Length rb + si_len c else n)"
  show ?thesis
    unfolding conn_ReadN_def si_ReadN_def Let_def view_simps Some Option.bind.simps
      si_len [OF assms, symmetric] si_first_slice [OF assms] m_def [symmetric]
    by (cases "si_first packet m c"; cases "rb_LazyRead rb m"; cases "si_first packet (m - rb_Length rb) c") auto
qed (simp add: conn_ReadN_def si_ReadN_def)

lemma view_from_on:
  "si_from_on n c = Some c' \<Longrightarrow> view packet c' = (view packet c)\<lparr>ci_buffer := si_bytes packet c'\<rparr>"
  by (auto simp: si_from_on_def view_def split: if_splits)

lemma view_ShiftN:
  assumes "si_ok packet c"
  shows "conn_ShiftN n (view packet c) = map_option (\<lambda>(m, c'). (m, view packet c')) (si_ShiftN n c)"
proof (cases "si_inbound c")
  case (Some rb)
  have from_on: "si_from_on m (c\<lparr>si_byteBuffer := None, si_inbound := r\<rparr>) =
      map_option (\<lambda>c'. c'\<lparr>si_byteBuffer := None, si_inbound := r\<rparr>) (si_from_on m c)" for m r
    by (simp add: si_from_on_def)
  show ?thesis
    using Some view_ResetBuffer [of packet c] unfolding conn_ShiftN_def si_ShiftN_def Let_def view_simps
    by (simp add: si_len [OF assms, symmetric] si_from_on_slice [OF assms] from_on)
      (cases "si_from_on n c"; cases "si_from_on (n - rb_Length rb) c"; cases "si_ResetBuffer c";
        auto simp: view_from_on)
qed (simp add: conn_ShiftN_def si_ShiftN_def)

lemma view_BufferLength: "si_ok packet c \<Longrightarrow> conn_BufferLength (view packet c) = si_BufferLength c"
  by (simp add: conn_BufferLength_def si_BufferLength_def si_len)

lemma view_keep: "conn_keep (ci_buffer (view packet c)) (view packet c) = map_option (view packet) (si_keep packet c)"
  by (auto simp: conn_keep_def si_keep_def view_def si_bytes_def split: bind_split)

lemma view_chunk:
  assumes "length chunk \<le> length packet"
  shows "view (fill chunk packet) (si_chunk chunk c) = (view packet c)\<lparr>ci_buffer := chunk\<rparr> \<and>
    si_ok (fill chunk packet) (si_chunk chunk c) \<and> length (fill chunk packet) = length packet"
  using assms by (simp add: view_def si_bytes_def si_chunk_def si_ok_def fill_def)

lemma methods_keep_slice:
  assumes "si_ok packet c"
  shows "si_Read A packet c = Some (p, c') \<Longrightarrow> si_ok packet c'"
    "si_ReadN A n packet c = Some (m, p, c') \<Longrightarrow> si_ok packet c'"
    "si_ShiftN n c = Some (m, c') \<Longrightarrow> si_ok packet c'"
    "si_ResetBuffer c = Some c' \<Longrightarrow> si_ok packet c'"
  using assms
  by (auto simp: si_Read_def si_ReadN_def si_ShiftN_def si_ResetBuffer_def si_from_on_def si_ok_def si_len_def Let_def
      split: if_splits bind_splits prod.splits)


definition slice_example :: "nat \<Rightarrow> nat \<Rightarrow> bytes slice_input" where
  "slice_example lo hi =
     \<lparr>si_connected = True, si_from = lo, si_to = hi, si_inbound = Some ring8, si_byteBuffer = None\<rparr>"


subsection \<open>What the slice shows later\<close>

text \<open>
  C36. handleRead appends the unconsumed rest of a chunk to the inbound buffer and leaves
  the slice as it is. Until the connection reads again, BufferLength counts the rest twice
  and Read returns it twice; and once another connection of the loop has read, the second
  copy that Read returns consists of that connection's bytes.
\<close>
theorem kept_packet_shows_other_connection:
  assumes "bb_laws A" "si_ok packet c" "si_connected c" "si_from c < si_to c"
    and "si_inbound c = Some rb" "rb_inv rb" "rb_room rb (length (si_bytes packet c))"
    and "si_to c \<le> length chunk" "length chunk \<le> length packet"
  shows "\<exists>c' c1 c2. si_keep packet c = Some c' \<and>
    si_BufferLength c' = Some (int (length (rb_contents rb)) + 2 * si_len c) \<and>
    si_Read A packet c' = Some (rb_contents rb @ si_bytes packet c @ si_bytes packet c, c1) \<and>
    si_Read A (fill chunk packet) c' =
      Some (rb_contents rb @ si_bytes packet c @ take (si_to c - si_from c) (drop (si_from c) chunk), c2)"
proof -
  obtain n rb' where rb': "rb_Write rb (si_bytes packet c) = Some (n, rb')" "rb_inv rb'"
    "rb_contents rb' = rb_contents rb @ si_bytes packet c"
    using rbq.write_law [OF assms(6,7)] by blast
  let ?c = "c\<lparr>si_inbound := Some rb'\<rparr>"
  have ne: "si_bytes packet c \<noteq> []" using assms(2,4) by (auto simp: si_bytes_def si_ok_def)
  have read: "\<exists>c1. si_Read A pk ?c = Some (rb_contents rb' @ si_bytes pk c, c1)" for pk
  proof -
    have "conn_inv (view pk ?c)" "conn_avail (view pk ?c) = rb_contents rb' @ si_bytes pk c"
      using rb' assms(3) by (simp_all add: conn_inv_def conn_avail_def)
    with conn_Read_correct [OF assms(1) this(1)] view_Read [of A pk ?c] show ?thesis by auto
  qed
  have "si_bytes (fill chunk packet) c = take (si_to c - si_from c) (drop (si_from c) chunk)"
    using assms(4,8) by (simp add: si_bytes_def fill_def)
  with read [of packet] read [of "fill chunk packet"] rb' ne assms(5) show ?thesis
    by (auto simp: si_keep_def si_BufferLength_def rb_Length_eq si_len [OF assms(2)])
qed

theorem kept_packet_shows_other_connection_witness:
  "\<exists>c' c1 c2. si_keep [1, 2, 0, 0, 0] (slice_example 0 2) = Some c' \<and>
     si_BufferLength c' = Some 4 \<and> si_Read bb_list [1, 2, 0, 0, 0] c' = Some ([1, 2, 1, 2], c1) \<and>
     si_Read bb_list (fill [7, 8, 9] [1, 2, 0, 0, 0]) c' = Some ([1, 2, 7, 8], c2)"
  using kept_packet_shows_other_connection [OF bb_list_laws, of "[1, 2, 0, 0, 0]" "slice_example 0 2" ring8 "[7, 8, 9]"]
    ring8
  by (simp add: slice_example_def si_ok_def si_bytes_def si_len_def rb_room_def maxAlloc_def)

end
