(* ===== verification/Conn_Loop.thy ===== *)
theory Conn_Loop
  imports Tcp_Conn Tcp_Run
begin

text \<open>
  The connections of one event loop together: eventloop.go with the TCPConn of conn.go as
  its handlers. The loop's record is extended by the poller that its connections share,
  the connections themselves (a handler is the address of a TCPConn, its position in
  \<open>lp_conns\<close>; a closed one stays there, since jobs, timers and the user may still hold
  it), what the kernel will answer on each descriptor, the clock and the user's state.

  An operation of a connection runs on a \<open>focused\<close> state: the connection, with the loop's
  poller, handlers and queue. Callbacks see the other connections (\<open>lw_conns\<close>) and reach
  them as the library intends, by Write and Close, which queue jobs of the loop
  (\<open>lw_queue\<close>). \<open>put_back\<close> stores what the operation has changed.
\<close>

record ('b, 'x) slot =
  sl_conn :: "('b, 'x) tcp_conn"
  sl_reads :: "(nat + bytes) list"
  sl_writes :: "(nat + nat) list"
  sl_log :: "tcp_log list"

record ('b, 'x, 'k, 'u) loop_world = "(nat, nat \<times> tcp_job) event_loop" +
  lp_poll :: "'k epoll_env"
  lp_conns :: "('b, 'x) slot list"
  lp_idle :: int
  lp_now :: int
  lp_user :: 'u

record ('b, 'x, 'k, 'u) focused = "(nat, 'b, 'x, 'k) tcp_world" +
  lw_self :: nat
  lw_conns :: "('b, 'x) slot list"
  lw_queue :: "(nat \<times> tcp_job) list"
  lw_user :: 'u

definition focus :: "nat \<Rightarrow> ('b, 'x, 'k, 'u) loop_world \<Rightarrow> ('b, 'x, 'k, 'u) focused" where
  "focus h L =
     (let s = lp_conns L ! h
      in \<lparr>el_jobs = [], el_handlers = el_handlers L, el_eventHandling = el_eventHandling L,
          el_wakes = el_wakes L, tw_conn = sl_conn s, tw_poll = lp_poll L, tw_reads = sl_reads s,
          tw_writes = sl_writes s, tw_idle = lp_idle L, tw_now = lp_now L, tw_log = sl_log s,
          lw_self = h, lw_conns = lp_conns L, lw_queue = el_jobs L, lw_user = lp_user L\<rparr>)"

definition put_back ::
  "nat \<Rightarrow> ('b, 'x, 'k, 'u) focused \<Rightarrow> ('b, 'x, 'k, 'u) loop_world \<Rightarrow> ('b, 'x, 'k, 'u) loop_world" where
  "put_back h w L =
     L\<lparr>el_jobs := lw_queue w @ map (Pair h) (el_jobs w), el_handlers := el_handlers w,
       el_eventHandling := el_eventHandling w, el_wakes := el_wakes w, lp_poll := tw_poll w,
       lp_conns := (lp_conns L)[h := \<lparr>sl_conn = tw_conn w, sl_reads = tw_reads w,
         sl_writes = tw_writes w, sl_log = tw_log w\<rparr>],
       lp_user := lw_user w\<rparr>"

text \<open>Write and Close as a callback calls them, on its own or on another connection.\<close>

definition lw_connected :: "nat \<Rightarrow> ('b, 'x, 'k, 'u) focused \<Rightarrow> bool" where
  "lw_connected h w =
     ci_connected (if h = lw_self w then tw_conn w else sl_conn (lw_conns w ! h))"

definition lw_Trigger :: "nat \<Rightarrow> tcp_job \<Rightarrow> ('b, 'x, 'k, 'u) focused \<Rightarrow> ('b, 'x, 'k, 'u) focused" where
  "lw_Trigger h j w =
     (let w' = w\<lparr>lw_queue := lw_queue w @ [(h, j)]\<rparr>
      in if \<not> el_eventHandling w' then Wake w' else w')"

definition lw_Write ::
  "nat \<Rightarrow> bytes \<Rightarrow> ('b, 'x, 'k, 'u) focused \<Rightarrow> conn_error option \<times> ('b, 'x, 'k, 'u) focused" where
  "lw_Write h p w =
     (if \<not> lw_connected h w then (Some ErrConnectionClosed, w) else (None, lw_Trigger h (JWrite p) w))"

definition lw_Close ::
  "nat \<Rightarrow> ('b, 'x, 'k, 'u) focused \<Rightarrow> conn_error option \<times> ('b, 'x, 'k, 'u) focused" where
  "lw_Close h w =
     (if \<not> lw_connected h w then (Some ErrConnectionClosed, w) else (None, lw_Trigger h JClose w))"

subsection \<open>The loop's steps\<close>

definition loop_handler ::
  "(('b, 'x, 'k, 'u) focused \<Rightarrow> unit call \<times> ('b, 'x, 'k, 'u) focused) \<Rightarrow>
   (bytes \<Rightarrow> ('b, 'x, 'k, 'u) focused \<Rightarrow> bytes call \<times> ('b, 'x, 'k, 'u) focused) \<Rightarrow>
   (('b, 'x, 'k, 'u) focused \<Rightarrow> bytes option call \<times> ('b, 'x, 'k, 'u) focused) \<Rightarrow>
   nat \<Rightarrow> int \<Rightarrow> event \<Rightarrow> ('b, 'x, 'k, 'u) loop_world \<Rightarrow> outcome \<times> ('b, 'x, 'k, 'u) loop_world" where
  "loop_handler OnClose OnPacket unPacket h fd ev L =
     (let (out, w) = tcp_handler OnClose OnPacket unPacket h fd ev (focus h L) in (out, put_back h w L))"

definition loop_exec ::
  "(('b, 'x, 'k, 'u) focused \<Rightarrow> unit call \<times> ('b, 'x, 'k, 'u) focused) \<Rightarrow>
   nat \<times> tcp_job \<Rightarrow> ('b, 'x, 'k, 'u) loop_world \<Rightarrow> outcome \<times> ('b, 'x, 'k, 'u) loop_world" where
  "loop_exec OnClose hj L =
     (case hj of (h, j) \<Rightarrow>
        if h < length (lp_conns L)
        then (let (out, w) = tcp_exec OnClose j (focus h L) in (out, put_back h w L))
        else (Returned, L))"

text \<open>
  A new connection as handleNewConnection makes it, on the loop that nextLoop chose: the
  server's goroutine creates it, calls OnConnect and binds the handler; a failed
  registration is logged. The result is \<open>None\<close> if the connection is bound.
\<close>

datatype bind_failure = ConnectPanics panic_value | NotBound poll_error

definition loop_connect ::
  "(('b, 'x, 'k, 'u) focused \<Rightarrow> unit call \<times> ('b, 'x, 'k, 'u) focused) \<Rightarrow>
   int \<Rightarrow> int \<Rightarrow> string \<Rightarrow> ring_buffer \<Rightarrow> ring_buffer \<Rightarrow> (nat + bytes) list \<Rightarrow> (nat + nat) list \<Rightarrow>
   ('b, 'x, 'k, 'u) loop_world \<Rightarrow> bind_failure option \<times> ('b, 'x, 'k, 'u) loop_world" where
  "loop_connect OnConnect clientID connfd addr rb1 rb2 rs ws L =
     (let h = length (lp_conns L);
          conn = NewTCPConn clientID connfd addr rb1 rb2 (lp_idle L) (lp_now L);
          L1 = L\<lparr>lp_conns := lp_conns L @ [\<lparr>sl_conn = conn, sl_reads = rs, sl_writes = ws, sl_log = []\<rparr>]\<rparr>
      in case OnConnect (focus h L1) of
           (Panics v, w) \<Rightarrow> (Some (ConnectPanics v), put_back h w L1)
         | (Returns _, w) \<Rightarrow>
             (let (e, w') = tcp_BindHandler connfd h w in (map_option NotBound e, put_back h w' L1)))"

datatype loop_input =
    Event int event | Wakeup
  | WriteOn nat bytes | CloseOn nat | TimerOn nat int
  | Connects int int string ring_buffer ring_buffer "(nat + bytes) list" "(nat + nat) list"

text \<open>A call on a connection from another goroutine.\<close>

definition loop_call ::
  "nat \<Rightarrow> (('b, 'x, 'k, 'u) focused \<Rightarrow> 'a \<times> ('b, 'x, 'k, 'u) focused) \<Rightarrow>
   ('b, 'x, 'k, 'u) loop_world \<Rightarrow> ('b, 'x, 'k, 'u) loop_world" where
  "loop_call h f L = (if h < length (lp_conns L) then put_back h (snd (f (focus h L))) L else L)"

fun loop_step ::
  "(('b, 'x, 'k, 'u) focused \<Rightarrow> unit call \<times> ('b, 'x, 'k, 'u) focused) \<Rightarrow>
   (('b, 'x, 'k, 'u) focused \<Rightarrow> unit call \<times> ('b, 'x, 'k, 'u) focused) \<Rightarrow>
   (bytes \<Rightarrow> ('b, 'x, 'k, 'u) focused \<Rightarrow> bytes call \<times> ('b, 'x, 'k, 'u) focused) \<Rightarrow>
   (('b, 'x, 'k, 'u) focused \<Rightarrow> bytes option call \<times> ('b, 'x, 'k, 'u) focused) \<Rightarrow>
   loop_input \<Rightarrow> ('b, 'x, 'k, 'u) loop_world \<Rightarrow> bool \<times> ('b, 'x, 'k, 'u) loop_world" where
  "loop_step OnConnect OnClose OnPacket unPacket (Event fd ev) L =
     handleEvent (loop_handler OnClose OnPacket unPacket) (loop_exec OnClose) fd ev L"
| "loop_step OnConnect OnClose OnPacket unPacket Wakeup L =
     handleEvent (loop_handler OnClose OnPacket unPacket) (loop_exec OnClose) (-1) 0 L"
| "loop_step OnConnect OnClose OnPacket unPacket (WriteOn h p) L = (True, loop_call h (tcp_Write p) L)"
| "loop_step OnConnect OnClose OnPacket unPacket (CloseOn h) L = (True, loop_call h tcp_Close L)"
| "loop_step OnConnect OnClose OnPacket unPacket (TimerOn h t) L =
     (True, loop_call h tcp_closeTimeoutConn (L\<lparr>lp_now := t\<rparr>))"
| "loop_step OnConnect OnClose OnPacket unPacket (Connects i fd addr rb1 rb2 rs ws) L =
     (let (e, L') = loop_connect OnConnect i fd addr rb1 rb2 rs ws L in (True, L'))"

fun loop_run ::
  "(('b, 'x, 'k, 'u) focused \<Rightarrow> unit call \<times> ('b, 'x, 'k, 'u) focused) \<Rightarrow>
   (('b, 'x, 'k, 'u) focused \<Rightarrow> unit call \<times> ('b, 'x, 'k, 'u) focused) \<Rightarrow>
   (bytes \<Rightarrow> ('b, 'x, 'k, 'u) focused \<Rightarrow> bytes call \<times> ('b, 'x, 'k, 'u) focused) \<Rightarrow>
   (('b, 'x, 'k, 'u) focused \<Rightarrow> bytes option call \<times> ('b, 'x, 'k, 'u) focused) \<Rightarrow>
   loop_input list \<Rightarrow> ('b, 'x, 'k, 'u) loop_world \<Rightarrow> bool \<times> ('b, 'x, 'k, 'u) loop_world" where
  "loop_run OnConnect OnClose OnPacket unPacket [] L = (True, L)"
| "loop_run OnConnect OnClose OnPacket unPacket (i # is) L =
     (case loop_step OnConnect OnClose OnPacket unPacket i L of
        (False, L1) \<Rightarrow> (False, L1)
      | (True, L1) \<Rightarrow> loop_run OnConnect OnClose OnPacket unPacket is L1)"

subsection \<open>Stopping the loop\<close>

text \<open>
  Stop of a connection loop (EventLoop.Stop and Poller.Close) as its caller sees it: Close
  of every handler, in the order in which the map is ranged over; then, if the poller
  runs, its wake-up, which the loop handles before it ends.
\<close>

definition EventLoop_Stop ::
  "(('b, 'x, 'k, 'u) focused \<Rightarrow> unit call \<times> ('b, 'x, 'k, 'u) focused) \<Rightarrow>
   (bytes \<Rightarrow> ('b, 'x, 'k, 'u) focused \<Rightarrow> bytes call \<times> ('b, 'x, 'k, 'u) focused) \<Rightarrow>
   (('b, 'x, 'k, 'u) focused \<Rightarrow> bytes option call \<times> ('b, 'x, 'k, 'u) focused) \<Rightarrow>
   bool \<Rightarrow> nat list \<Rightarrow> ('b, 'x, 'k, 'u) loop_world \<Rightarrow> poll_error option \<times> ('b, 'x, 'k, 'u) loop_world" where
  "EventLoop_Stop OnClose OnPacket unPacket running hs L =
     (let L1 = close_handlers (\<lambda>h. loop_call h tcp_Close) hs L
      in if \<not> running then (Some ErrClosed, L1)
         else (None, snd (handleEvent (loop_handler OnClose OnPacket unPacket) (loop_exec OnClose) (-1) 0 (Wake L1))))"

end
