(* ===== verification/Tcp_Frame.thy ===== *)
theory Tcp_Frame
  imports Tcp_Run
begin

text \<open>
  What an operation of a connection can reach. \<open>tcp_frame\<close> is the contract of a relation
  between states that the elementary changes keep: notes in the history, the answers of
  the socket, the connection's own fields, the poller's and the loop's entry of its own
  descriptor. Such a relation holds between the states before and after every operation
  whose callbacks keep it, however the operation ends; a packet loop that does not end
  has no state after it.
\<close>

abbreviation own_fd :: "('h, 'b, 'x, 'k, 'm) tcp_world_scheme \<Rightarrow> int" where
  "own_fd w \<equiv> tc_fd (tw_conn w)"

locale tcp_frame =
  fixes R :: "('h, 'b, 'x, 'k, 'm) tcp_world_scheme \<Rightarrow> ('h, 'b, 'x, 'k, 'm) tcp_world_scheme \<Rightarrow> bool"
  assumes refl: "R w w"
    and trans: "R w w1 \<Longrightarrow> R w1 w2 \<Longrightarrow> R w w2"
    and same_fd: "R w w1 \<Longrightarrow> own_fd w1 = own_fd w"
    and note_step: "R w (tw_note l w)"
    and reads_step: "R w (w\<lparr>tw_reads := rs\<rparr>)"
    and writes_step: "R w (w\<lparr>tw_writes := ws\<rparr>)"
    and conn_step: "tc_fd c = own_fd w \<Longrightarrow> R w (w\<lparr>tw_conn := c\<rparr>)"
    and ctl_step: "ep_ctl op (own_fd w) ev (tw_poll w) = (e, p) \<Longrightarrow> R w (w\<lparr>tw_poll := p\<rparr>)"
    and delete_step: "R w (DeleteFdInLoop (own_fd w) w)"
begin

lemma note_after: "R w w1 \<Longrightarrow> R w (tw_note l w1)"
  by (rule trans [OF _ note_step])

lemma conn_after: "R w w1 \<Longrightarrow> tc_fd c = own_fd w1 \<Longrightarrow> R w (w1\<lparr>tw_conn := c\<rparr>)"
  by (rule trans [OF _ conn_step])

lemma poll_after:
  "R w w1 \<Longrightarrow> ep_ctl op (own_fd w1) ev (tw_poll w1) = (e, p) \<Longrightarrow> R w (w1\<lparr>tw_poll := p\<rparr>)"
  by (rule trans [OF _ ctl_step])

lemma set_outbound_after: "R w w1 \<Longrightarrow> R w (set_outbound ob w1)"
  by (simp add: set_outbound_def conn_after)

lemma sys_write_keeps: "R w w1 \<Longrightarrow> sys_write p w1 = (a, w2) \<Longrightarrow> R w w2"
  using trans [OF _ writes_step, of w w1] note_after [of w]
  by (auto simp: sys_write_def Let_def split: list.splits sum.splits)

lemma sys_read_keeps: "sys_read w = (a, w1) \<Longrightarrow> R w w1"
  using refl reads_step note_after [of w]
  by (auto simp: sys_read_def Let_def split: list.splits sum.splits)

lemma EnableReadWrite_after: "R w w1 \<Longrightarrow> R w (tcp_EnableReadWrite w1)"
  using poll_after [of w w1]
  by (auto simp: tcp_EnableReadWrite_def ep_EnableReadWrite_def ep_mod_def split: prod.split)

lemma EnableRead_after: "R w w1 \<Longrightarrow> R w (tcp_EnableRead w1)"
  using poll_after [of w w1]
  by (auto simp: tcp_EnableRead_def ep_EnableRead_def ep_mod_def split: prod.split)

lemma written_after: "R w w1 \<Longrightarrow> R w (tcp_written w1)"
  using EnableRead_after by (auto simp: tcp_written_def split: option.splits)

lemma enqueue_after: "R w w1 \<Longrightarrow> R w (snd (tcp_enqueue p w1))"
  using set_outbound_after by (auto simp: tcp_enqueue_def split: option.splits)

lemma delete_after:
  assumes r: "R w w1" and fd: "fd = own_fd w1"
  shows "R w (tcp_DeleteFdInLoop fd w1)"
proof -
  obtain e p where p: "ep_ctl EPOLL_CTL_DEL fd 0 (tw_poll w1) = (e, p)" by fastforce
  let ?w2 = "tw_note (PollDeleted fd) (w1\<lparr>tw_poll := p\<rparr>)"
  have "R w ?w2" using r p fd by (intro note_after poll_after) simp_all
  moreover have "own_fd ?w2 = fd" using fd by (simp add: tw_note_def)
  ultimately show ?thesis
    using trans [OF _ delete_step, of w ?w2] p by (simp add: tcp_DeleteFdInLoop_def ep_Del_def)
qed

lemma release_after: "R w w1 \<Longrightarrow> R w (tcp_release w1)"
  using conn_after by (simp add: tcp_release_def)

subsection \<open>Operations\<close>

definition keeps_OnClose ::
  "(('h, 'b, 'x, 'k, 'm) tcp_world_scheme \<Rightarrow> unit call \<times> ('h, 'b, 'x, 'k, 'm) tcp_world_scheme) \<Rightarrow> bool" where
  "keeps_OnClose f \<longleftrightarrow> (\<forall>w r w1. f w = (r, w1) \<longrightarrow> R w w1)"

lemma handleClose_keeps:
  assumes f: "keeps_OnClose OnClose" and w1: "R w w1" "fd = own_fd w1"
    and res: "tcp_handleClose OnClose fd w1 = (r, w2)"
  shows "R w w2"
proof (cases "connected w1")
  case True
  let ?w2 = "tw_note OnCloseCalled (tcp_DeleteFdInLoop fd (w1\<lparr>tw_conn := (tw_conn w1)\<lparr>ci_connected := False\<rparr>\<rparr>))"
  have "R w ?w2" using w1 by (intro note_after delete_after conn_after) simp_all
  moreover obtain r3 w3 where w3: "OnClose ?w2 = (r3, w3)" by fastforce
  ultimately have "R w w3" using f trans unfolding keeps_OnClose_def by blast
  with res True w3 show ?thesis
    by (cases r3) (auto simp: tcp_handleClose_def Let_def intro: release_after note_after)
qed (use w1 res in \<open>simp add: tcp_handleClose_def\<close>)

lemma closing_after:
  assumes "keeps_OnClose OnClose" "R w w1"
  shows "R w (snd (tcp_handleClose OnClose (own_fd w1) w1))"
  using handleClose_keeps [OF assms HOL.refl] by (metis prod.collapse)

lemma write_keeps:
  assumes f: "keeps_OnClose OnClose" and w0: "R w w0"
  shows "R w (snd (tcp_write OnClose buf w0))"
proof -
  let ?w = "tw_note (Asked buf) w0"
  have start: "R w ?w" using w0 note_after by blast
  obtain a w1 where sw: "sys_write buf ?w = (a, w1)" by fastforce
  have w1: "R w w1" using sys_write_keeps [OF start sw] .
  have enable: "R w w2 \<Longrightarrow> R w (tcp_EnableReadWrite w2)" for w2
    by (rule EnableReadWrite_after)
  have enq: "tcp_enqueue p w1 = (r, w2) \<Longrightarrow> R w w2" for p r w2
    using enqueue_after [OF w1, of p] by simp
  show ?thesis
  proof (cases a)
    case (Inl e)
    with w0 start sw enq enable enqueue_after [OF start, of buf] closing_after [OF f w1] show ?thesis
      by (simp add: tcp_write_def Let_def split: option.split prod.split call.split)
  next
    case (Inr n)
    obtain r w2 where w2: "(if n = 0 then tcp_enqueue buf w1
                  else if n < length buf then tcp_enqueue (drop n buf) w1
                  else (Returns (), w1)) = (r, w2)" by fastforce
    then have "R w w2" using enq w1 by (auto split: if_splits)
    with w2 Inr w0 start sw enable enqueue_after [OF start, of buf] show ?thesis
      by (simp add: tcp_write_def Let_def split: option.split call.split)
  qed
qed

lemma handleWrite_keeps:
  assumes f: "keeps_OnClose OnClose" and w: "R w w0"
  shows "R w (snd (tcp_handleWrite OnClose w0))"
proof (cases "Option.bind (tc_outbound (tw_conn w0)) (\<lambda>ob. map_option (Pair ob) (rb_LazyReadAll ob))")
  case None
  with w show ?thesis by (simp add: tcp_handleWrite_def)
next
  case (Some x)
  then obtain ob h t where x: "Option.bind (tc_outbound (tw_conn w0))
      (\<lambda>ob. map_option (Pair ob) (rb_LazyReadAll ob)) = Some (ob, h, t)" by (cases x) auto
  obtain a w1 where w1: "sys_write h w0 = (a, w1)" "R w w1"
    using sys_write_keeps [OF w] by fastforce
  obtain b w3 where w3: "sys_write t (set_outbound (rb_Shift ob (int (projr a))) w1) = (b, w3)" "R w w3"
    using sys_write_keeps [OF set_outbound_after [OF w1(2)]] by fastforce
  show ?thesis
    using w1 w3 closing_after [OF f w1(2)] closing_after [OF f w3(2)]
    by (cases a; cases b) (simp_all add: tcp_handleWrite_def x Let_def written_after set_outbound_after)
qed

lemma on_conn_keeps:
  assumes "R w w1" "\<And>c x c'. f c = Some (x, c') \<Longrightarrow> tc_fd c' = tc_fd c"
  shows "R w (snd (on_conn f w1))"
  using assms conn_after by (auto simp: on_conn_def split: option.split)

definition keeps_OnPacket ::
  "(bytes \<Rightarrow> ('h, 'b, 'x, 'k, 'm) tcp_world_scheme \<Rightarrow> bytes call \<times> ('h, 'b, 'x, 'k, 'm) tcp_world_scheme) \<Rightarrow>
   bool" where
  "keeps_OnPacket g \<longleftrightarrow> (\<forall>p w r w1. g p w = (r, w1) \<longrightarrow> R w w1)"

definition keeps_unPacket ::
  "(('h, 'b, 'x, 'k, 'm) tcp_world_scheme \<Rightarrow> bytes option call \<times> ('h, 'b, 'x, 'k, 'm) tcp_world_scheme) \<Rightarrow>
   bool" where
  "keeps_unPacket u \<longleftrightarrow> (\<forall>w r w1. u w = (r, w1) \<longrightarrow> R w w1)"

lemma packets_keep:
  assumes "keeps_OnClose OnClose" "keeps_OnPacket OnPacket" "keeps_unPacket unPacket"
    and "tcp_packets OnClose OnPacket unPacket w = Some y"
  shows "R w (snd y)"
proof -
  have "keeps_OnClose f \<and> keeps_OnPacket g \<and> keeps_unPacket u \<longrightarrow> R w (snd y)"
    if "tcp_packets f g u w = Some y" for f g u w y
  proof (rule tcp_packets.raw_induct [OF _ that], rule impI)
    fix loop f g u w y
    assume IH: "\<And>f g u w y. loop f g u w = Some y \<Longrightarrow>
          keeps_OnClose f \<and> keeps_OnPacket g \<and> keeps_unPacket u \<longrightarrow> R w (snd y)"
      and step: "(case u w of
        (Panics v, w1) \<Rightarrow> Some (Panics v, w1)
      | (Returns None, w1) \<Rightarrow> Some (Returns (), w1)
      | (Returns (Some packet), w1) \<Rightarrow>
          (case g packet (tw_note (Delivered packet) w1) of
             (Panics v, w2) \<Rightarrow> Some (Panics v, w2)
           | (Returns out, w2) \<Rightarrow>
               (case (if length out > 0 then tcp_write f out w2 else (Returns (), w2)) of
                  (Panics v, w3) \<Rightarrow> Some (Panics v, w3)
                | (Returns _, w3) \<Rightarrow> loop f g u w3))) = Some y"
      and k: "keeps_OnClose f \<and> keeps_OnPacket g \<and> keeps_unPacket u"
    obtain r1 w1 where w1: "u w = (r1, w1)" "R w w1"
      using k unfolding keeps_unPacket_def by fastforce
    show "R w (snd y)"
    proof (cases "\<exists>p. r1 = Returns (Some p)")
      case False
      with step w1 show ?thesis by (auto split: call.splits option.splits)
    next
      case True
      then obtain p where p: "r1 = Returns (Some p)" by blast
      obtain r2 w2 where w2: "g p (tw_note (Delivered p) w1) = (r2, w2)" by fastforce
      then have "R (tw_note (Delivered p) w1) w2" using k unfolding keeps_OnPacket_def by blast
      from trans [OF note_after [OF w1(2)] this] have r2: "R w w2" .
      show ?thesis
      proof (cases r2)
        case (Returns out)
        obtain r3 w3 where w3: "(if length out > 0 then tcp_write f out w2 else (Returns (), w2)) = (r3, w3)"
          by fastforce
        then have r3: "R w w3" using r2 write_keeps [OF _ r2, of f out] k by (auto split: if_splits)
        show ?thesis
        proof (cases r3)
          case (Returns x)
          then have "loop f g u w3 = Some y" using step w1(1) w2 p w3 \<open>r2 = Returns out\<close> by simp
          with IH k trans [OF r3] show ?thesis by blast
        qed (use step w1(1) w2 p w3 r3 \<open>r2 = Returns out\<close> in auto)
      qed (use step w1(1) w2 p r2 in auto)
    qed
  qed
  with assms show ?thesis by blast
qed

lemma handleRead_keeps:
  assumes c: "keeps_OnClose OnClose" "keeps_OnPacket OnPacket" "keeps_unPacket unPacket"
    and w: "R w w0" and res: "tcp_handleRead OnClose OnPacket unPacket w0 = Some y"
  shows "R w (snd y)"
proof -
  obtain a w1 where w1: "sys_read w0 = (a, w1)" "R w w1"
    using sys_read_keeps trans [OF w] by fastforce
  have "R w (snd z)"
    if "tcp_packets OnClose OnPacket unPacket (w1\<lparr>tw_conn := (tw_conn w1)\<lparr>ci_buffer := p\<rparr>\<rparr>) = Some z" for p z
    by (rule trans [OF conn_after [OF w1(2)] packets_keep [OF c that]]) simp
  moreover have "R w (snd (on_conn (\<lambda>c. map_option (Pair ()) (conn_keep (ci_buffer c) c)) w2))"
    if "R w w2" for w2
    by (rule on_conn_keeps [OF that]) (auto simp: conn_keep_def split: if_splits bind_splits)
  ultimately show ?thesis
    using res w1 closing_after [OF c(1) w1(2)]
    by (fastforce simp: tcp_handleRead_def split: sum.splits if_splits option.splits prod.splits call.splits)
qed

text \<open>One event of the connection's descriptor, one job.\<close>

lemma Handle_keeps:
  assumes c: "keeps_OnClose OnClose" "keeps_OnPacket OnPacket" "keeps_unPacket unPacket"
    and fd: "fd = own_fd w" and res: "tcp_Handle OnClose OnPacket unPacket fd ev w = Some y"
  shows "R w (snd y)"
proof -
  let ?w = "if tw_idle w > 0 then w\<lparr>tw_conn := (tw_conn w)\<lparr>tc_activeTime := tw_now w div 1000000000\<rparr>\<rparr> else w"
  have w: "R w ?w" "fd = own_fd ?w" using fd refl [of w] conn_step [of _ w] by simp_all
  define v where "v = ?w"
  have v: "R w v" "fd = own_fd v" using w unfolding v_def .
  from closing_after [OF c(1) v(1)] handleWrite_keeps [OF c(1) v(1)] handleRead_keeps [OF c v(1)] res v
  show ?thesis
    unfolding tcp_Handle_def Let_def v_def [symmetric]
    by (auto split: if_splits option.splits)
qed

lemma job_keeps:
  assumes "keeps_OnClose OnClose"
  shows "R w (snd (tcp_job_call OnClose j w))"
  using write_keeps [OF assms refl] closing_after [OF assms refl]
  by (cases j) (simp_all add: tcp_job_call_def)

end

end
