(* ===== verification/Conn_Loop_Correct.thy ===== *)
theory Conn_Loop_Correct
  imports Conn_Loop Tcp_Props Tcp_Frame
begin

text \<open>
  The connections of one loop do not disturb each other: the invariant of the single
  connection, and any further one that depends on the connection and its history only,
  holds for each of them through every sequence of events, wake-ups, jobs, calls, timers
  and new connections.
\<close>

subsection \<open>What an operation of a connection leaves to the others\<close>

text \<open>
  It changes the poller's interests and the handlers only for its own descriptor, where
  it can only remove the handler.
\<close>

definition apart ::
  "('h, 'b, 'x, 'k, 'm) tcp_world_scheme \<Rightarrow> ('h, 'b, 'x, 'k, 'm) tcp_world_scheme \<Rightarrow> bool" where
  "apart w w' \<longleftrightarrow>
     own_fd w' = own_fd w \<and>
     (epoll_ctl_documented (tw_poll w) \<longrightarrow>
        epoll_ctl_documented (tw_poll w') \<and>
        (\<forall>fd. fd \<noteq> own_fd w \<longrightarrow>
           ee_interest (tw_poll w') (ee_kernel (tw_poll w')) fd = ee_interest (tw_poll w) (ee_kernel (tw_poll w)) fd)) \<and>
     (\<forall>fd. fd \<noteq> own_fd w \<longrightarrow> el_handlers w' fd = el_handlers w fd) \<and>
     el_handlers w' (own_fd w) \<in> {el_handlers w (own_fd w), None}"

lemma ctl_elsewhere:
  assumes "epoll_ctl_documented s" "ep_ctl op fd ev s = (e, s')"
  shows "epoll_ctl_documented s' \<and>
    (\<forall>g. g \<noteq> fd \<longrightarrow> ee_interest s' (ee_kernel s') g = ee_interest s (ee_kernel s) g)"
proof -
  obtain e' k where k: "ee_ctl s op fd ev (ee_kernel s) = (e', k)" "s' = s\<lparr>ee_kernel := k\<rparr>"
    using assms(2) by (auto simp: ep_ctl_def split: prod.splits)
  then have "case e' of
      Some _ \<Rightarrow> ee_interest s k = ee_interest s (ee_kernel s)
    | None \<Rightarrow> \<exists>x. ee_interest s k = (ee_interest s (ee_kernel s))(fd := x)"
    using assms(1) unfolding epoll_ctl_documented_def ctl_documented_def
    by (cases e'; cases op) fastforce+
  with k assms(1) show ?thesis by (auto split: option.splits)
qed

interpretation far: tcp_frame apart
proof (unfold_locales, goal_cases)
  case (8 op w ev e p)
  then show ?case using ctl_elsewhere [of "tw_poll w" op "own_fd w"] by (auto simp: apart_def)
qed (auto simp: apart_def tw_note_def DeleteFdInLoop_def)

lemma user_step_apart: "user_step w w' \<Longrightarrow> apart w w'"
  by (simp add: user_step_def apart_def)

text \<open>In every state, also those that the packet loop never reaches.\<close>

definition unPacket_apart ::
  "(('h, 'b, 'x, 'k, 'm) tcp_world_scheme \<Rightarrow> bytes option call \<times> ('h, 'b, 'x, 'k, 'm) tcp_world_scheme) \<Rightarrow>
   bool" where
  "unPacket_apart u \<longleftrightarrow> (\<forall>w r w'. u w = (r, w') \<longrightarrow> apart w w')"

lemma OnClose_apart: "OnClose_ok f \<Longrightarrow> far.keeps_OnClose f"
  unfolding OnClose_ok_def far.keeps_OnClose_def by (metis prod.inject user_step_apart)

lemma OnPacket_apart: "OnPacket_ok g \<Longrightarrow> far.keeps_OnPacket g"
  unfolding OnPacket_ok_def far.keeps_OnPacket_def by (metis prod.inject user_step_apart)

lemma unPacket_apart_keeps: "unPacket_apart u \<Longrightarrow> far.keeps_unPacket u"
  by (simp add: unPacket_apart_def far.keeps_unPacket_def)

subsection \<open>The invariant of the loop\<close>

text \<open>
  A closed connection whose descriptor number may belong to another connection by now:
  \<open>closed_inv\<close> without the loop's tables.
\<close>

definition released :: "('b, 'x) slot \<Rightarrow> bool" where
  "released s \<longleftrightarrow>
     \<not> ci_connected (sl_conn s) \<and> ci_inbound (sl_conn s) = None \<and> ci_buffer (sl_conn s) = [] \<and>
     tc_outbound (sl_conn s) = None \<and> prefix (log_accepted (sl_log s)) (log_asked (sl_log s)) \<and>
     log_closing (sl_log s) = [PollDeleted (tc_fd (sl_conn s)), OnCloseCalled, FdClosed (tc_fd (sl_conn s))]"

text \<open>
  Every handler is a connected connection of its descriptor; every connected connection
  is bound and satisfies the invariant of a single one, and \<open>P\<close>; the others are released.
\<close>

definition loop_ok ::
  "(('b, 'x, 'k, 'u) focused \<Rightarrow> bool) \<Rightarrow> ('b, 'x, 'k, 'u) loop_world \<Rightarrow> bool" where
  "loop_ok P L \<longleftrightarrow>
     epoll_ctl_documented (lp_poll L) \<and>
     (\<forall>fd h. el_handlers L fd = Some h \<longrightarrow> h < length (lp_conns L) \<and>
        ci_connected (sl_conn (lp_conns L ! h)) \<and> tc_fd (sl_conn (lp_conns L ! h)) = fd) \<and>
     (\<forall>h < length (lp_conns L).
        if ci_connected (sl_conn (lp_conns L ! h))
        then el_handlers L (tc_fd (sl_conn (lp_conns L ! h))) = Some h \<and> tcp_inv (focus h L) \<and> P (focus h L)
        else released (lp_conns L ! h))"

text \<open>An invariant that looks at the connection and its history only.\<close>

definition local_to_conn :: "(('b, 'x, 'k, 'u) focused \<Rightarrow> bool) \<Rightarrow> bool" where
  "local_to_conn P \<longleftrightarrow> (\<forall>v v'. tw_conn v = tw_conn v' \<longrightarrow> tw_log v = tw_log v' \<longrightarrow> P v = P v')"

lemma focus_simps [simp]:
  "tw_conn (focus h L) = sl_conn (lp_conns L ! h)" "tw_log (focus h L) = sl_log (lp_conns L ! h)"
  "tw_poll (focus h L) = lp_poll L" "el_handlers (focus h L) = el_handlers L"
  "el_jobs (focus h L) = []" "lw_queue (focus h L) = el_jobs L" "tw_idle (focus h L) = lp_idle L"
  "tw_now (focus h L) = lp_now L"
  by (simp_all add: focus_def Let_def)

lemma put_back_simps [simp]:
  "lp_poll (put_back h w L) = tw_poll w" "el_handlers (put_back h w L) = el_handlers w"
  "length (lp_conns (put_back h w L)) = length (lp_conns L)"
  "g \<noteq> h \<Longrightarrow> lp_conns (put_back h w L) ! g = lp_conns L ! g"
  "h < length (lp_conns L) \<Longrightarrow> sl_conn (lp_conns (put_back h w L) ! h) = tw_conn w"
  "h < length (lp_conns L) \<Longrightarrow> sl_log (lp_conns (put_back h w L) ! h) = tw_log w"
  by (simp_all add: put_back_def)

lemma slot_eta:
  "\<lparr>sl_conn = sl_conn s, sl_reads = sl_reads s, sl_writes = sl_writes s, sl_log = sl_log s\<rparr> = s"
  by (cases s) simp

lemma put_back_focus: "h < length (lp_conns L) \<Longrightarrow> put_back h (focus h L) L = L"
  by (simp add: put_back_def focus_def Let_def slot_eta)

text \<open>The invariant of an open connection depends on its own entries of the loop's tables.\<close>

lemma tcp_inv_own:
  assumes "tcp_inv w" "connected w" "tw_conn w' = tw_conn w" "tw_log w' = tw_log w"
    and "epoll_ctl_documented (tw_poll w')" "el_handlers w' (own_fd w) = el_handlers w (own_fd w)"
    and "ee_interest (tw_poll w') (ee_kernel (tw_poll w')) (own_fd w) =
      ee_interest (tw_poll w) (ee_kernel (tw_poll w)) (own_fd w)"
  shows "tcp_inv w'"
  using assms
  by (auto simp: tcp_inv_def out_inv_def open_inv_def closed_inv_def wr_ok_def ep_rd_def ep_wr_def)

lemma closed_released:
  "tcp_inv w \<Longrightarrow> \<not> connected w \<Longrightarrow>
    released \<lparr>sl_conn = tw_conn w, sl_reads = rs, sl_writes = ws, sl_log = tw_log w\<rparr> \<and>
    el_handlers w (own_fd w) = None"
  by (auto simp: tcp_inv_def out_inv_def open_inv_def conn_inv_def closed_inv_def released_def)

lemma loop_okD:
  assumes "loop_ok P L"
  shows "epoll_ctl_documented (lp_poll L)"
    "el_handlers L fd = Some h \<Longrightarrow> h < length (lp_conns L) \<and>
      ci_connected (sl_conn (lp_conns L ! h)) \<and> tc_fd (sl_conn (lp_conns L ! h)) = fd"
    "h < length (lp_conns L) \<Longrightarrow> ci_connected (sl_conn (lp_conns L ! h)) \<Longrightarrow>
      el_handlers L (tc_fd (sl_conn (lp_conns L ! h))) = Some h \<and> tcp_inv (focus h L) \<and> P (focus h L)"
    "h < length (lp_conns L) \<Longrightarrow> \<not> ci_connected (sl_conn (lp_conns L ! h)) \<Longrightarrow> released (lp_conns L ! h)"
  using assms unfolding loop_ok_def by meson+

text \<open>Two open connections of a loop have different descriptors.\<close>

lemma loop_ok_distinct:
  assumes "loop_ok P L" "g < length (lp_conns L)" "h < length (lp_conns L)"
    and "ci_connected (sl_conn (lp_conns L ! g))" "ci_connected (sl_conn (lp_conns L ! h))" "g \<noteq> h"
  shows "tc_fd (sl_conn (lp_conns L ! g)) \<noteq> tc_fd (sl_conn (lp_conns L ! h))"
  using loop_okD(3) [OF assms(1,2,4)] loop_okD(3) [OF assms(1,3,5)] assms(6) by auto

lemma localD:
  "local_to_conn P \<Longrightarrow> P v \<Longrightarrow> tw_conn v' = tw_conn v \<Longrightarrow> tw_log v' = tw_log v \<Longrightarrow> P v'"
  unfolding local_to_conn_def by metis

lemma put_back_ok:
  assumes ok: "loop_ok P L" and loc: "local_to_conn P" and h: "h < length (lp_conns L)"
    and con: "ci_connected (sl_conn (lp_conns L ! h))"
    and ap: "apart (focus h L) w" and inv: "tcp_inv w" and P: "connected w \<Longrightarrow> P w"
  shows "loop_ok P (put_back h w L)"
proof -
  let ?L = "put_back h w L" and ?fd = "tc_fd (sl_conn (lp_conns L ! h))"
  note d = loop_okD [OF ok]
  have w: "own_fd w = ?fd" "epoll_ctl_documented (tw_poll w)"
    "\<And>fd. fd \<noteq> ?fd \<Longrightarrow> el_handlers w fd = el_handlers L fd"
    "\<And>fd. fd \<noteq> ?fd \<Longrightarrow> ee_interest (tw_poll w) (ee_kernel (tw_poll w)) fd =
       ee_interest (lp_poll L) (ee_kernel (lp_poll L)) fd"
    "el_handlers w ?fd \<in> {Some h, None}"
    using ap d(1) d(3) [OF h con] by (auto simp: apart_def)
  have own: "connected w \<longleftrightarrow> el_handlers w ?fd = Some h"
    using connected_handler [OF inv] w(1,5) by auto
  have handlers: "g < length (lp_conns L) \<and> ci_connected (sl_conn (lp_conns ?L ! g)) \<and>
      tc_fd (sl_conn (lp_conns ?L ! g)) = fd" if "el_handlers w fd = Some g" for fd g
  proof (cases "fd = ?fd")
    case True
    with that own w(1,5) h show ?thesis by auto
  next
    case False
    with that w(3) d(2) [of fd g] have "g < length (lp_conns L)" "g \<noteq> h"
      "ci_connected (sl_conn (lp_conns L ! g))" "tc_fd (sl_conn (lp_conns L ! g)) = fd" by auto
    then show ?thesis by simp
  qed
  have slots: "if ci_connected (sl_conn (lp_conns ?L ! g))
      then el_handlers w (tc_fd (sl_conn (lp_conns ?L ! g))) = Some g \<and> tcp_inv (focus g ?L) \<and> P (focus g ?L)
      else released (lp_conns ?L ! g)" if g: "g < length (lp_conns L)" for g
  proof (cases "g = h")
    case True
    have "tcp_inv (focus h ?L)" "P (focus h ?L)" if "connected w"
      using tcp_inv_own [OF inv that, of "focus h ?L"] localD [OF loc P [OF that], of "focus h ?L"] w(2) h
      by simp_all
    moreover have "released (lp_conns ?L ! h)" if "\<not> connected w"
      using closed_released [OF inv that] h by (simp add: put_back_def)
    ultimately show ?thesis using True h own w(1) by simp
  next
    case False
    show ?thesis
    proof (cases "ci_connected (sl_conn (lp_conns L ! g))")
      case True
      have fd: "tc_fd (sl_conn (lp_conns L ! g)) \<noteq> ?fd"
        using loop_ok_distinct [OF ok g h True con False] .
      have "tcp_inv (focus g ?L)" "P (focus g ?L)"
        using tcp_inv_own [of "focus g L" "focus g ?L"] localD [OF loc, of "focus g L" "focus g ?L"]
          d(3) [OF g True] True False fd w(2-4) by simp_all
      with True False fd d(3) [OF g True] w(3) show ?thesis by simp
    qed (use False d(4) [OF g] in simp)
  qed
  show ?thesis
    unfolding loop_ok_def using w(2) handlers slots by simp
qed

subsection \<open>Jobs\<close>

text \<open>Histories only grow, so what fits at the end fitted all the time.\<close>

definition loop_fits :: "('b, 'x, 'k, 'u) loop_world \<Rightarrow> bool" where
  "loop_fits L \<longleftrightarrow> (\<forall>s \<in> set (lp_conns L). fits (log_asked (sl_log s)) \<and> fits (log_received (sl_log s)))"

definition loop_grows :: "('b, 'x, 'k, 'u) loop_world \<Rightarrow> ('b, 'x, 'k, 'u) loop_world \<Rightarrow> bool" where
  "loop_grows L L' \<longleftrightarrow>
     length (lp_conns L) \<le> length (lp_conns L') \<and>
     (\<forall>h < length (lp_conns L).
        prefix (log_asked (sl_log (lp_conns L ! h))) (log_asked (sl_log (lp_conns L' ! h))) \<and>
        prefix (log_received (sl_log (lp_conns L ! h))) (log_received (sl_log (lp_conns L' ! h))))"

lemma loop_grows_refl [simp]: "loop_grows L L"
  by (simp add: loop_grows_def)

lemma loop_grows_trans: "loop_grows L L1 \<Longrightarrow> loop_grows L1 L2 \<Longrightarrow> loop_grows L L2"
  unfolding loop_grows_def by (meson order_trans less_le_trans prefix_order.trans)

lemma fits_prefix: "prefix p q \<Longrightarrow> fits q \<Longrightarrow> fits p"
  by (auto dest!: prefix_length_le)

lemma loop_grows_fits: "loop_grows L L' \<Longrightarrow> loop_fits L' \<Longrightarrow> loop_fits L"
  unfolding loop_fits_def loop_grows_def
  by (simp add: all_set_conv_all_nth) (meson fits_prefix less_le_trans)

lemma put_back_grows:
  assumes "event_frame (focus h L) w" "h < length (lp_conns L)"
  shows "loop_grows L (put_back h w L)"
proof -
  have "prefix (log_asked (sl_log (lp_conns L ! g))) (log_asked (sl_log (lp_conns (put_back h w L) ! g))) \<and>
      prefix (log_received (sl_log (lp_conns L ! g))) (log_received (sl_log (lp_conns (put_back h w L) ! g)))" for g
    using assms by (cases "g = h") (simp_all add: event_frame_def)
  then show ?thesis by (simp add: loop_grows_def)
qed

lemma put_back_fits:
  "loop_fits (put_back h w L) \<Longrightarrow> h < length (lp_conns L) \<Longrightarrow> fits (asked w) \<and> fits (received w)"
  unfolding loop_fits_def all_set_conv_all_nth by (metis put_back_simps(3,5,6))

text \<open>The loop's own fields do not matter to its invariant.\<close>

lemma tcp_inv_focus_fields:
  assumes "lp_conns L' = lp_conns L" "lp_poll L' = lp_poll L" "el_handlers L' = el_handlers L"
  shows "tcp_inv (focus h L') = tcp_inv (focus h L)"
  by (simp add: assms tcp_inv_def out_inv_def open_inv_def closed_inv_def wr_ok_def watched_def)

lemma loop_ok_fields:
  assumes "local_to_conn P" "lp_conns L' = lp_conns L" "lp_poll L' = lp_poll L" "el_handlers L' = el_handlers L"
  shows "loop_ok P L' = loop_ok P L"
proof -
  have "P (focus h L') = P (focus h L)" for h
    using assms(1) unfolding local_to_conn_def by (simp add: assms(2))
  then show ?thesis
    using assms(2-4) by (simp add: loop_ok_def tcp_inv_focus_fields [OF assms(2-4)])
qed

lemma released_job:
  "\<not> connected w \<Longrightarrow> tcp_job_call OnClose j w = (Returns (), w)"
  by (cases j) (simp_all add: tcp_job_call_def tcp_write_def tcp_handleClose_def)

lemma loop_exec_grows:
  assumes "OnClose_ok OnClose"
  shows "loop_grows L (snd (loop_exec OnClose hj L))"
proof -
  obtain h j where hj: "hj = (h, j)" by (cases hj)
  obtain r w where w: "tcp_job_call OnClose j (focus h L) = (r, w)" by fastforce
  then have "event_frame (focus h L) w"
    using tcp_job_frame [OF assms, of "focus h L" j] call_event_frame by fastforce
  with put_back_grows w hj show ?thesis by (cases r) (auto simp: loop_exec_def tcp_exec_def)
qed

lemma loop_jobs_grow:
  assumes "OnClose_ok OnClose"
  shows "loop_grows L (snd (run_jobs (loop_exec OnClose) js L))"
proof (induction js arbitrary: L)
  case (Cons j js)
  obtain out L1 where L1: "loop_exec OnClose j L = (out, L1)" by fastforce
  with loop_exec_grows [OF assms, of L j] loop_grows_trans [OF _ Cons.IH, of L L1] show ?case
    by (cases out) simp_all
qed simp

lemma loop_exec_ok:
  assumes f: "OnClose_ok OnClose" and loc: "local_to_conn P" and keep: "kept_by_calls P" and ok: "loop_ok P L"
    and res: "loop_exec OnClose hj L = (out, L')" and fits: "loop_fits L'"
  shows "out = Returned \<and> loop_ok P L'"
proof (cases "fst hj < length (lp_conns L)")
  case True
  obtain h j where hj: "hj = (h, j)" by (cases hj)
  with True have h: "h < length (lp_conns L)" by simp
  obtain r w where w: "tcp_job_call OnClose j (focus h L) = (r, w)" by fastforce
  then have eq: "out = fst (tcp_outcome (r, w))" "L' = put_back h w L"
    using h hj res by (cases r; simp add: loop_exec_def tcp_exec_def)+
  show ?thesis
  proof (cases "ci_connected (sl_conn (lp_conns L ! h))")
    case False
    with released_job [of "focus h L" OnClose j] w eq ok put_back_focus [OF h] show ?thesis by simp
  next
    case con: True
    from loop_okD(3) [OF ok h con] have inv: "tcp_inv (focus h L)" and P: "P (focus h L)" by auto
    have "r = Returns ()" "tcp_inv w"
      using tcp_job_inv [OF f inv, of j] w put_back_fits [OF fits [unfolded eq(2)] h] by auto
    moreover have "P w"
      using tcp_job_frame [OF f, of "focus h L" j] kept_by_calls_fields(1) [OF keep P] w by auto
    moreover have "apart (focus h L) w"
      using far.job_keeps [OF OnClose_apart [OF f], of "focus h L" j] w by simp
    ultimately show ?thesis using eq put_back_ok [OF ok loc h con] by simp
  qed
qed (use ok res in \<open>auto simp: loop_exec_def split: prod.splits\<close>)

lemma loop_jobs_ok:
  assumes f: "OnClose_ok OnClose" and loc: "local_to_conn P" and keep: "kept_by_calls P"
  shows "loop_ok P L \<Longrightarrow> run_jobs (loop_exec OnClose) js L = (out, L') \<Longrightarrow> loop_fits L' \<Longrightarrow>
    out = Returned \<and> loop_ok P L'"
proof (induction js arbitrary: L)
  case (Cons j js)
  obtain out1 L1 where L1: "loop_exec OnClose j L = (out1, L1)" by fastforce
  have "loop_grows L1 L' \<or> L' = L1"
    using Cons.prems(2) L1 loop_jobs_grow [OF f, of L1 js] by (cases out1) auto
  then have "loop_fits L1" using Cons.prems(3) loop_grows_fits by blast
  with loop_exec_ok [OF f loc keep Cons.prems(1) L1] have "out1 = Returned" "loop_ok P L1" by auto
  with Cons.IH [of L1] Cons.prems(2,3) L1 show ?case by simp
qed simp

subsection \<open>Steps of the loop\<close>

lemma loop_handleEvent_ok:
  assumes f: "OnClose_ok OnClose" and g: "OnPacket_ok OnPacket" and u: "unPacket_ok unPacket" "unPacket_apart unPacket"
    and loc: "local_to_conn P" and keep: "kept_by_calls P" "kept_by_handler OnClose OnPacket unPacket P"
    and ok: "loop_ok P L"
    and res: "handleEvent (loop_handler OnClose OnPacket unPacket) (loop_exec OnClose) fd ev L = (b, L')"
    and fits: "loop_fits L'"
  shows "b \<and> loop_ok P L'"
proof -
  let ?L1 = "L\<lparr>el_eventHandling := True\<rparr>"
  have ok1: "loop_ok P ?L1" using ok loop_ok_fields [OF loc, of ?L1 L] by simp
  obtain out L2 where L2: "(if fd \<noteq> -1 then (case el_handlers ?L1 fd of
       Some h \<Rightarrow> loop_handler OnClose OnPacket unPacket h fd ev ?L1 | None \<Rightarrow> (Returned, ?L1))
     else (Returned, ?L1)) = (out, L2)" by fastforce
  have called: "out = Returned \<and> loop_ok P L2" if L2fits: "loop_fits L2"
  proof (cases "fd \<noteq> -1 \<and> el_handlers ?L1 fd \<noteq> None")
    case False
    with L2 ok1 show ?thesis by (auto split: if_splits)
  next
    case True
    then obtain h where "el_handlers ?L1 fd = Some h" by blast
    with loop_okD(2) [OF ok1] have h: "h < length (lp_conns ?L1)"
      and con: "ci_connected (sl_conn (lp_conns ?L1 ! h))" and fd: "tc_fd (sl_conn (lp_conns ?L1 ! h)) = fd"
      and hd: "el_handlers ?L1 fd = Some h" by blast+
    from loop_okD(3) [OF ok1 h con] have inv: "tcp_inv (focus h ?L1)" and P: "P (focus h ?L1)" by auto
    from tcp_Handle_inv [OF f g u(1) inv, of fd ev] con fd obtain r w where
      w: "tcp_Handle OnClose OnPacket unPacket fd ev (focus h ?L1) = Some (r, w)"
        "fits (asked w) \<and> fits (received w) \<longrightarrow> r = Returns () \<and> tcp_inv w" by auto
    have eq: "out = fst (tcp_outcome (r, w))" "L2 = put_back h w ?L1"
      using L2 True hd w(1) by (cases r; simp add: loop_handler_def tcp_handler_def)+
    have room: "fits (asked w) \<and> fits (received w)"
      using put_back_fits [OF L2fits [unfolded eq(2)] h] .
    with w(2) have r: "r = Returns ()" "tcp_inv w" by auto
    have "P w"
      using keep(2) [unfolded kept_by_handler_def, rule_format, of "focus h ?L1" ev w] inv con P w(1) r(1) fd room
      by simp
    moreover have "apart (focus h ?L1) w"
      using far.Handle_keeps [OF OnClose_apart [OF f] OnPacket_apart [OF g] unPacket_apart_keeps [OF u(2)] _ w(1)] fd
      by simp
    ultimately show ?thesis using put_back_ok [OF ok1 loc h con _ r(2)] r(1) eq by simp
  qed
  let ?L3 = "L2\<lparr>el_eventHandling := False\<rparr>"
  obtain out3 L4 where L4: "run_jobs (loop_exec OnClose) (el_jobs ?L3) (?L3\<lparr>el_jobs := []\<rparr>) = (out3, L4)"
    by fastforce
  have eq: "(b, L') = (case out of Panicked v \<Rightarrow> (recovered v, L2)
       | _ \<Rightarrow> (case out3 of Panicked v \<Rightarrow> (recovered v, L4) | _ \<Rightarrow> (True, L4)))"
    using L4 unfolding res [symmetric] handleEvent_def Let_def L2 ExecuteJobs_def
    by (simp split: outcome.split)
  have "loop_grows (?L3\<lparr>el_jobs := []\<rparr>) L4" using loop_jobs_grow [OF f] L4 by (metis snd_conv)
  from loop_grows_fits [OF this] have "loop_fits L4 \<Longrightarrow> loop_fits L2" by (simp add: loop_fits_def)
  with fits eq called have "out = Returned" "loop_ok P L2" by (cases out; cases out3; auto)+
  moreover from this have "loop_ok P (?L3\<lparr>el_jobs := []\<rparr>)"
    using loop_ok_fields [OF loc, of "?L3\<lparr>el_jobs := []\<rparr>" L2] by simp
  from loop_jobs_ok [OF f loc keep(1) this L4] eq fits \<open>out = Returned\<close>
  have "out3 = Returned \<and> loop_ok P L4" by (cases out3) auto
  ultimately show ?thesis using eq by simp
qed

text \<open>Calls from outside only queue jobs and wake the loop.\<close>

definition same_conn ::
  "('h, 'b, 'x, 'k, 'm) tcp_world_scheme \<Rightarrow> ('h, 'b, 'x, 'k, 'm) tcp_world_scheme \<Rightarrow> bool" where
  "same_conn w w' \<longleftrightarrow>
     tw_conn w' = tw_conn w \<and> tw_log w' = tw_log w \<and> tw_reads w' = tw_reads w \<and>
     tw_writes w' = tw_writes w \<and> tw_poll w' = tw_poll w \<and> el_handlers w' = el_handlers w"

lemma same_conn_Trigger: "same_conn w w" "same_conn w (Trigger j w)"
  by (simp_all add: same_conn_def Trigger_def Push_def Wake_def)

lemma queued_calls:
  "same_conn w (snd (tcp_Write p w))" "same_conn w (snd (tcp_Close w))" "same_conn w (snd (tcp_closeTimeoutConn w))"
  using same_conn_Trigger by (auto simp: tcp_Write_def tcp_Close_def tcp_closeTimeoutConn_def Let_def)

lemma loop_call_ok:
  assumes loc: "local_to_conn P" and ok: "loop_ok P L" and f: "\<And>w. same_conn w (snd (f w))"
  shows "loop_ok P (loop_call h f L)"
proof (cases "h < length (lp_conns L)")
  case True
  have "lp_conns (put_back h (snd (f (focus h L))) L) = lp_conns L"
    using f [of "focus h L"] by (simp add: same_conn_def put_back_def focus_def Let_def slot_eta)
  with True f [of "focus h L"] loop_ok_fields [OF loc, of "put_back h (snd (f (focus h L))) L" L] ok
  show ?thesis by (simp add: loop_call_def same_conn_def)
qed (use ok in \<open>simp add: loop_call_def\<close>)

subsection \<open>New connections\<close>

text \<open>It holds of a connection that has received and written nothing.\<close>

definition holds_fresh :: "(('b, 'x, 'k, 'u) focused \<Rightarrow> bool) \<Rightarrow> bool" where
  "holds_fresh P \<longleftrightarrow>
     (\<forall>v. conn_inv (tw_conn v) \<longrightarrow> conn_avail (tw_conn v) = [] \<longrightarrow> tw_log v = [] \<longrightarrow> P v)"

lemma open_watched:
  "tcp_inv w \<Longrightarrow> connected w \<Longrightarrow> ee_interest (tw_poll w) (ee_kernel (tw_poll w)) (own_fd w) \<noteq> None"
  using watched_rd by (auto simp: tcp_inv_def out_inv_def open_inv_def closed_inv_def watched_def)

lemma bind_ok:
  assumes doc: "epoll_ctl_documented (tw_poll w)" and new: "ee_interest (tw_poll w) (ee_kernel (tw_poll w)) fd = None"
    and c: "own_fd w = fd" "conn_inv (tw_conn w)" "conn_avail (tw_conn w) = []" "tw_log w = []"
      "tc_outbound (tw_conn w) = Some ob" "rb_inv ob" "rb_contents ob = []"
    and res: "tcp_BindHandler fd h w = (None, w')"
  shows "tcp_inv w' \<and> tw_conn w' = tw_conn w \<and> tw_log w' = tw_log w \<and>
    el_handlers w' = (el_handlers w)(fd := Some h) \<and> epoll_ctl_documented (tw_poll w') \<and>
    (\<forall>g. g \<noteq> fd \<longrightarrow> ee_interest (tw_poll w') (ee_kernel (tw_poll w')) g =
      ee_interest (tw_poll w) (ee_kernel (tw_poll w)) g)"
proof -
  obtain p where p: "ep_AddRead fd (tw_poll w) = (None, p)"
    "w' = w\<lparr>tw_poll := p, el_handlers := (el_handlers w)(fd := Some h)\<rparr>"
    using res by (auto simp: tcp_BindHandler_def BindHandler_def Let_def split: prod.splits option.splits)
  have nw: "\<not> ep_wr (tw_poll w) fd" using new interest_rd_wr by blast
  have "epoll_ctl_documented p" "ep_rd p fd" "\<not> ep_wr p fd"
    using ep.add_ok [OF doc p(1)] ep.add_rd [OF doc p(1)] ep.add_wr [OF doc p(1) nw] nw by simp_all
  moreover have "\<forall>g. g \<noteq> fd \<longrightarrow> ee_interest p (ee_kernel p) g = ee_interest (tw_poll w) (ee_kernel (tw_poll w)) g"
    using ctl_elsewhere [OF doc] p(1) by (simp add: ep_AddRead_def ep_add_def)
  ultimately show ?thesis
    using c p(2) by (auto simp: tcp_inv_def out_inv_def open_inv_def wr_ok_def conn_avail_def)
qed

text \<open>The environment of a new connection: a descriptor the poller does not know, buffers from the pool.\<close>

definition connect_ok ::
  "(('b, 'x, 'k, 'u) focused \<Rightarrow> unit call \<times> ('b, 'x, 'k, 'u) focused) \<Rightarrow> loop_input \<Rightarrow>
   ('b, 'x, 'k, 'u) loop_world \<Rightarrow> bool" where
  "connect_ok OnConnect i L =
     (case i of
        Connects clientID fd addr rb1 rb2 rs ws \<Rightarrow>
          ee_interest (lp_poll L) (ee_kernel (lp_poll L)) fd = None \<and>
          rb_inv rb1 \<and> rb_inv rb2 \<and> rb_contents rb1 = [] \<and> rb_contents rb2 = [] \<and>
          fst (loop_connect OnConnect clientID fd addr rb1 rb2 rs ws L) = None
      | _ \<Rightarrow> True)"

text \<open>The new connection, as it is put into the loop's state.\<close>

lemma loop_connect_bound:
  assumes f: "OnClose_ok OnConnect" and doc: "epoll_ctl_documented (lp_poll L)"
    and env: "connect_ok OnConnect (Connects i fd addr rb1 rb2 rs ws) L"
    and res: "loop_connect OnConnect i fd addr rb1 rb2 rs ws L = (e, L')"
  obtains s w where "L' = put_back (length (lp_conns L)) w (L\<lparr>lp_conns := lp_conns L @ [s]\<rparr>)"
    "tcp_inv w" "own_fd w = fd" "conn_inv (tw_conn w)" "conn_avail (tw_conn w) = []" "tw_log w = []"
    "el_handlers w = (el_handlers L)(fd := Some (length (lp_conns L)))" "epoll_ctl_documented (tw_poll w)"
    "\<forall>g. g \<noteq> fd \<longrightarrow> ee_interest (tw_poll w) (ee_kernel (tw_poll w)) g = ee_interest (lp_poll L) (ee_kernel (lp_poll L)) g"
proof -
  let ?n = "length (lp_conns L)"
  let ?s = "\<lparr>sl_conn = NewTCPConn i fd addr rb1 rb2 (lp_idle L) (lp_now L), sl_reads = rs, sl_writes = ws, sl_log = []\<rparr>"
  let ?L1 = "L\<lparr>lp_conns := lp_conns L @ [?s]\<rparr>"
  have new: "ee_interest (lp_poll L) (ee_kernel (lp_poll L)) fd = None" and rb: "rb_inv rb1" "rb_inv rb2"
    "rb_contents rb1 = []" "rb_contents rb2 = []"
    and bound: "fst (loop_connect OnConnect i fd addr rb1 rb2 rs ws L) = None"
    using env by (simp_all add: connect_ok_def)
  obtain w where w: "OnConnect (focus ?n ?L1) = (Returns (), w)" "user_step (focus ?n ?L1) w"
    using f by (meson OnClose_ok_def)
  define c0 where "c0 = tw_conn (focus ?n ?L1)"
  have "ci_inbound c0 = Some rb1" "ci_connected c0" "ci_buffer c0 = []" "tc_fd c0 = fd" "tc_outbound c0 = Some rb2"
    by (simp_all add: c0_def NewTCPConn_def)
  moreover from this have "conn_inv c0" "conn_avail c0 = []"
    using rb by (simp_all add: conn_inv_def conn_avail_def)
  ultimately have c: "own_fd w = fd" "conn_inv (tw_conn w)" "conn_avail (tw_conn w) = []" "tw_log w = []"
    "tc_outbound (tw_conn w) = Some rb2" "tw_poll w = lp_poll L" "el_handlers w = el_handlers L"
    using w(2) unfolding user_step_def c0_def [symmetric] by (simp_all add: conn_inv_def)
  obtain e' w' where w': "tcp_BindHandler fd ?n w = (e', w')" by fastforce
  with bound res w(1) have L': "e' = None" "L' = put_back ?n w' ?L1"
    by (auto simp: loop_connect_def Let_def)
  from bind_ok [of w fd rb2 ?n w'] w' L'(1) c doc new rb that [OF L'(2)] show thesis by auto
qed

lemma loop_connect_ok:
  assumes f: "OnClose_ok OnConnect" and loc: "local_to_conn P" and fresh: "holds_fresh P" and ok: "loop_ok P L"
    and env: "connect_ok OnConnect (Connects i fd addr rb1 rb2 rs ws) L"
    and res: "loop_connect OnConnect i fd addr rb1 rb2 rs ws L = (e, L')"
  shows "loop_ok P L'"
proof -
  let ?n = "length (lp_conns L)"
  note d = loop_okD [OF ok]
  obtain s w where L': "L' = put_back ?n w (L\<lparr>lp_conns := lp_conns L @ [s]\<rparr>)"
    and b: "tcp_inv w" "own_fd w = fd" "conn_inv (tw_conn w)" "conn_avail (tw_conn w) = []" "tw_log w = []"
      "el_handlers w = (el_handlers L)(fd := Some ?n)" "epoll_ctl_documented (tw_poll w)"
      "\<forall>g. g \<noteq> fd \<longrightarrow> ee_interest (tw_poll w) (ee_kernel (tw_poll w)) g = ee_interest (lp_poll L) (ee_kernel (lp_poll L)) g"
    by (rule loop_connect_bound [OF f d(1) env res])
  have old: "g < ?n \<Longrightarrow> lp_conns L' ! g = lp_conns L ! g" for g
    by (simp add: L' nth_append)
  have slot: "sl_conn (lp_conns L' ! ?n) = tw_conn w" "sl_log (lp_conns L' ! ?n) = []" "length (lp_conns L') = Suc ?n"
    using L' b(5) by simp_all
  have new: "ee_interest (lp_poll L) (ee_kernel (lp_poll L)) fd = None" using env by (simp add: connect_ok_def)
  have other: "tc_fd (sl_conn (lp_conns L ! g)) \<noteq> fd" if "g < ?n" "ci_connected (sl_conn (lp_conns L ! g))" for g
    using open_watched [of "focus g L"] d(3) [OF that] that new by auto
  have "P (focus ?n L')"
    using fresh b(3-5) slot unfolding holds_fresh_def by simp
  moreover have "tcp_inv (focus ?n L')"
    using tcp_inv_own [OF b(1), of "focus ?n L'"] slot b by (simp add: L' conn_inv_def)
  moreover have "tcp_inv (focus g L') \<and> P (focus g L')" if g: "g < ?n" "ci_connected (sl_conn (lp_conns L ! g))" for g
    using tcp_inv_own [of "focus g L" "focus g L'"] localD [OF loc, of "focus g L" "focus g L'"]
      d(3) [OF g] g(2) other [OF g] b old [OF g(1)] by (simp add: L')
  moreover have "h < Suc ?n \<and> ci_connected (sl_conn (lp_conns L' ! h)) \<and> tc_fd (sl_conn (lp_conns L' ! h)) = g"
    if "el_handlers L' g = Some h" for g h
    using that b(2,3,6) d(2) [of g h] old [of h] slot(1) by (auto simp: L' conn_inv_def split: if_splits)
  ultimately show ?thesis
    unfolding loop_ok_def using b slot d(3,4) other old
    by (auto simp: L' less_Suc_eq conn_inv_def)
qed

subsection \<open>Runs\<close>

text \<open>
  What a run assumes of its environment: \<open>connect_ok\<close> of every new connection, and that
  what the connections have to buffer fits into the address space.
\<close>

fun loop_env ::
  "(('b, 'x, 'k, 'u) focused \<Rightarrow> unit call \<times> ('b, 'x, 'k, 'u) focused) \<Rightarrow>
   (('b, 'x, 'k, 'u) focused \<Rightarrow> unit call \<times> ('b, 'x, 'k, 'u) focused) \<Rightarrow>
   (bytes \<Rightarrow> ('b, 'x, 'k, 'u) focused \<Rightarrow> bytes call \<times> ('b, 'x, 'k, 'u) focused) \<Rightarrow>
   (('b, 'x, 'k, 'u) focused \<Rightarrow> bytes option call \<times> ('b, 'x, 'k, 'u) focused) \<Rightarrow>
   loop_input list \<Rightarrow> ('b, 'x, 'k, 'u) loop_world \<Rightarrow> bool" where
  "loop_env OnConnect OnClose OnPacket unPacket [] L = True"
| "loop_env OnConnect OnClose OnPacket unPacket (i # is) L =
     (let L1 = snd (loop_step OnConnect OnClose OnPacket unPacket i L)
      in connect_ok OnConnect i L \<and> loop_fits L1 \<and> loop_env OnConnect OnClose OnPacket unPacket is L1)"

lemma loop_step_ok:
  assumes f: "OnClose_ok OnConnect" "OnClose_ok OnClose" and g: "OnPacket_ok OnPacket"
    and u: "unPacket_ok unPacket" "unPacket_apart unPacket"
    and P: "local_to_conn P" "holds_fresh P" "kept_by_calls P" "kept_by_handler OnClose OnPacket unPacket P"
    and ok: "loop_ok P L" and env: "connect_ok OnConnect i L"
    and res: "loop_step OnConnect OnClose OnPacket unPacket i L = (b, L')" and fits: "loop_fits L'"
  shows "b \<and> loop_ok P L'"
proof (cases i)
  case (Event fd ev)
  with res loop_handleEvent_ok [OF f(2) g u P(1,3,4) ok _ fits, of fd ev b] show ?thesis by simp
next
  case Wakeup
  with res loop_handleEvent_ok [OF f(2) g u P(1,3,4) ok _ fits, of "-1" 0 b] show ?thesis by simp
next
  case (TimerOn h t)
  have "loop_ok P (L\<lparr>lp_now := t\<rparr>)" using ok loop_ok_fields [OF P(1), of "L\<lparr>lp_now := t\<rparr>" L] by simp
  from loop_call_ok [OF P(1) this queued_calls(3)] TimerOn res show ?thesis by auto
next
  case (Connects c fd addr rb1 rb2 rs ws)
  with res env loop_connect_ok [OF f(1) P(1,2) ok] show ?thesis by (auto split: prod.splits)
qed (use res loop_call_ok [OF P(1) ok queued_calls(1)] loop_call_ok [OF P(1) ok queued_calls(2)] in auto)

lemma loop_run_ok:
  assumes f: "OnClose_ok OnConnect" "OnClose_ok OnClose" and g: "OnPacket_ok OnPacket"
    and u: "unPacket_ok unPacket" "unPacket_apart unPacket"
    and P: "local_to_conn P" "holds_fresh P" "kept_by_calls P" "kept_by_handler OnClose OnPacket unPacket P"
  shows "loop_ok P L \<Longrightarrow> loop_env OnConnect OnClose OnPacket unPacket is L \<Longrightarrow>
    \<exists>L'. loop_run OnConnect OnClose OnPacket unPacket is L = (True, L') \<and> loop_ok P L'"
proof (induction "is" arbitrary: L)
  case (Cons i "is")
  obtain b L1 where s: "loop_step OnConnect OnClose OnPacket unPacket i L = (b, L1)" by fastforce
  with Cons.prems loop_step_ok [OF f g u P Cons.prems(1) _ s] have "b" "loop_ok P L1"
    by (simp_all add: Let_def)
  with Cons s show ?case by (simp add: Let_def)
qed simp

lemma loop_run_append:
  "loop_run OnConnect OnClose OnPacket unPacket is L = (True, L1) \<Longrightarrow>
    loop_run OnConnect OnClose OnPacket unPacket (is @ js) L = loop_run OnConnect OnClose OnPacket unPacket js L1"
  by (induction "is" arbitrary: L) (auto split: prod.splits bool.splits)

end
