(* ===== verification/Event_Handler.thy ===== *)
theory Event_Handler
  imports Tcp_Props
begin

text \<open>
  event_handler.go: the interfaces of the user are parameters of the connection models
  (OnConnect, OnPacket, OnClose, UnPacket); here are the default implementations, which do
  nothing. An unset result of OnPacket is a nil slice, an empty one.
\<close>

definition Default_OnConnect ::
  "('h, 'b, 'x, 'k, 'm) tcp_world_scheme \<Rightarrow> unit call \<times> ('h, 'b, 'x, 'k, 'm) tcp_world_scheme" where
  "Default_OnConnect w = (Returns (), w)"

definition Default_OnPacket ::
  "bytes \<Rightarrow> ('h, 'b, 'x, 'k, 'm) tcp_world_scheme \<Rightarrow> bytes call \<times> ('h, 'b, 'x, 'k, 'm) tcp_world_scheme" where
  "Default_OnPacket data w = (Returns [], w)"

definition Default_OnClose ::
  "('h, 'b, 'x, 'k, 'm) tcp_world_scheme \<Rightarrow> unit call \<times> ('h, 'b, 'x, 'k, 'm) tcp_world_scheme" where
  "Default_OnClose w = (Returns (), w)"

definition DefaultPacket_Packet :: "'c \<Rightarrow> bytes \<Rightarrow> bytes" where
  "DefaultPacket_Packet c data = data"

text \<open>They satisfy the contract that the connection asks of callbacks.\<close>

lemma default_handler_ok:
  "OnClose_ok Default_OnConnect" "OnPacket_leaves_input Default_OnPacket" "OnClose_ok Default_OnClose"
  by (simp_all add: OnClose_ok_def OnPacket_leaves_input_def Default_OnConnect_def Default_OnPacket_def Default_OnClose_def)

end
