(* ===== verification/Conn_Loop_Props.thy ===== *)
theory Conn_Loop_Props
  imports Conn_Loop_Correct Event_Handler
begin

text \<open>
  Properties of the connections of one loop, with two clients that relay packets to each
  other for the witnesses.
\<close>

subsection \<open>Callbacks\<close>

lemma stream_local:
  "local_to_conn (stream_ok flen)" "holds_fresh (stream_ok flen)"
  by (auto simp: local_to_conn_def holds_fresh_def stream_ok_def conn_inv_def conn_avail_def frames_Nil)

definition keeps_fd :: "(('b, 'x) tcp_conn \<Rightarrow> ('a \<times> ('b, 'x) tcp_conn) option) \<Rightarrow> bool" where
  "keeps_fd f \<longleftrightarrow> (\<forall>c x c'. f c = Some (x, c') \<longrightarrow> tc_fd c' = tc_fd c)"

lemma on_conn_apart: "keeps_fd f \<Longrightarrow> on_conn f w1 = (r, w2) \<Longrightarrow> apart w w1 \<Longrightarrow> apart w w2"
  using far.on_conn_keeps [of w w1 f] by (auto simp: keeps_fd_def)

lemma input_calls_fd:
  "keeps_fd (conn_Read A)"
  "keeps_fd (\<lambda>c. map_option (Pair ()) (conn_ResetBuffer c))"
  "keeps_fd (\<lambda>c. map_option (\<lambda>(_, p, c'). (p, c')) (conn_ReadN A n c))"
  "keeps_fd (conn_ShiftN n)"
  by (auto simp: keeps_fd_def conn_Read_def conn_ResetBuffer_def conn_ReadN_def conn_ShiftN_def Let_def
      split: if_splits bind_splits prod.splits)

lemma len_unPacket_apart: "unPacket_apart (len_unPacket A)"
  using far.refl
  by (auto simp: unPacket_apart_def len_unPacket_def split: prod.splits call.splits option.splits
      dest!: on_conn_apart [OF input_calls_fd(1)] on_conn_apart [OF input_calls_fd(3) [simplified]] on_conn_apart [OF input_calls_fd(4)])
    (blast intro: far.trans)+

subsection \<open>Each connection as if it were alone\<close>

lemma loop_empty_ok:
  "epoll_ctl_documented (lp_poll L) \<Longrightarrow> lp_conns L = [] \<Longrightarrow> el_handlers L = (\<lambda>_. None) \<Longrightarrow> loop_ok P L"
  by (simp add: loop_ok_def)

text \<open>
  C3. Any number of connections of one loop, with events, wake-ups, timers, calls of
  Write and Close on any of them and new connections in any order, descriptors of closed
  connections used again included: no call panics, every handler in the loop's table is
  the open connection of its descriptor, and each connection behaves as if it were
  alone: what the kernel accepted followed by its outbound buffer is what was asked to
  be written on it, its packets are those of the bytes received on it, and when it is
  closed its descriptor was deleted, OnClose called and the descriptor closed, once each
  and in this order.
\<close>
theorem connections_isolated:
  assumes "OnClose_ok OnConnect" "OnClose_ok OnClose" "OnPacket_leaves_input OnPacket"
    and "unpacks_frames flen unPacket" "unPacket_apart unPacket" "flen_ok flen"
    and "loop_ok (stream_ok flen) L" "loop_env OnConnect OnClose OnPacket unPacket is L"
  shows "\<exists>L'. loop_run OnConnect OnClose OnPacket unPacket is L = (True, L') \<and>
    (\<forall>fd h. el_handlers L' fd = Some h \<longleftrightarrow>
      h < length (lp_conns L') \<and> ci_connected (sl_conn (lp_conns L' ! h)) \<and> tc_fd (sl_conn (lp_conns L' ! h)) = fd) \<and>
    (\<forall>s \<in> set (lp_conns L').
      if ci_connected (sl_conn s)
      then log_closing (sl_log s) = [] \<and>
        (\<exists>ib ob. ci_inbound (sl_conn s) = Some ib \<and> tc_outbound (sl_conn s) = Some ob \<and>
          log_accepted (sl_log s) @ rb_contents ob = log_asked (sl_log s) \<and>
          (rb_contents ob \<noteq> [] \<longrightarrow> ep_wr (lp_poll L') (tc_fd (sl_conn s))) \<and>
          frames flen (log_received (sl_log s)) = (log_delivered (sl_log s), rb_contents ib))
      else released s)"
proof -
  obtain L' where L': "loop_run OnConnect OnClose OnPacket unPacket is L = (True, L')" "loop_ok (stream_ok flen) L'"
    using loop_run_ok [OF assms(1,2) leaves_input_ok [OF assms(3)] unpacks_frames_ok [OF assms(4,6)] assms(5)
        stream_local stream_kept [OF assms(2,3,4,6)] assms(7,8)] by blast
  note d = loop_okD [OF L'(2)]
  have "if ci_connected (sl_conn s)
      then log_closing (sl_log s) = [] \<and>
        (\<exists>ib ob. ci_inbound (sl_conn s) = Some ib \<and> tc_outbound (sl_conn s) = Some ob \<and>
          log_accepted (sl_log s) @ rb_contents ob = log_asked (sl_log s) \<and>
          (rb_contents ob \<noteq> [] \<longrightarrow> ep_wr (lp_poll L') (tc_fd (sl_conn s))) \<and>
          frames flen (log_received (sl_log s)) = (log_delivered (sl_log s), rb_contents ib))
      else released s" if s: "s \<in> set (lp_conns L')" for s
  proof -
    obtain h where h: "h < length (lp_conns L')" "s = lp_conns L' ! h" using s by (auto simp: in_set_conv_nth)
    have "log_closing (sl_log s) = [] \<and>
        (\<exists>ib ob. ci_inbound (sl_conn s) = Some ib \<and> tc_outbound (sl_conn s) = Some ob \<and>
          log_accepted (sl_log s) @ rb_contents ob = log_asked (sl_log s) \<and>
          (rb_contents ob \<noteq> [] \<longrightarrow> ep_wr (lp_poll L') (tc_fd (sl_conn s))) \<and>
          frames flen (log_received (sl_log s)) = (log_delivered (sl_log s), rb_contents ib))"
      if c: "ci_connected (sl_conn s)"
    proof -
      have w: "out_inv (focus h L')" "stream_ok flen (focus h L')" "connected (focus h L')"
        using d(3) [OF h(1)] c h(2) by (auto simp: tcp_inv_def)
      then have "open_inv (focus h L')" by (auto elim: out_inv_cases)
      with open_closable(3) [OF this] w(2,3) h(2) show ?thesis
        by (auto elim!: open_outbound simp: stream_ok_def wr_ok_def)
    qed
    with d(4) [OF h(1)] h(2) show ?thesis by simp
  qed
  with L'(1) d(2,3) show ?thesis by blast
qed

text \<open>
  A server that relays: what the first client sends goes to the second and the other way
  round. The clients are on descriptors 7 and 8; the first sends a packet in two pieces,
  hangs up, and a third client gets its descriptor.
\<close>

definition relay :: "bytes \<Rightarrow> ('b, 'x, 'k, 'u) focused \<Rightarrow> bytes call \<times> ('b, 'x, 'k, 'u) focused" where
  "relay p w = (Returns [], snd (lw_Write (if lw_self w = 1 then 0 else 1) p w))"

lemma lw_Write_step: "user_step w (snd (lw_Write h p w))" "conn_avail (tw_conn (snd (lw_Write h p w))) = conn_avail (tw_conn w)"
  by (simp_all add: lw_Write_def lw_Trigger_def Wake_def user_step_def Let_def)

lemma relay_ok: "OnPacket_leaves_input relay"
  using lw_Write_step by (auto simp: OnPacket_leaves_input_def relay_def)

definition loop_example :: "(bytes, unit, int \<Rightarrow> 32 word option, unit) loop_world" where
  "loop_example =
     \<lparr>el_jobs = [], el_handlers = (\<lambda>_. None), el_eventHandling = False, el_wakes = 0,
      lp_poll = ep_example, lp_conns = [], lp_idle = 0, lp_now = 0, lp_user = ()\<rparr>"

lemma loop_example_ok: "loop_ok P loop_example"
  by (rule loop_empty_ok) (simp_all add: loop_example_def ep_example_documented)

definition relay_schedule :: "loop_input list" where
  "relay_schedule =
     [Connects 1 7 ''10.0.0.1:4000'' ring8 ring8 [Inr [2, 10], Inr [11, 1, 12], Inr []] [],
      Connects 2 8 ''10.0.0.2:4000'' ring8 ring8 [] [Inr 2],
      Event 7 EventRead, Event 7 EventRead, Event 7 EventRead,
      Connects 3 7 ''10.0.0.3:4000'' ring8 ring8 [Inr [0]] [],
      Event 8 EventWrite, Event 7 EventRead]"

lemma relay_schedule_env:
  "loop_env Default_OnConnect Default_OnClose relay (len_unPacket bb_list) relay_schedule loop_example"
  by code_simp

theorem connections_isolated_witness:
  "\<exists>L'. loop_run Default_OnConnect Default_OnClose relay (len_unPacket bb_list) relay_schedule loop_example = (True, L') \<and>
     map (\<lambda>s. ci_connected (sl_conn s)) (lp_conns L') = [False, True, True] \<and>
     map (\<lambda>s. log_delivered (sl_log s)) (lp_conns L') = [[[2, 10, 11], [1, 12]], [], [[0]]] \<and>
     map (\<lambda>s. log_accepted (sl_log s)) (lp_conns L') = [[], [2, 10, 11, 1, 12, 0], []] \<and>
     el_handlers L' 7 = Some 2"
proof -
  let ?r = "loop_run Default_OnConnect Default_OnClose relay (len_unPacket bb_list) relay_schedule loop_example"
  have v: "map (\<lambda>s. (ci_connected (sl_conn s), log_delivered (sl_log s), log_accepted (sl_log s), tc_fd (sl_conn s)))
      (lp_conns (snd ?r)) = [(False, [[2, 10, 11], [1, 12]], [], 7), (True, [], [2, 10, 11, 1, 12, 0], 8), (True, [[0]], [], 7)]"
    by code_simp
  obtain L' where L': "?r = (True, L')" "el_handlers L' 7 = Some 2 \<longleftrightarrow>
      2 < length (lp_conns L') \<and> ci_connected (sl_conn (lp_conns L' ! 2)) \<and> tc_fd (sl_conn (lp_conns L' ! 2)) = 7"
    using connections_isolated [OF default_handler_ok(1,3) relay_ok len_unPacket_frames [OF bb_list_laws] len_unPacket_apart
        len_frame_ok loop_example_ok relay_schedule_env] by blast
  from v L'(1) have c: "map (\<lambda>s. (ci_connected (sl_conn s), log_delivered (sl_log s), log_accepted (sl_log s), tc_fd (sl_conn s)))
      (lp_conns L') = [(False, [[2, 10, 11], [1, 12]], [], 7), (True, [], [2, 10, 11, 1, 12, 0], 8), (True, [[0]], [], 7)]"
    by simp
  then obtain a b c where "lp_conns L' = [a, b, c]" by (auto simp: map_eq_Cons_conv)
  with c L' show ?thesis by simp
qed

subsection \<open>Stopping the loop\<close>

text \<open>A released connection is left alone by every further job.\<close>

lemma loop_exec_released:
  assumes "h < length (lp_conns L)" "\<not> ci_connected (sl_conn (lp_conns L ! h))"
    and "loop_exec OnClose hj L = (out, L')"
  shows "lp_conns L' ! h = lp_conns L ! h \<and> length (lp_conns L') = length (lp_conns L)"
proof (cases "fst hj = h")
  case True
  then obtain j where hj: "hj = (h, j)" by (cases hj) auto
  have "tcp_job_call OnClose j (focus h L) = (Returns (), focus h L)"
    using released_job [of "focus h L"] assms(2) by simp
  with assms(1,3) put_back_focus [OF assms(1)] hj show ?thesis by (simp add: loop_exec_def tcp_exec_def)
qed (use assms in \<open>auto simp: loop_exec_def split: prod.splits if_splits\<close>)

lemma loop_jobs_released:
  assumes "h < length (lp_conns L)" "\<not> ci_connected (sl_conn (lp_conns L ! h))"
    and "run_jobs (loop_exec OnClose) js L = (out, L')"
  shows "lp_conns L' ! h = lp_conns L ! h \<and> length (lp_conns L') = length (lp_conns L)"
  using assms
proof (induction js arbitrary: L)
  case (Cons j js)
  obtain out1 L1 where L1: "loop_exec OnClose j L = (out1, L1)" by fastforce
  with loop_exec_released [OF Cons.prems(1,2) L1] Cons.IH [of L1] Cons.prems show ?case
    by (cases out1) auto
qed simp

text \<open>A job that closes an open connection releases it.\<close>

lemma loop_exec_closes:
  assumes f: "OnClose_ok OnClose" and ok: "loop_ok P L" and h: "h < length (lp_conns L)"
    and res: "loop_exec OnClose (h, JClose) L = (out, L')"
  shows "\<not> ci_connected (sl_conn (lp_conns L' ! h)) \<and> length (lp_conns L') = length (lp_conns L)"
proof (cases "ci_connected (sl_conn (lp_conns L ! h))")
  case True
  with loop_okD(3) [OF ok h] have inv: "out_inv (focus h L)" by (simp add: tcp_inv_def)
  obtain w where "tcp_handleClose OnClose (own_fd (focus h L)) (focus h L) = (Returns (), w)" "closed_inv w"
    using tcp_handleClose_inv [OF f inv refl] by blast
  with res h show ?thesis by (auto simp: loop_exec_def tcp_exec_def tcp_job_call_def closed_inv_def)
next
  case False
  with loop_exec_released [OF h _ res] show ?thesis by simp
qed

lemma loop_exec_length: "loop_exec OnClose hj L = (out, L') \<Longrightarrow> length (lp_conns L') = length (lp_conns L)"
  by (auto simp: loop_exec_def split: prod.splits if_splits)

lemma loop_jobs_length: "run_jobs (loop_exec OnClose) js L = (out, L') \<Longrightarrow> length (lp_conns L') = length (lp_conns L)"
proof (induction js arbitrary: L)
  case (Cons j js)
  obtain out1 L1 where L1: "loop_exec OnClose j L = (out1, L1)" by fastforce
  with Cons.IH [of L1] Cons.prems loop_exec_length [OF L1] show ?case by (cases out1) auto
qed simp

lemma trivial_inv:
  "local_to_conn (\<lambda>_ :: ('b, 'x, 'k, 'u) focused. True)"
  "kept_by_calls (\<lambda>_ :: ('b, 'x, 'k, 'u) focused. True)"
  by (simp_all add: local_to_conn_def kept_by_calls_def)

lemma loop_jobs_close:
  assumes f: "OnClose_ok OnClose" and loc: "local_to_conn P" and keep: "kept_by_calls P"
  shows "loop_ok P L \<Longrightarrow> run_jobs (loop_exec OnClose) js L = (out, L') \<Longrightarrow> loop_fits L' \<Longrightarrow>
    h < length (lp_conns L) \<Longrightarrow> (h, JClose) \<in> set js \<Longrightarrow>
    \<not> ci_connected (sl_conn (lp_conns L' ! h))"
proof (induction js arbitrary: L)
  case (Cons j js)
  obtain out1 L1 where L1: "loop_exec OnClose j L = (out1, L1)" by fastforce
  have "loop_grows L1 L'"
    using Cons.prems(2) L1 loop_jobs_grow [OF f, of L1 js] by (cases out1) auto
  then have "loop_fits L1" using Cons.prems(3) loop_grows_fits by blast
  with loop_exec_ok [OF f loc keep Cons.prems(1) L1] have ok: "out1 = Returned" "loop_ok P L1" by auto
  then have run: "run_jobs (loop_exec OnClose) js L1 = (out, L')" using Cons.prems(2) L1 by simp
  have len: "length (lp_conns L1) = length (lp_conns L)" using loop_exec_length [OF L1] .
  show ?case
  proof (cases "j = (h, JClose)")
    case True
    with loop_exec_closes [OF f Cons.prems(1,4)] L1 have "\<not> ci_connected (sl_conn (lp_conns L1 ! h))" by simp
    with loop_jobs_released [OF _ this run] len Cons.prems(4) show ?thesis by simp
  next
    case False
    with Cons.IH [OF ok(2) run Cons.prems(3)] len Cons.prems(4,5) show ?thesis by auto
  qed
qed simp

text \<open>Closing the handlers queues one job for each open one.\<close>

lemma loop_call_Close:
  assumes "h < length (lp_conns L)"
  shows "lp_conns (loop_call h tcp_Close L) = lp_conns L" "lp_poll (loop_call h tcp_Close L) = lp_poll L"
    "el_handlers (loop_call h tcp_Close L) = el_handlers L"
    "el_jobs (loop_call h tcp_Close L) =
      el_jobs L @ (if ci_connected (sl_conn (lp_conns L ! h)) then [(h, JClose)] else [])"
  using queued_calls(2) [of "focus h L"] assms
  by (simp_all add: loop_call_def put_back_def same_conn_def focus_def Let_def slot_eta tcp_Close_def Trigger_def
      Push_def Wake_def)

lemma close_handlers_queue:
  "\<forall>h \<in> set hs. h < length (lp_conns L) \<Longrightarrow>
    lp_conns (close_handlers (\<lambda>h. loop_call h tcp_Close) hs L) = lp_conns L \<and>
    lp_poll (close_handlers (\<lambda>h. loop_call h tcp_Close) hs L) = lp_poll L \<and>
    el_handlers (close_handlers (\<lambda>h. loop_call h tcp_Close) hs L) = el_handlers L \<and>
    el_jobs (close_handlers (\<lambda>h. loop_call h tcp_Close) hs L) =
      el_jobs L @ map (\<lambda>h. (h, JClose)) (filter (\<lambda>h. ci_connected (sl_conn (lp_conns L ! h))) hs)"
proof (induction hs arbitrary: L)
  case (Cons h hs)
  with loop_call_Close [of h L] Cons.IH [of "loop_call h tcp_Close L"] show ?case by simp
qed simp

lemma EventLoop_Stop_closes:
  assumes "OnClose_ok OnClose" "loop_ok (\<lambda>_. True) L" "set hs = {h. \<exists>fd. el_handlers L fd = Some h}"
    and "EventLoop_Stop OnClose OnPacket unPacket True hs L = (e, L')" "loop_fits L'"
  shows "e = None \<and> length (lp_conns L') = length (lp_conns L) \<and> (\<forall>s \<in> set (lp_conns L'). released s) \<and>
    el_handlers L' = (\<lambda>_. None)"
proof -
  note d = loop_okD [OF assms(2)]
  have hs: "\<forall>h \<in> set hs. h < length (lp_conns L)" using assms(3) d(2) by blast
  define L1 where "L1 = close_handlers (\<lambda>h. loop_call h tcp_Close) hs L"
  note q = close_handlers_queue [OF hs, folded L1_def]
  let ?L2 = "(Wake L1)\<lparr>el_eventHandling := False, el_jobs := []\<rparr>"
  obtain out L3 where L3: "run_jobs (loop_exec OnClose) (el_jobs L1) ?L2 = (out, L3)" by fastforce
  have L': "e = None" "L' = L3"
    using assms(4) L3 by (auto simp: EventLoop_Stop_def L1_def [symmetric] handleEvent_def ExecuteJobs_def Let_def
        Wake_def split: outcome.splits)
  have ok: "loop_ok (\<lambda>_. True) ?L2"
    using assms(2) loop_ok_fields [OF trivial_inv(1), of ?L2 L] q by (simp add: Wake_def)
  have fits: "loop_fits L3" using assms(5) L'(2) by simp
  have ok3: "loop_ok (\<lambda>_. True) L3"
    using loop_jobs_ok [OF assms(1) trivial_inv ok L3 fits] by blast
  have closed: "\<not> ci_connected (sl_conn (lp_conns L3 ! h))" if h: "h < length (lp_conns L)" for h
  proof (cases "ci_connected (sl_conn (lp_conns L ! h))")
    case True
    with d(3) [OF h True] assms(3) have "h \<in> set hs" by blast
    with True q have "(h, JClose) \<in> set (el_jobs L1)" by simp
    with loop_jobs_close [OF assms(1) trivial_inv ok L3 fits, of h] h q show ?thesis by (simp add: Wake_def)
  next
    case False
    with loop_jobs_released [OF _ _ L3, of h] h q show ?thesis by (simp add: Wake_def)
  qed
  have len: "length (lp_conns L3) = length (lp_conns L)"
    using loop_jobs_length [OF L3] q by (simp add: Wake_def)
  have "released s" if "s \<in> set (lp_conns L3)" for s
    using that closed loop_okD(4) [OF ok3] len by (auto simp: in_set_conv_nth)
  moreover have "el_handlers L3 fd = None" for fd
    using loop_okD(2) [OF ok3, of fd] closed len by (cases "el_handlers L3 fd") auto
  ultimately show ?thesis
    using L' len q by (auto simp: fun_eq_iff)
qed


lemma loop_ok_handlers:
  assumes "loop_ok P L"
  shows "{h. \<exists>fd. el_handlers L fd = Some h} =
    set (filter (\<lambda>h. ci_connected (sl_conn (lp_conns L ! h))) [0..<length (lp_conns L)])"
  using loop_okD(2,3) [OF assms] by fastforce

definition relay_state :: "(bytes, unit, int \<Rightarrow> 32 word option, unit) loop_world" where
  "relay_state = snd (loop_run Default_OnConnect Default_OnClose relay (len_unPacket bb_list) relay_schedule loop_example)"

lemma relay_state: "loop_ok (\<lambda>_. True) relay_state"
proof -
  from loop_run_ok [OF default_handler_ok(1,3) leaves_input_ok [OF relay_ok]
      unpacks_frames_ok [OF len_unPacket_frames [OF bb_list_laws] len_frame_ok] len_unPacket_apart trivial_inv(1) _
      trivial_inv(2) _ loop_example_ok relay_schedule_env]
  show ?thesis by (auto simp: relay_state_def holds_fresh_def kept_by_handler_def)
qed


subsection \<open>An event that is older than the connection\<close>


text \<open>
  The witness: connection 0 on descriptor 7 is to be closed (by its timer, say) when the
  poller returns a batch with input on 8 and a hang-up on 7; the job runs after the first
  event, the third client gets descriptor 7, and the second event closes it.
\<close>

definition stale_schedule :: "loop_input list" where
  "stale_schedule =
     [Connects 1 7 ''10.0.0.1:4000'' ring8 ring8 [] [], Connects 2 8 ''10.0.0.2:4000'' ring8 ring8 [Inr [0]] [],
      CloseOn 0, Event 8 EventRead]"

definition stale_state :: "(bytes, unit, int \<Rightarrow> 32 word option, unit) loop_world" where
  "stale_state = snd (loop_run Default_OnConnect Default_OnClose relay (len_unPacket bb_list) stale_schedule loop_example)"

lemma stale_state:
  "loop_run Default_OnConnect Default_OnClose relay (len_unPacket bb_list) stale_schedule loop_example = (True, stale_state)"
  "epoll_ctl_documented (lp_poll stale_state)"
proof -
  have "loop_env Default_OnConnect Default_OnClose relay (len_unPacket bb_list) stale_schedule loop_example" by code_simp
  from loop_run_ok [OF default_handler_ok(1,3) leaves_input_ok [OF relay_ok]
      unpacks_frames_ok [OF len_unPacket_frames [OF bb_list_laws] len_frame_ok] len_unPacket_apart stream_local
      stream_kept [OF default_handler_ok(3) relay_ok len_unPacket_frames [OF bb_list_laws] len_frame_ok] loop_example_ok this]
  obtain L' where "loop_run Default_OnConnect Default_OnClose relay (len_unPacket bb_list) stale_schedule loop_example = (True, L')"
    "loop_ok (stream_ok len_frame) L'" by blast
  then show "loop_run Default_OnConnect Default_OnClose relay (len_unPacket bb_list) stale_schedule loop_example = (True, stale_state)"
    "epoll_ctl_documented (lp_poll stale_state)"
    using loop_okD(1) by (simp_all add: stale_state_def)
qed

definition stale_batch :: "loop_input list" where
  "stale_batch = [Connects 3 7 ''10.0.0.3:4000'' ring8 ring8 [Inr [0]] [], Event 7 EventErr]"


end
