(* ===== verification/Loop_Run.thy ===== *)
theory Loop_Run
  imports Conn_Loop_Props Poller_Props
begin

text \<open>
  Run of eventloop.go for a connection loop: the poller's wait loop (\<open>ep_Poll\<close> of Epoll) with
  handleEvent of the loop as its handler. What other goroutines do (calls of Write and Close,
  timers, new connections) happens between two calls of the handler; \<open>exts\<close> lists it, one
  list for each call.
\<close>

fun external :: "loop_input \<Rightarrow> bool" where
  "external (Event fd ev) = False"
| "external Wakeup = False"
| "external i = True"

definition run_handler ::
  "(('b, 'x, 'k, 'u) focused \<Rightarrow> unit call \<times> ('b, 'x, 'k, 'u) focused) \<Rightarrow>
   (('b, 'x, 'k, 'u) focused \<Rightarrow> unit call \<times> ('b, 'x, 'k, 'u) focused) \<Rightarrow>
   (bytes \<Rightarrow> ('b, 'x, 'k, 'u) focused \<Rightarrow> bytes call \<times> ('b, 'x, 'k, 'u) focused) \<Rightarrow>
   (('b, 'x, 'k, 'u) focused \<Rightarrow> bytes option call \<times> ('b, 'x, 'k, 'u) focused) \<Rightarrow>
   int \<Rightarrow> event \<Rightarrow> loop_input list list \<times> ('b, 'x, 'k, 'u) loop_world \<Rightarrow>
   bool \<times> loop_input list list \<times> ('b, 'x, 'k, 'u) loop_world" where
  "run_handler OnConnect OnClose OnPacket unPacket fd ev s =
     (case s of (exts, L) \<Rightarrow>
        (let L1 = snd (loop_run OnConnect OnClose OnPacket unPacket (concat (take 1 exts)) L);
             (b, L2) = handleEvent (loop_handler OnClose OnPacket unPacket) (loop_exec OnClose) fd ev L1
         in (b, drop 1 exts, L2)))"

definition EventLoop_Run ::
  "(('b, 'x, 'k, 'u) focused \<Rightarrow> unit call \<times> ('b, 'x, 'k, 'u) focused) \<Rightarrow>
   (('b, 'x, 'k, 'u) focused \<Rightarrow> unit call \<times> ('b, 'x, 'k, 'u) focused) \<Rightarrow>
   (bytes \<Rightarrow> ('b, 'x, 'k, 'u) focused \<Rightarrow> bytes call \<times> ('b, 'x, 'k, 'u) focused) \<Rightarrow>
   (('b, 'x, 'k, 'u) focused \<Rightarrow> bytes option call \<times> ('b, 'x, 'k, 'u) focused) \<Rightarrow>
   int \<Rightarrow> wait_result list \<Rightarrow> loop_input list list \<Rightarrow> ('b, 'x, 'k, 'u) loop_world \<Rightarrow>
   bool \<times> ('b, 'x, 'k, 'u) loop_world" where
  "EventLoop_Run OnConnect OnClose OnPacket unPacket eventFd waits exts L =
     (let (ended, _, _, L') =
        ep_Poll eventFd (run_handler OnConnect OnClose OnPacket unPacket) (\<lambda>s. s) waitEventsBegin waits (exts, L)
      in (ended, L'))"

text \<open>The handler's calls with what happens before each of them.\<close>

fun weave :: "loop_input list list \<Rightarrow> (int \<times> event) list \<Rightarrow> loop_input list" where
  "weave exts [] = []"
| "weave exts ((fd, ev) # cs) = concat (take 1 exts) @ Event fd ev # weave (drop 1 exts) cs"

definition all_external :: "loop_input list list \<Rightarrow> bool" where
  "all_external exts \<longleftrightarrow> (\<forall>i \<in> set (concat exts). external i)"

lemma all_external_drop: "all_external exts \<Longrightarrow> all_external (drop n exts)"
  by (auto simp: all_external_def dest: in_set_dropD)

lemma external_run: "\<forall>i \<in> set is. external i \<Longrightarrow> fst (loop_run OnConnect OnClose OnPacket unPacket is L)"
proof (induction "is" arbitrary: L)
  case (Cons i "is")
  then have "fst (loop_step OnConnect OnClose OnPacket unPacket i L)" by (cases i) (auto split: prod.splits)
  with Cons show ?case by (auto split: prod.splits bool.splits)
qed simp

text \<open>One call of the handler, and the calls of a round.\<close>

lemma weave_Cons:
  assumes "all_external exts"
    and "run_handler OnConnect OnClose OnPacket unPacket fd ev (exts, L) = (b, exts', L2)"
  shows "loop_run OnConnect OnClose OnPacket unPacket (weave exts ((fd, ev) # cs)) L =
    (if b then loop_run OnConnect OnClose OnPacket unPacket (weave exts' cs) L2 else (False, L2))"
proof -
  let ?run = "loop_run OnConnect OnClose OnPacket unPacket"
  have "\<forall>i \<in> set (concat (take 1 exts)). external i"
    using assms(1) by (auto simp: all_external_def dest: in_set_takeD)
  then obtain L1 where L1: "?run (concat (take 1 exts)) L = (True, L1)"
    using external_run [of "concat (take 1 exts)"] by (metis prod.collapse)
  show ?thesis
    using loop_run_append [OF L1, of "Event fd ev # weave (drop 1 exts) cs"] L1 assms(2)
    by (auto simp: run_handler_def Let_def split: prod.splits bool.splits)
qed

declare weave.simps(2) [simp del]

lemma run_handler_exts: "run_handler OnConnect OnClose OnPacket unPacket fd ev (exts, L) = (b, exts', L') \<Longrightarrow> exts' = drop 1 exts"
  by (auto simp: run_handler_def Let_def split: prod.splits)

lemma batch_weave:
  assumes "all_external exts"
    and "ep_batch eventFd (run_handler OnConnect OnClose OnPacket unPacket) (\<lambda>s. s) evs wake (exts, L) = (b, wake', exts', L2)"
  shows "loop_run OnConnect OnClose OnPacket unPacket (weave exts
        (map (\<lambda>(fd, ev). (fd, ep_translate ev)) (filter (\<lambda>(fd, ev). fd \<noteq> eventFd) evs) @ ds)) L =
      (if b then loop_run OnConnect OnClose OnPacket unPacket (weave exts' ds) L2 else (False, L2)) \<and>
    all_external exts' \<and> (b \<longrightarrow> wake' = (wake \<or> eventFd \<in> fst ` set evs))"
  using assms
proof (induction evs arbitrary: wake exts L)
  case (Cons e evs)
  obtain fd ev where e: "e = (fd, ev)" by fastforce
  show ?case
  proof (cases "fd = eventFd")
    case True
    with Cons.IH [of exts True L] Cons.prems e show ?thesis by auto
  next
    case False
    obtain b1 exts1 L1 where h: "run_handler OnConnect OnClose OnPacket unPacket fd (ep_translate ev) (exts, L) = (b1, exts1, L1)"
      by (metis prod.collapse)
    have "all_external exts1" using run_handler_exts [OF h] all_external_drop [OF Cons.prems(1)] by blast
    with Cons.IH [of exts1 wake L1] Cons.prems False e h weave_Cons [OF Cons.prems(1) h] show ?thesis
      by (cases b1) auto
  qed
qed simp

text \<open>One round of the poller whose wait did not fail.\<close>

lemma ep_Poll_round:
  assumes "\<not> (wait_err w \<noteq> None \<and> wait_err w \<noteq> Some EINTR)"
    and "ep_batch eventFd handler wakeRead (round_events w) False s = (b1, wk, s1)" "handler (-1) 0 s1 = (b2, s2)"
  shows "\<exists>n'. ep_Poll eventFd handler wakeRead buflen (w # ws) s =
    (if \<not> b1 then (True, buflen, s1)
     else if \<not> wk then ep_Poll eventFd handler wakeRead n' ws s1
     else if \<not> b2 \<or> \<not> wait_running w then (True, buflen, s2)
     else ep_Poll eventFd handler wakeRead n' ws s2)"
proof -
  define n' where "n' = (if wait_err w = None \<and> length (round_events w) = buflen then length (round_events w) * 2 else buflen)"
  have "ep_Poll eventFd handler wakeRead buflen (w # ws) s =
      (case ep_batch eventFd handler wakeRead (round_events w) False s of
         (False, _, s1) \<Rightarrow> (True, buflen, s1)
       | (True, False, s1) \<Rightarrow> ep_Poll eventFd handler wakeRead n' ws s1
       | (True, True, s1) \<Rightarrow>
           (case handler (-1) 0 s1 of
              (False, s2) \<Rightarrow> (True, buflen, s2)
            | (True, s2) \<Rightarrow>
                (if \<not> wait_running w then (True, buflen, s2) else ep_Poll eventFd handler wakeRead n' ws s2)))"
    by (simp only: ep_Poll.simps if_not_P [OF assms(1)] round_events_def n'_def Let_def)
  with assms(2,3) show ?thesis by (intro exI [of _ n']) (simp split: bool.splits)
qed

lemma Poll_weave:
  assumes "all_external exts"
    and "ep_Poll eventFd (run_handler OnConnect OnClose OnPacket unPacket) (\<lambda>s. s) buflen ws (exts, L) = (ended, n, exts', L')"
  shows "\<exists>b. loop_run OnConnect OnClose OnPacket unPacket (weave exts (snd (poll_calls eventFd ws))) L = (b, L') \<and>
    ended = (\<not> b \<or> fst (poll_calls eventFd ws))"
  using assms
proof (induction ws arbitrary: buflen exts L)
  case (Cons w ws)
  let ?H = "run_handler OnConnect OnClose OnPacket unPacket"
  show ?case
  proof (cases "wait_err w \<noteq> None \<and> wait_err w \<noteq> Some EINTR")
    case True
    then have "round_calls eventFd w = []" "\<not> round_wakes eventFd w"
      by (auto simp: round_calls_def round_wakes_def round_events_def)
    with True Cons show ?thesis by (auto simp: split_beta)
  next
    case False
    let ?C = "map (\<lambda>(fd, ev). (fd, ep_translate ev)) (filter (\<lambda>(fd, ev). fd \<noteq> eventFd) (round_events w))"
    let ?run = "\<lambda>exts cs L. loop_run OnConnect OnClose OnPacket unPacket (weave exts cs) L"
    obtain b1 wk exts1 L1 where b: "ep_batch eventFd ?H (\<lambda>s. s) (round_events w) False (exts, L) = (b1, wk, exts1, L1)"
      by (metis prod.collapse)
    obtain b2 exts2 L2 where h: "?H (-1) 0 (exts1, L1) = (b2, exts2, L2)" by (metis prod.collapse)
    have ext: "all_external exts1" "all_external exts2"
      using batch_weave [OF Cons.prems(1) b] run_handler_exts [OF h] all_external_drop by blast+
    have wk: "b1 \<Longrightarrow> wk = round_wakes eventFd w"
      using batch_weave [OF Cons.prems(1) b] by (simp add: round_wakes_def)
    have run1: "?run exts (?C @ ds) L = (if b1 then ?run exts1 ds L1 else (False, L1))" for ds
      using batch_weave [OF Cons.prems(1) b] by blast
    have run2: "?run exts1 ((-1, 0) # ds) L1 = (if b2 then ?run exts2 ds L2 else (False, L2))" for ds
      using weave_Cons [OF ext(1) h] .
    obtain fin cs where pc: "poll_calls eventFd ws = (fin, cs)" by fastforce
    have calls: "poll_calls eventFd (w # ws) =
        (if round_wakes eventFd w
         then (if wait_running w then (fin, ?C @ (-1, 0) # cs) else (True, ?C @ [(-1, 0)]))
         else (fin, ?C @ cs))"
      using pc by (simp add: round_calls_def)
    obtain n' where poll: "(if \<not> b1 then (True, buflen, exts1, L1)
        else if \<not> wk then ep_Poll eventFd ?H (\<lambda>s. s) n' ws (exts1, L1)
        else if \<not> b2 \<or> \<not> wait_running w then (True, buflen, exts2, L2)
        else ep_Poll eventFd ?H (\<lambda>s. s) n' ws (exts2, L2)) = (ended, n, exts', L')"
      using ep_Poll_round [OF False b h] Cons.prems(2) by metis
    show ?thesis
    proof (cases b1)
      case f: False
      with poll run1 calls show ?thesis by (auto split: if_splits)
    next
      case b1: True
      show ?thesis
      proof (cases "round_wakes eventFd w")
        case True
        with b1 poll wk run1 run2 calls pc Cons.IH [OF ext(2), of n' L2] show ?thesis
          by (cases b2) (auto split: if_splits)
      next
        case f: False
        with b1 poll wk run1 calls pc Cons.IH [OF ext(1), of n' L1] show ?thesis by auto
      qed
    qed
  qed
qed auto

text \<open>
  C4. EventLoop.Run of a connection loop on the epoll poller, whatever the waits return:
  the loop reaches the state of a run of its steps over the handler's calls, woven with
  what other goroutines do between them. The calls are every event of every round, once,
  translated and in order, and one wake-up after each round that held any. Run ends in the
  first such round in which the poller was closed, or when a panic escapes handleEvent, and
  not otherwise. So what is shown of runs of the connections holds of the goroutine.
\<close>
theorem Run_is_loop_run:
  assumes "all_external exts"
  shows "\<exists>b L'. loop_run OnConnect OnClose OnPacket unPacket (weave exts (snd (poll_calls eventFd waits))) L = (b, L') \<and>
    EventLoop_Run OnConnect OnClose OnPacket unPacket eventFd waits exts L = (\<not> b \<or> fst (poll_calls eventFd waits), L')"
proof -
  obtain ended n exts' L' where r: "ep_Poll eventFd (run_handler OnConnect OnClose OnPacket unPacket) (\<lambda>s. s)
      waitEventsBegin waits (exts, L) = (ended, n, exts', L')" by (metis prod.collapse)
  from Poll_weave [OF assms this] r show ?thesis by (auto simp: EventLoop_Run_def)
qed

text \<open>
  Two clients of the relay; the first sends a packet in two pieces, another goroutine writes
  to the second before the wake-up of the last round, after which the loop ends.
\<close>

definition run_exts :: "loop_input list list" where
  "run_exts =
     [[Connects 1 7 ''10.0.0.1:4000'' ring8 ring8 [Inr [2, 10], Inr [11]] [],
       Connects 2 8 ''10.0.0.2:4000'' ring8 ring8 [] [Inr 2]], [], [], [WriteOn 1 [9]]]"

definition run_waits :: "wait_result list" where
  "run_waits =
     [\<lparr>wait_err = None, wait_events = [(7, 1)], wait_running = True\<rparr>,
      \<lparr>wait_err = None, wait_events = [(3, 1), (7, 1), (3, 1)], wait_running = True\<rparr>,
      \<lparr>wait_err = Some EINTR, wait_events = [], wait_running = True\<rparr>,
      \<lparr>wait_err = None, wait_events = [(3, 1)], wait_running = False\<rparr>]"

theorem Run_is_loop_run_witness:
  "\<exists>L'. EventLoop_Run Default_OnConnect Default_OnClose relay (len_unPacket bb_list) 3 run_waits run_exts loop_example =
      (True, L') \<and>
     map (\<lambda>s. log_delivered (sl_log s)) (lp_conns L') = [[[2, 10, 11]], []] \<and>
     map (\<lambda>s. log_accepted (sl_log s)) (lp_conns L') = [[], [2, 10]]"
proof -
  let ?r = "loop_run Default_OnConnect Default_OnClose relay (len_unPacket bb_list)
      (weave run_exts (snd (poll_calls 3 run_waits))) loop_example"
  have "all_external run_exts" by (simp add: all_external_def run_exts_def)
  from Run_is_loop_run [OF this]
  obtain b L' where r: "?r = (b, L')"
    "EventLoop_Run Default_OnConnect Default_OnClose relay (len_unPacket bb_list) 3 run_waits run_exts loop_example =
      (\<not> b \<or> fst (poll_calls 3 run_waits), L')" by blast
  have "fst (poll_calls 3 run_waits) \<and>
      map (\<lambda>s. (log_delivered (sl_log s), log_accepted (sl_log s))) (lp_conns (snd ?r)) = [([[2, 10, 11]], []), ([], [2, 10])]"
    by code_simp
  with r show ?thesis by (auto simp: map_eq_Cons_conv)
qed

end
