(* ===== verification/Ws_Conn.thy ===== *)
theory Ws_Conn
  imports Tcp_Conn
begin

text \<open>
  conn_ws.go: the websocket connection. It has the input side of the TCP connection with
  the same methods, written out a second time in the code and here, but no event loop:
  a goroutine of its own reads message after message, and Write and Close act at once in
  the calling goroutine. The state is the connection, the results of the coming calls of
  ReadMessage and WriteMessage (gorilla/websocket is a third-party package), the clock
  and a history. When the messages are used up, ReadMessage blocks.

  The message loop runs in a goroutine that recovers nothing: \<open>Panics\<close> is the end of the
  process.
\<close>

datatype ws_log =
    WsReceived bytes | WsSent bytes | WsDelivered bytes | WsOnClose | WsConnClosed

record ('b, 'x) ws_conn = "'b conn_input" +
  wc_id :: int
  wc_addr :: string
  wc_ctx :: "'x option"
  wc_status :: int
  wc_version :: "8 word"
  wc_activeTime :: int

record ('b, 'x) ws_world =
  ww_conn :: "('b, 'x) ws_conn"
  ww_msgs :: "bytes option list"
  ww_writes :: "bool list"
  ww_idle :: int
  ww_now :: int
  ww_log :: "ws_log list"

definition ww_note :: "ws_log \<Rightarrow> ('b, 'x, 'm) ws_world_scheme \<Rightarrow> ('b, 'x, 'm) ws_world_scheme" where
  "ww_note l w = w\<lparr>ww_log := ww_log w @ [l]\<rparr>"

definition ww_active :: "('b, 'x, 'm) ws_world_scheme \<Rightarrow> ('b, 'x, 'm) ws_world_scheme" where
  "ww_active w =
     (if ww_idle w > 0
      then w\<lparr>ww_conn := (ww_conn w)\<lparr>wc_activeTime := ww_now w div 1000000000\<rparr>\<rparr> else w)"

definition NewWSConn :: "int \<Rightarrow> string \<Rightarrow> ring_buffer \<Rightarrow> int \<Rightarrow> int \<Rightarrow> ('b, 'x) ws_conn" where
  "NewWSConn id' addr rb idle now =
     \<lparr>ci_connected = True, ci_buffer = [], ci_inbound = Some rb, ci_byteBuffer = None,
      wc_id = id', wc_addr = addr, wc_ctx = None, wc_status = 0, wc_version = 0,
      wc_activeTime = (if idle > 0 then now div 1000000000 else 0)\<rparr>"

subsection \<open>The methods of the interface Conn\<close>

definition ws_Read ::
  "'b bb_api \<Rightarrow> ('b, 'x) ws_conn \<Rightarrow> (bytes \<times> ('b, 'x) ws_conn) option" where
  "ws_Read A c =
     (if \<not> ci_connected c then Some ([], c)
      else do {
        rb \<leftarrow> ci_inbound c;
        if rb_IsEmpty rb then Some (ci_buffer c, c)
        else do {
          bb \<leftarrow> rb_WithByteBuffer A rb (ci_buffer c);
          Some (bb_Bytes A bb, c\<lparr>ci_byteBuffer := Some bb\<rparr>)
        }
      })"

definition ws_ResetBuffer :: "('b, 'x) ws_conn \<Rightarrow> ('b, 'x) ws_conn option" where
  "ws_ResetBuffer c =
     do {
       rb \<leftarrow> ci_inbound c;
       Some (c\<lparr>ci_buffer := [], ci_inbound := Some (rb_Reset rb), ci_byteBuffer := None\<rparr>)
     }"

definition ws_ReadN ::
  "'b bb_api \<Rightarrow> int \<Rightarrow> ('b, 'x) ws_conn \<Rightarrow> (int \<times> bytes \<times> ('b, 'x) ws_conn) option" where
  "ws_ReadN A n0 c =
     do {
       rb \<leftarrow> ci_inbound c;
       let inBufferLen = rb_Length rb;
       let tempBufferLen = int (length (ci_buffer c));
       let totalLen = inBufferLen + tempBufferLen;
       let n = (if totalLen < n0 \<or> n0 \<le> 0 then totalLen else n0);
       if rb_IsEmpty rb then do {
         buf \<leftarrow> slice (ci_buffer c) 0 n;
         Some (n, buf, c)
       }
       else do {
         (head, tail) \<leftarrow> rb_LazyRead rb n;
         let bb = bb_Write A (bb_Write A (bb_Get A) head) tail;
         if inBufferLen \<ge> n then Some (n, bb_Bytes A bb, c\<lparr>ci_byteBuffer := Some bb\<rparr>)
         else do {
           let restSize = n - inBufferLen;
           rest \<leftarrow> slice (ci_buffer c) 0 restSize;
           let bb' = bb_Write A bb rest;
           Some (n, bb_Bytes A bb', c\<lparr>ci_byteBuffer := Some bb'\<rparr>)
         }
       }
     }"

definition ws_ShiftN :: "int \<Rightarrow> ('b, 'x) ws_conn \<Rightarrow> (int \<times> ('b, 'x) ws_conn) option" where
  "ws_ShiftN n c =
     do {
       rb \<leftarrow> ci_inbound c;
       let inBufferLen = rb_Length rb;
       let tempBufferLen = int (length (ci_buffer c));
       if inBufferLen + tempBufferLen < n \<or> n \<le> 0 then do {
         c' \<leftarrow> ws_ResetBuffer c;
         Some (inBufferLen + tempBufferLen, c')
       }
       else if rb_IsEmpty rb then do {
         b \<leftarrow> slice (ci_buffer c) n tempBufferLen;
         Some (n, c\<lparr>ci_buffer := b\<rparr>)
       }
       else if inBufferLen \<ge> n then
         Some (n, c\<lparr>ci_byteBuffer := None, ci_inbound := Some (rb_Shift rb n)\<rparr>)
       else do {
         let restSize = n - inBufferLen;
         b \<leftarrow> slice (ci_buffer c) restSize tempBufferLen;
         Some (n, c\<lparr>ci_byteBuffer := None, ci_inbound := Some (rb_Reset rb), ci_buffer := b\<rparr>)
       }
     }"

text \<open>The two connection types read alike, so the websocket one keeps the contract too.\<close>

lemma ws_ResetBuffer_eq: "ws_ResetBuffer = conn_ResetBuffer"
  by (simp add: fun_eq_iff ws_ResetBuffer_def conn_ResetBuffer_def)

lemma ws_input_eq:
  "ws_Read A = conn_Read A" "ws_ReadN A = conn_ReadN A" "ws_ShiftN = conn_ShiftN"
  "ws_ResetBuffer = conn_ResetBuffer"
  by (unfold fun_eq_iff ws_Read_def conn_Read_def ws_ReadN_def conn_ReadN_def ws_ShiftN_def
      conn_ShiftN_def ws_ResetBuffer_eq) simp_all

interpretation ws: packet_source "\<lambda>c. bb_laws A \<and> conn_inv c" conn_avail conn_rest "ws_Read A"
  "ws_ReadN A" ws_ShiftN ws_ResetBuffer for A :: "'b bb_api"
  unfolding ws_input_eq
  by unfold_locales
     (simp_all add: conn_Read_correct conn_ReadN_correct conn_ShiftN_correct conn_ResetBuffer_correct)

subsection \<open>Writing and closing\<close>

definition ws_write ::
  "bytes \<Rightarrow> ('b, 'x, 'm) ws_world_scheme \<Rightarrow> bool \<times> ('b, 'x, 'm) ws_world_scheme" where
  "ws_write buf w =
     (if \<not> ci_connected (ww_conn w) then (True, w)
      else (case ww_writes w of
              [] \<Rightarrow> (True, ww_note (WsSent buf) w)
            | ok # ws \<Rightarrow>
                (if ok then (True, ww_note (WsSent buf) (w\<lparr>ww_writes := ws\<rparr>))
                 else (False, w\<lparr>ww_writes := ws\<rparr>))))"

definition ws_release :: "('b, 'x, 'm) ws_world_scheme \<Rightarrow> ('b, 'x, 'm) ws_world_scheme" where
  "ws_release w =
     w\<lparr>ww_conn := (ww_conn w)\<lparr>ci_buffer := [], wc_ctx := None, ci_inbound := None, ci_byteBuffer := None\<rparr>\<rparr>"

definition ws_handleClose ::
  "(('b, 'x, 'm) ws_world_scheme \<Rightarrow> unit call \<times> ('b, 'x, 'm) ws_world_scheme) \<Rightarrow>
   ('b, 'x, 'm) ws_world_scheme \<Rightarrow> unit call \<times> ('b, 'x, 'm) ws_world_scheme" where
  "ws_handleClose OnClose w =
     (if ci_connected (ww_conn w) then
        (let w1 = w\<lparr>ww_conn := (ww_conn w)\<lparr>ci_connected := False\<rparr>\<rparr>
         in case OnClose (ww_note WsOnClose w1) of
              (Panics v, w2) \<Rightarrow> (Panics v, w2)
            | (Returns _, w2) \<Rightarrow> (Returns (), ws_release (ww_note WsConnClosed w2)))
      else (Returns (), w))"

definition ws_Write ::
  "bytes \<Rightarrow> ('b, 'x, 'm) ws_world_scheme \<Rightarrow> (conn_error option \<times> bool) \<times> ('b, 'x, 'm) ws_world_scheme" where
  "ws_Write buf w =
     (if \<not> ci_connected (ww_conn w) then ((Some ErrConnectionClosed, True), w)
      else (let (ok, w') = ws_write buf w in ((None, ok), w')))"

definition ws_Close ::
  "(('b, 'x, 'm) ws_world_scheme \<Rightarrow> unit call \<times> ('b, 'x, 'm) ws_world_scheme) \<Rightarrow>
   ('b, 'x, 'm) ws_world_scheme \<Rightarrow> conn_error option call \<times> ('b, 'x, 'm) ws_world_scheme" where
  "ws_Close OnClose w =
     (if \<not> ci_connected (ww_conn w) then (Returns (Some ErrConnectionClosed), w)
      else (case ws_handleClose OnClose w of
              (Panics v, w') \<Rightarrow> (Panics v, w')
            | (Returns _, w') \<Rightarrow> (Returns None, w')))"

definition ws_closeTimeoutConn ::
  "(('b, 'x, 'm) ws_world_scheme \<Rightarrow> unit call \<times> ('b, 'x, 'm) ws_world_scheme) \<Rightarrow>
   ('b, 'x, 'm) ws_world_scheme \<Rightarrow> int option call \<times> ('b, 'x, 'm) ws_world_scheme" where
  "ws_closeTimeoutConn OnClose w =
     (if \<not> ci_connected (ww_conn w) then (Returns None, w)
      else (let intervals = ww_now w - wc_activeTime (ww_conn w) * 1000000000
            in if intervals \<ge> ww_idle w
               then (case ws_Close OnClose w of
                       (Panics v, w') \<Rightarrow> (Panics v, w') | (Returns _, w') \<Rightarrow> (Returns None, w'))
               else (Returns (Some (ww_idle w - intervals)), w)))"

subsection \<open>The message loop\<close>

partial_function (option) ws_packets ::
  "(bytes \<Rightarrow> ('b, 'x, 'm) ws_world_scheme \<Rightarrow> bytes call \<times> ('b, 'x, 'm) ws_world_scheme) \<Rightarrow>
   (('b, 'x, 'm) ws_world_scheme \<Rightarrow> bytes option call \<times> ('b, 'x, 'm) ws_world_scheme) \<Rightarrow>
   ('b, 'x, 'm) ws_world_scheme \<Rightarrow> (unit call \<times> ('b, 'x, 'm) ws_world_scheme) option" where
  "ws_packets OnPacket unPacket w =
     (case unPacket w of
        (Panics v, w1) \<Rightarrow> Some (Panics v, w1)
      | (Returns None, w1) \<Rightarrow> Some (Returns (), w1)
      | (Returns (Some packet), w1) \<Rightarrow>
          (case OnPacket packet (ww_note (WsDelivered packet) w1) of
             (Panics v, w2) \<Rightarrow> Some (Panics v, w2)
           | (Returns out, w2) \<Rightarrow>
               ws_packets OnPacket unPacket (if length out > 0 then snd (ws_write out w2) else w2)))"

declare ws_packets.simps [code]

text \<open>
  The loop over the messages given; \<open>Returns True\<close> is the end of the loop after a failed
  ReadMessage, \<open>Returns False\<close> that it waits for the next message.
\<close>

fun ws_messages ::
  "(('b, 'x, 'm) ws_world_scheme \<Rightarrow> unit call \<times> ('b, 'x, 'm) ws_world_scheme) \<Rightarrow>
   (bytes \<Rightarrow> ('b, 'x, 'm) ws_world_scheme \<Rightarrow> bytes call \<times> ('b, 'x, 'm) ws_world_scheme) \<Rightarrow>
   (('b, 'x, 'm) ws_world_scheme \<Rightarrow> bytes option call \<times> ('b, 'x, 'm) ws_world_scheme) \<Rightarrow>
   bytes option list \<Rightarrow> ('b, 'x, 'm) ws_world_scheme \<Rightarrow>
   (bool call \<times> ('b, 'x, 'm) ws_world_scheme) option" where
  "ws_messages OnClose OnPacket unPacket [] w = Some (Returns False, w)"
| "ws_messages OnClose OnPacket unPacket (None # ms) w =
     (case ws_handleClose OnClose w of
        (Panics v, w1) \<Rightarrow> Some (Panics v, w1) | (Returns _, w1) \<Rightarrow> Some (Returns True, w1))"
| "ws_messages OnClose OnPacket unPacket (Some data # ms) w =
     (let w1 = ww_active (ww_note (WsReceived data) w);
          w2 = w1\<lparr>ww_conn := (ww_conn w1)\<lparr>ci_buffer := data\<rparr>\<rparr>
      in case ws_packets OnPacket unPacket w2 of
           None \<Rightarrow> None
         | Some (Panics v, w3) \<Rightarrow> Some (Panics v, w3)
         | Some (Returns _, w3) \<Rightarrow> ws_messages OnClose OnPacket unPacket ms w3)"

definition ws_msgLoop ::
  "(('b, 'x, 'm) ws_world_scheme \<Rightarrow> unit call \<times> ('b, 'x, 'm) ws_world_scheme) \<Rightarrow>
   (bytes \<Rightarrow> ('b, 'x, 'm) ws_world_scheme \<Rightarrow> bytes call \<times> ('b, 'x, 'm) ws_world_scheme) \<Rightarrow>
   (('b, 'x, 'm) ws_world_scheme \<Rightarrow> bytes option call \<times> ('b, 'x, 'm) ws_world_scheme) \<Rightarrow>
   ('b, 'x, 'm) ws_world_scheme \<Rightarrow> (bool call \<times> ('b, 'x, 'm) ws_world_scheme) option" where
  "ws_msgLoop OnClose OnPacket unPacket w = ws_messages OnClose OnPacket unPacket (ww_msgs w) w"

subsection \<open>Fields the user reads and sets\<close>

definition ws_GetID :: "('b, 'x) ws_conn \<Rightarrow> int" where "ws_GetID c = wc_id c"
definition ws_GetAddr :: "('b, 'x) ws_conn \<Rightarrow> string" where "ws_GetAddr c = wc_addr c"
definition ws_Context :: "('b, 'x) ws_conn \<Rightarrow> 'x option" where "ws_Context c = wc_ctx c"
definition ws_SetContext :: "'x option \<Rightarrow> ('b, 'x) ws_conn \<Rightarrow> ('b, 'x) ws_conn" where
  "ws_SetContext x c = c\<lparr>wc_ctx := x\<rparr>"
definition ws_Status :: "('b, 'x) ws_conn \<Rightarrow> int" where "ws_Status c = wc_status c"
definition ws_SetStatus :: "int \<Rightarrow> ('b, 'x) ws_conn \<Rightarrow> ('b, 'x) ws_conn" where
  "ws_SetStatus n c = c\<lparr>wc_status := n\<rparr>"
definition ws_Version :: "('b, 'x) ws_conn \<Rightarrow> 8 word" where "ws_Version c = wc_version c"
definition ws_SetVersion :: "8 word \<Rightarrow> ('b, 'x) ws_conn \<Rightarrow> ('b, 'x) ws_conn" where
  "ws_SetVersion v c = c\<lparr>wc_version := v\<rparr>"

end
