(* ===== verification/Ws_Props.thy ===== *)
theory Ws_Props
  imports Ws_Conn Tcp_Props
begin

text \<open>
  What the websocket connection does with messages: each is cut into packets on its own,
  a packet that spans messages is never seen, and a protocol that reads after the
  connection was closed in a callback ends the process.
\<close>

fun ws_delivered :: "ws_log list \<Rightarrow> bytes list" where
  "ws_delivered [] = []"
| "ws_delivered (WsDelivered p # ls) = p # ws_delivered ls"
| "ws_delivered (_ # ls) = ws_delivered ls"

fun ws_sent :: "ws_log list \<Rightarrow> bytes list" where
  "ws_sent [] = []"
| "ws_sent (WsSent p # ls) = p # ws_sent ls"
| "ws_sent (_ # ls) = ws_sent ls"

lemma ws_log_append [simp]:
  "ws_delivered (ls @ ks) = ws_delivered ls @ ws_delivered ks"
  "ws_sent (ls @ ks) = ws_sent ls @ ws_sent ks"
proof -
  show "ws_delivered (ls @ ks) = ws_delivered ls @ ws_delivered ks"
    by (induction ls rule: ws_delivered.induct) simp_all
  show "ws_sent (ls @ ks) = ws_sent ls @ ws_sent ks"
    by (induction ls rule: ws_sent.induct) simp_all
qed

subsection \<open>UnPacket functions\<close>

definition on_ws ::
  "(('b, 'x) ws_conn \<Rightarrow> ('a \<times> ('b, 'x) ws_conn) option) \<Rightarrow>
   ('b, 'x, 'm) ws_world_scheme \<Rightarrow> 'a call \<times> ('b, 'x, 'm) ws_world_scheme" where
  "on_ws f w =
     (case f (ww_conn w) of
        None \<Rightarrow> (Panics ErrorValue, w)
      | Some (x, c) \<Rightarrow> (Returns x, w\<lparr>ww_conn := c\<rparr>))"

definition ws_default_unPacket ::
  "'b bb_api \<Rightarrow> ('b, 'x, 'm) ws_world_scheme \<Rightarrow> bytes option call \<times> ('b, 'x, 'm) ws_world_scheme" where
  "ws_default_unPacket A w =
     (case on_ws (ws_Read A) w of
        (Panics v, w1) \<Rightarrow> (Panics v, w1)
      | (Returns buf, w1) \<Rightarrow>
          (if buf = [] then (Returns None, w1)
           else (case on_ws (\<lambda>c. map_option (Pair ()) (ws_ResetBuffer c)) w1 of
                   (Panics v, w2) \<Rightarrow> (Panics v, w2)
                 | (Returns _, w2) \<Rightarrow> (Returns (Some buf), w2))))"

definition ws_fixed_unPacket ::
  "'b bb_api \<Rightarrow> int \<Rightarrow> ('b, 'x, 'm) ws_world_scheme \<Rightarrow> bytes option call \<times> ('b, 'x, 'm) ws_world_scheme" where
  "ws_fixed_unPacket A n w =
     (case on_ws (\<lambda>c. map_option (\<lambda>(k, p, c'). ((k, p), c')) (ws_ReadN A n c)) w of
        (Panics v, w1) \<Rightarrow> (Panics v, w1)
      | (Returns (k, p), w1) \<Rightarrow>
          (if k < n then (Returns None, w1)
           else (case on_ws (ws_ShiftN n) w1 of
                   (Panics v, w2) \<Rightarrow> (Panics v, w2)
                 | (Returns _, w2) \<Rightarrow> (Returns (Some p), w2))))"

text \<open>
  An UnPacket that takes the first \<open>flen\<close> bytes off what is there, and touches nothing
  else; a packet is not empty and not longer than what is there.
\<close>

definition flen_fits :: "(bytes \<Rightarrow> nat option) \<Rightarrow> bool" where
  "flen_fits flen \<longleftrightarrow> (\<forall>xs n. flen xs = Some n \<longrightarrow> 0 < n \<and> n \<le> length xs)"

text \<open>The inbound ring buffer of a websocket connection stays empty.\<close>

definition ws_fresh :: "('b, 'x) ws_conn \<Rightarrow> bool" where
  "ws_fresh c \<longleftrightarrow> conn_inv c \<and> (\<exists>rb. ci_inbound c = Some rb \<and> rb_contents rb = [])"

definition ws_unpacks ::
  "(bytes \<Rightarrow> nat option) \<Rightarrow>
   (('b, 'x, 'm) ws_world_scheme \<Rightarrow> bytes option call \<times> ('b, 'x, 'm) ws_world_scheme) \<Rightarrow> bool" where
  "ws_unpacks flen u \<longleftrightarrow>
     (\<forall>w. ws_fresh (ww_conn w) \<longrightarrow>
        (\<exists>c. u w = (Returns (map_option (\<lambda>n. take n (conn_avail (ww_conn w))) (flen (conn_avail (ww_conn w)))),
            w\<lparr>ww_conn := c\<rparr>) \<and> ws_fresh c \<and>
          conn_avail c = (case flen (conn_avail (ww_conn w)) of
               None \<Rightarrow> conn_avail (ww_conn w) | Some n \<Rightarrow> drop n (conn_avail (ww_conn w)))))"

lemma ws_freshE:
  assumes "ws_fresh c"
  obtains rb where "ci_inbound c = Some rb" "rb_IsEmpty rb" "rb_inv rb" "rb_contents rb = []"
    "ci_connected c" "conn_avail c = ci_buffer c" "rb_Length rb = 0"
  using assms rb_isEmpty_iff rb_Length_eq
  by (auto simp: ws_fresh_def conn_inv_def conn_avail_def rb_IsEmpty_def)

lemma ws_fresh_fields:
  assumes "ci_inbound c = Some rb" "rb_inv rb" "rb_contents rb = []" "ci_connected c"
  shows "ws_fresh c" "conn_avail c = ci_buffer c"
  using assms by (simp_all add: ws_fresh_def conn_inv_def conn_avail_def)

definition whole :: "bytes \<Rightarrow> nat option" where
  "whole xs = (if xs = [] then None else Some (length xs))"

definition fixed_len :: "nat \<Rightarrow> bytes \<Rightarrow> nat option" where
  "fixed_len n xs = (if n \<le> length xs then Some n else None)"

lemma ws_default_unpacks: "ws_unpacks whole (ws_default_unPacket A)"
  unfolding ws_unpacks_def
proof (intro allI impI)
  fix w :: "('a, 'b, 'c) ws_world_scheme"
  assume "ws_fresh (ww_conn w)"
  then obtain rb where rb: "ci_inbound (ww_conn w) = Some rb" "rb_IsEmpty rb" "rb_inv rb"
    "rb_contents rb = []" "ci_connected (ww_conn w)" "conn_avail (ww_conn w) = ci_buffer (ww_conn w)"
    by (rule ws_freshE)
  show "\<exists>c. ws_default_unPacket A w =
      (Returns (map_option (\<lambda>n. take n (conn_avail (ww_conn w))) (whole (conn_avail (ww_conn w)))), w\<lparr>ww_conn := c\<rparr>) \<and>
      ws_fresh c \<and> conn_avail c = (case whole (conn_avail (ww_conn w)) of
        None \<Rightarrow> conn_avail (ww_conn w) | Some n \<Rightarrow> drop n (conn_avail (ww_conn w)))"
  proof (cases "ci_buffer (ww_conn w) = []")
    case True
    with rb show ?thesis
      by (intro exI [of _ "ww_conn w"])
         (simp add: ws_default_unPacket_def on_ws_def ws_Read_def whole_def ws_fresh_fields [of _ rb])
  next
    case False
    let ?c = "(ww_conn w)\<lparr>ci_buffer := [], ci_inbound := Some (rb_Reset rb), ci_byteBuffer := None\<rparr>"
    have "ws_fresh ?c" "conn_avail ?c = []"
      using ws_fresh_fields [of ?c "rb_Reset rb"] rb by simp_all
    with False rb show ?thesis
      by (intro exI [of _ ?c])
         (simp add: ws_default_unPacket_def on_ws_def ws_Read_def ws_ResetBuffer_def whole_def)
  qed
qed

lemma ws_fixed_unpacks:
  assumes "0 < n"
  shows "ws_unpacks (fixed_len n) (ws_fixed_unPacket A (int n))"
  unfolding ws_unpacks_def
proof (intro allI impI)
  fix w :: "('a, 'b, 'c) ws_world_scheme"
  assume "ws_fresh (ww_conn w)"
  then obtain rb where rb: "ci_inbound (ww_conn w) = Some rb" "rb_IsEmpty rb" "rb_inv rb"
    "rb_contents rb = []" "ci_connected (ww_conn w)" "conn_avail (ww_conn w) = ci_buffer (ww_conn w)"
    "rb_Length rb = 0"
    by (rule ws_freshE)
  let ?b = "ci_buffer (ww_conn w)"
  show "\<exists>c. ws_fixed_unPacket A (int n) w =
      (Returns (map_option (\<lambda>k. take k (conn_avail (ww_conn w))) (fixed_len n (conn_avail (ww_conn w)))), w\<lparr>ww_conn := c\<rparr>) \<and>
      ws_fresh c \<and> conn_avail c = (case fixed_len n (conn_avail (ww_conn w)) of
        None \<Rightarrow> conn_avail (ww_conn w) | Some k \<Rightarrow> drop k (conn_avail (ww_conn w)))"
  proof (cases "n \<le> length ?b")
    case False
    with rb assms slice_take [of "length ?b" ?b] show ?thesis
      by (intro exI [of _ "ww_conn w"])
         (simp add: ws_fixed_unPacket_def on_ws_def ws_ReadN_def fixed_len_def Let_def ws_fresh_fields [of _ rb])
  next
    case True
    let ?c = "(ww_conn w)\<lparr>ci_buffer := drop n ?b\<rparr>"
    have "ws_fresh ?c" "conn_avail ?c = drop n ?b"
      using ws_fresh_fields [of ?c rb] rb by simp_all
    with True rb assms slice_take [of n ?b] slice_drop_all [of n ?b] show ?thesis
      by (intro exI [of _ ?c])
         (simp add: ws_fixed_unPacket_def on_ws_def ws_ReadN_def ws_ShiftN_def fixed_len_def Let_def)
  qed
qed

lemma ws_unpacks_Some:
  assumes "ws_unpacks flen unPacket" "ws_fresh (ww_conn w)" "flen (conn_avail (ww_conn w)) = Some n"
  obtains c where "unPacket w = (Returns (Some (take n (conn_avail (ww_conn w)))), w\<lparr>ww_conn := c\<rparr>)" "ws_fresh c"
  using assms unfolding ws_unpacks_def by fastforce

subsection \<open>One message\<close>

lemma frames_fits:
  "flen_fits flen \<Longrightarrow> flen xs = Some n \<Longrightarrow>
    frames flen xs = (let (fs, r) = frames flen (drop n xs) in (take n xs # fs, r))"
  by (subst frames.simps) (force simp: flen_fits_def)

definition reply ::
  "(bytes \<Rightarrow> bytes) \<Rightarrow> bytes \<Rightarrow> ('b, 'x, 'm) ws_world_scheme \<Rightarrow> bytes call \<times> ('b, 'x, 'm) ws_world_scheme" where
  "reply f p w = (Returns (f p), w)"

definition replies :: "(bytes \<Rightarrow> bytes) \<Rightarrow> bytes list \<Rightarrow> bytes list" where
  "replies f ps = filter (\<lambda>q. q \<noteq> []) (map f ps)"

lemma ws_packets_frames:
  assumes u: "ws_unpacks flen unPacket" and fl: "flen_fits flen"
    and "ws_fresh (ww_conn w)" "ww_writes w = []"
  shows "\<exists>w'. ws_packets (reply f) unPacket w = Some (Returns (), w') \<and> ws_fresh (ww_conn w') \<and>
    ww_writes w' = [] \<and>
    ws_delivered (ww_log w') = ws_delivered (ww_log w) @ fst (frames flen (conn_avail (ww_conn w))) \<and>
    ws_sent (ww_log w') = ws_sent (ww_log w) @ replies f (fst (frames flen (conn_avail (ww_conn w))))"
  using assms(3,4)
proof (induction "length (conn_avail (ww_conn w))" arbitrary: w rule: less_induct)
  case (less w)
  let ?a = "conn_avail (ww_conn w)"
  obtain c where c: "unPacket w = (Returns (map_option (\<lambda>n. take n ?a) (flen ?a)), w\<lparr>ww_conn := c\<rparr>)"
    "ws_fresh c" "conn_avail c = (case flen ?a of None \<Rightarrow> ?a | Some n \<Rightarrow> drop n ?a)"
    using u less.prems(1) unfolding ws_unpacks_def by blast
  show ?case
  proof (cases "flen ?a")
    case None
    with c less.prems(2) show ?thesis
      by (subst ws_packets.simps) (simp add: frames_None replies_def)
  next
    case (Some n)
    let ?w1 = "ww_note (WsDelivered (take n ?a)) (w\<lparr>ww_conn := c\<rparr>)"
    let ?w2 = "if f (take n ?a) \<noteq> [] then ww_note (WsSent (f (take n ?a))) ?w1 else ?w1"
    have con: "ci_connected c" using c(2) by (auto elim: ws_freshE)
    have step: "ws_packets (reply f) unPacket w = ws_packets (reply f) unPacket ?w2"
      using con less.prems(2)
      by (subst ws_packets.simps) (simp add: c(1) Some reply_def ws_write_def ww_note_def)
    have w2: "conn_avail (ww_conn ?w2) = drop n ?a" "ws_fresh (ww_conn ?w2)" "ww_writes ?w2 = []"
      "ws_delivered (ww_log ?w2) = ws_delivered (ww_log w) @ [take n ?a]"
      "ws_sent (ww_log ?w2) = ws_sent (ww_log w) @ replies f [take n ?a]"
      using c(2,3) Some less.prems(2) by (simp_all add: ww_note_def replies_def)
    have "0 < n" "n \<le> length ?a" using fl Some by (auto simp: flen_fits_def)
    then have "length (conn_avail (ww_conn ?w2)) < length ?a" using w2(1) by simp
    from less.hyps [OF this w2(2,3)] show ?thesis
      unfolding step w2 by (auto simp: frames_fits [OF fl Some] replies_def split: prod.split)
  qed
qed

lemma ws_messages_frames:
  assumes u: "ws_unpacks flen unPacket" and fl: "flen_fits flen"
    and "ws_fresh (ww_conn w)" "ww_writes w = []"
  shows "\<exists>w'. ws_messages OnClose (reply f) unPacket (map Some ms) w = Some (Returns False, w') \<and>
    ws_fresh (ww_conn w') \<and>
    ws_delivered (ww_log w') = ws_delivered (ww_log w) @ concat (map (\<lambda>m. fst (frames flen m)) ms) \<and>
    ws_sent (ww_log w') = ws_sent (ww_log w) @ replies f (concat (map (\<lambda>m. fst (frames flen m)) ms))"
  using assms(3,4)
proof (induction ms arbitrary: w)
  case Nil
  then show ?case by (simp add: replies_def)
next
  case (Cons m ms)
  let ?w1 = "ww_active (ww_note (WsReceived m) w)"
  let ?w2 = "?w1\<lparr>ww_conn := (ww_conn ?w1)\<lparr>ci_buffer := m\<rparr>\<rparr>"
  obtain rb where rb: "ci_inbound (ww_conn w) = Some rb" "rb_inv rb" "rb_contents rb = []" "ci_connected (ww_conn w)"
    using Cons.prems(1) by (rule ws_freshE)
  have w2: "ws_fresh (ww_conn ?w2)" "conn_avail (ww_conn ?w2) = m" "ww_writes ?w2 = []"
    "ws_delivered (ww_log ?w2) = ws_delivered (ww_log w)" "ws_sent (ww_log ?w2) = ws_sent (ww_log w)"
    using ws_fresh_fields [of "ww_conn ?w2" rb] rb Cons.prems(2) by (simp_all add: ww_active_def ww_note_def)
  obtain w3 where w3: "ws_packets (reply f) unPacket ?w2 = Some (Returns (), w3)" "ws_fresh (ww_conn w3)"
    "ww_writes w3 = []" "ws_delivered (ww_log w3) = ws_delivered (ww_log w) @ fst (frames flen m)"
    "ws_sent (ww_log w3) = ws_sent (ww_log w) @ replies f (fst (frames flen m))"
    using ws_packets_frames [OF u fl w2(1,3)] w2 by metis
  from Cons.IH [OF w3(2,3)] w3 show ?case by (auto simp: Let_def replies_def)
qed

definition ws_example :: "bytes option list \<Rightarrow> (bytes, unit) ws_world" where
  "ws_example ms =
     \<lparr>ww_conn = NewWSConn 1 ''10.0.0.1:4000'' ring8 0 0, ww_msgs = ms, ww_writes = [], ww_idle = 0,
      ww_now = 0, ww_log = []\<rparr>"

lemma ws_example:
  "ws_fresh (ww_conn (ws_example ms))" "ww_writes (ws_example ms) = []" "ww_log (ws_example ms) = []"
  "ww_msgs (ws_example ms) = ms"
  using ring8 by (simp_all add: ws_example_def NewWSConn_def ws_fresh_def conn_inv_def)

lemma fixed_len_fits: "0 < n \<Longrightarrow> flen_fits (fixed_len n)" and whole_fits: "flen_fits whole"
  by (auto simp: flen_fits_def fixed_len_def whole_def)

text \<open>A packet that spans two messages is in the frames of neither.\<close>

lemma spanning_packet:
  assumes "flen_fits flen" "m1 \<noteq> []" "flen m1 = None" "flen (m1 @ m2) = Some (length (m1 @ m2))"
  shows "frames flen (m1 @ m2) = ([m1 @ m2], [])" "m1 @ m2 \<notin> set (fst (frames flen m1) @ fst (frames flen m2))"
proof -
  have len: "p \<in> set (fst (frames flen xs)) \<Longrightarrow> length p \<le> length xs" for p xs
  proof (induction "length xs" arbitrary: xs rule: less_induct)
    case (less xs)
    show ?case
    proof (cases "flen xs")
      case None
      with less.prems show ?thesis by (simp add: frames_None)
    next
      case (Some n)
      then have "0 < n" "n \<le> length xs" using assms(1) by (auto simp: flen_fits_def)
      with less.hyps [of "drop n xs"] less.prems show ?thesis
        by (force simp: frames_fits [OF assms(1) Some] split: prod.splits)
    qed
  qed
  have "flen [] = None" using assms(1) by (cases "flen []") (fastforce simp: flen_fits_def)+
  then show "frames flen (m1 @ m2) = ([m1 @ m2], [])"
    using frames_fits [OF assms(1,4)] by (simp add: frames_None)
  show "m1 @ m2 \<notin> set (fst (frames flen m1) @ fst (frames flen m2))"
    using len [of "m1 @ m2" m2] assms(2,3) by (auto simp: frames_None)
qed

text \<open>
  C15. The message loop cuts every message into packets on its own, in order, hands each
  packet to OnPacket once and sends each non-empty reply; it neither stops nor panics. A
  packet that spans two messages is lost: the rest of the first message is not kept for
  the second, so OnPacket never gets the packet, which the TCP connection would deliver
  for the same protocol and bytes.
\<close>
theorem ws_messages_framed:
  assumes "ws_unpacks flen unPacket" "flen_fits flen" "ws_fresh (ww_conn w)" "ww_writes w = []"
    and "ww_msgs w = map Some ms" "ww_log w = []" "ps = concat (map (\<lambda>m. fst (frames flen m)) ms)"
  shows "(\<exists>w'. ws_msgLoop OnClose (reply f) unPacket w = Some (Returns False, w') \<and>
      ws_delivered (ww_log w') = ps \<and> ws_sent (ww_log w') = filter (\<lambda>q. q \<noteq> []) (map f ps)) \<and>
    (\<forall>m1 m2. ms = [m1, m2] \<longrightarrow> m1 \<noteq> [] \<longrightarrow> flen m1 = None \<longrightarrow> flen (m1 @ m2) = Some (length (m1 @ m2)) \<longrightarrow>
      frames flen (m1 @ m2) = ([m1 @ m2], []) \<and> m1 @ m2 \<notin> set ps)"
  using ws_messages_frames [OF assms(1-4), of OnClose f ms] assms(5-7) spanning_packet [OF assms(2)]
  by (auto simp: ws_msgLoop_def replies_def)

theorem ws_messages_framed_witness:
  "\<exists>w'. ws_msgLoop (\<lambda>w. (Returns (), w)) (reply rev) (ws_fixed_unPacket bb_list (int 3))
      (ws_example [Some [1], Some [2, 3, 4, 5]]) = Some (Returns False, w') \<and>
    ws_sent (ww_log w') = [[4, 3, 2]] \<and> [1, 2, 3] \<notin> set (ws_delivered (ww_log w'))"
proof -
  have "fst (frames (fixed_len 3) [1]) = []" "fst (frames (fixed_len 3) [2, 3, 4, 5]) = [[2, 3, 4]]"
    by code_simp+
  with ws_messages_framed [OF ws_fixed_unpacks [of 3 bb_list] fixed_len_fits [of 3] ws_example(1,2),
      of "[Some [1], Some [2, 3, 4, 5]]" "[[1], [2, 3, 4, 5]]" "[[2, 3, 4]]" "\<lambda>w. (Returns (), w)" rev]
  show ?thesis by (auto simp: ws_example)
qed

subsection \<open>Closing in a callback\<close>

definition closing_OnPacket ::
  "bytes \<Rightarrow> ('b, 'x, 'm) ws_world_scheme \<Rightarrow> bytes call \<times> ('b, 'x, 'm) ws_world_scheme" where
  "closing_OnPacket p w = (Returns [], snd (ws_Close (\<lambda>w. (Returns (), w)) w))"

lemma closing_step:
  assumes "u w = (Returns (Some p), w\<lparr>ww_conn := c\<rparr>)" "ws_fresh c"
  obtains v where "ws_packets closing_OnPacket u w = ws_packets closing_OnPacket u v" "\<not> ci_connected (ww_conn v)"
    "ci_inbound (ww_conn v) = None" "ww_log v = ww_log w @ [WsDelivered p, WsOnClose, WsConnClosed]"
proof -
  let ?v = "snd (ws_Close (\<lambda>w. (Returns (), w)) (ww_note (WsDelivered p) (w\<lparr>ww_conn := c\<rparr>)))"
  have "ci_connected c" using assms(2) by (auto elim: ws_freshE)
  then have v: "\<not> ci_connected (ww_conn ?v)" "ci_inbound (ww_conn ?v) = None"
    "ww_log ?v = ww_log w @ [WsDelivered p, WsOnClose, WsConnClosed]"
    by (simp_all add: ws_Close_def ws_handleClose_def ws_release_def ww_note_def Let_def)
  have "ws_packets closing_OnPacket u w = ws_packets closing_OnPacket u ?v"
    using assms(1) by (subst ws_packets.simps) (simp add: closing_OnPacket_def)
  from that [OF this v] show thesis .
qed

text \<open>
  Close takes effect at once, in the goroutine that calls it. When OnPacket closes its
  connection, the message loop goes on to call UnPacket on the released connection: the
  default one sees it and the loop ends with the next ReadMessage, OnClose having been
  called once; one that starts with ReadN dereferences a nil buffer, and since nothing
  recovers the goroutine's panic, the process ends.
\<close>
theorem ws_close_in_callback:
  assumes "ws_fresh (ww_conn w)" "ww_msgs w = [Some m, None]" "0 < n" "n \<le> length m" "m \<noteq> []" "ww_log w = []"
  shows "(\<exists>w'. ws_msgLoop (\<lambda>w. (Returns (), w)) closing_OnPacket (ws_default_unPacket A) w = Some (Returns True, w') \<and>
      ww_log w' = [WsReceived m, WsDelivered m, WsOnClose, WsConnClosed]) \<and>
    (\<exists>w'. ws_msgLoop (\<lambda>w. (Returns (), w)) closing_OnPacket (ws_fixed_unPacket A (int n)) w =
      Some (Panics ErrorValue, w'))"
proof -
  let ?w1 = "ww_active (ww_note (WsReceived m) w)"
  let ?w2 = "?w1\<lparr>ww_conn := (ww_conn ?w1)\<lparr>ci_buffer := m\<rparr>\<rparr>"
  obtain rb where rb: "ci_inbound (ww_conn w) = Some rb" "rb_inv rb" "rb_contents rb = []" "ci_connected (ww_conn w)"
    using assms(1) by (rule ws_freshE)
  have w2: "ws_fresh (ww_conn ?w2)" "conn_avail (ww_conn ?w2) = m" "ww_log ?w2 = [WsReceived m]"
    using ws_fresh_fields [of "ww_conn ?w2" rb] rb assms(6) by (simp_all add: ww_active_def ww_note_def)
  have "whole m = Some (length m)" "fixed_len n m = Some n"
    using assms(3-5) by (simp_all add: whole_def fixed_len_def)
  then have flen: "whole (conn_avail (ww_conn ?w2)) = Some (length m)" "fixed_len n (conn_avail (ww_conn ?w2)) = Some n"
    unfolding w2(2) by simp_all
  obtain c1 where c1: "ws_default_unPacket A ?w2 = (Returns (Some m), ?w2\<lparr>ww_conn := c1\<rparr>)" "ws_fresh c1"
    using ws_unpacks_Some [OF ws_default_unpacks [of A] w2(1) flen(1)] unfolding w2(2) by auto
  obtain c2 where c2: "ws_fixed_unPacket A (int n) ?w2 = (Returns (Some (take n m)), ?w2\<lparr>ww_conn := c2\<rparr>)" "ws_fresh c2"
    using ws_unpacks_Some [OF ws_fixed_unpacks [OF assms(3), of A] w2(1) flen(2)] unfolding w2(2) by auto
  obtain v1 where v1: "ws_packets closing_OnPacket (ws_default_unPacket A) ?w2 =
      ws_packets closing_OnPacket (ws_default_unPacket A) v1" "\<not> ci_connected (ww_conn v1)"
      "ww_log v1 = [WsReceived m, WsDelivered m, WsOnClose, WsConnClosed]"
    using closing_step [of "ws_default_unPacket A", OF c1] w2(3) by (metis append_Cons append_Nil)
  have "ws_packets closing_OnPacket (ws_default_unPacket A) v1 = Some (Returns (), v1)"
    using v1(2) by (subst ws_packets.simps) (simp add: ws_default_unPacket_def on_ws_def ws_Read_def)
  with v1 assms(2) have "ws_msgLoop (\<lambda>w. (Returns (), w)) closing_OnPacket (ws_default_unPacket A) w =
      Some (Returns True, v1)"
    by (simp add: ws_msgLoop_def ws_handleClose_def Let_def)
  moreover obtain v2 where v2: "ws_packets closing_OnPacket (ws_fixed_unPacket A (int n)) ?w2 =
      ws_packets closing_OnPacket (ws_fixed_unPacket A (int n)) v2" "ci_inbound (ww_conn v2) = None"
    using closing_step [of "ws_fixed_unPacket A (int n)", OF c2] by metis
  have "ws_packets closing_OnPacket (ws_fixed_unPacket A (int n)) v2 = Some (Panics ErrorValue, v2)"
    using v2(2) by (subst ws_packets.simps) (simp add: ws_fixed_unPacket_def on_ws_def ws_ReadN_def)
  with v2(1) assms(2) have "ws_msgLoop (\<lambda>w. (Returns (), w)) closing_OnPacket (ws_fixed_unPacket A (int n)) w =
      Some (Panics ErrorValue, v2)"
    by (simp add: ws_msgLoop_def Let_def)
  ultimately show ?thesis using v1(3) by blast
qed

theorem ws_close_in_callback_witness:
  "\<exists>w'. ws_msgLoop (\<lambda>w. (Returns (), w)) closing_OnPacket (ws_fixed_unPacket bb_list (int 2))
    (ws_example [Some [1, 2], None]) = Some (Panics ErrorValue, w')"
  using ws_close_in_callback [OF ws_example(1), of "[Some [1, 2], None]" "[1, 2]" 2 bb_list]
  by (auto simp: ws_example)

end
