(* ===== verification/Conn_Interface.thy ===== *)
theory Conn_Interface
  imports Ws_Props
begin

text \<open>
  The interface Conn of conn.go, which user code is written against, as a record of its
  methods on a state \<open>'w\<close>, and its two implementations, TCPConn and WSConn. \<open>conn_methods\<close> is
  what a caller relies on for either: the user's fields, and what happens after closing.
\<close>

datatype method_error = ConnectionClosed | WriteError

record ('w, 'x) Conn =
  cn_GetID :: "'w \<Rightarrow> int"
  cn_Read :: "'w \<Rightarrow> bytes call \<times> 'w"
  cn_ResetBuffer :: "'w \<Rightarrow> unit call \<times> 'w"
  cn_ReadN :: "int \<Rightarrow> 'w \<Rightarrow> (int \<times> bytes) call \<times> 'w"
  cn_ShiftN :: "int \<Rightarrow> 'w \<Rightarrow> int call \<times> 'w"
  cn_Write :: "bytes \<Rightarrow> 'w \<Rightarrow> method_error option call \<times> 'w"
  cn_Close :: "'w \<Rightarrow> method_error option call \<times> 'w"
  cn_GetAddr :: "'w \<Rightarrow> string"
  cn_Context :: "'w \<Rightarrow> 'x option"
  cn_SetContext :: "'x option \<Rightarrow> 'w \<Rightarrow> 'w"
  cn_Status :: "'w \<Rightarrow> int"
  cn_SetStatus :: "int \<Rightarrow> 'w \<Rightarrow> 'w"
  cn_Version :: "'w \<Rightarrow> 8 word"
  cn_SetVersion :: "8 word \<Rightarrow> 'w \<Rightarrow> 'w"

fun method_error_of :: "conn_error \<Rightarrow> method_error" where
  "method_error_of ErrConnectionClosed = ConnectionClosed"

subsection \<open>The implementations\<close>

definition TCPConn_methods :: "'b bb_api \<Rightarrow> (('h, 'b, 'x, 'k, 'm) tcp_world_scheme, 'x) Conn" where
  "TCPConn_methods A =
     \<lparr>cn_GetID = (\<lambda>w. tcp_GetID (tw_conn w)),
      cn_Read = on_conn (conn_Read A),
      cn_ResetBuffer = on_conn (\<lambda>c. map_option (Pair ()) (conn_ResetBuffer c)),
      cn_ReadN = (\<lambda>n. on_conn (\<lambda>c. map_option (\<lambda>(k, p, c'). ((k, p), c')) (conn_ReadN A n c))),
      cn_ShiftN = (\<lambda>n. on_conn (conn_ShiftN n)),
      cn_Write = (\<lambda>buf w. map_prod (\<lambda>e. Returns (map_option method_error_of e)) id (tcp_Write buf w)),
      cn_Close = (\<lambda>w. map_prod (\<lambda>e. Returns (map_option method_error_of e)) id (tcp_Close w)),
      cn_GetAddr = (\<lambda>w. tcp_GetAddr (tw_conn w)),
      cn_Context = (\<lambda>w. tcp_Context (tw_conn w)),
      cn_SetContext = (\<lambda>x w. w\<lparr>tw_conn := tcp_SetContext x (tw_conn w)\<rparr>),
      cn_Status = (\<lambda>w. tcp_Status (tw_conn w)),
      cn_SetStatus = (\<lambda>n w. w\<lparr>tw_conn := tcp_SetStatus n (tw_conn w)\<rparr>),
      cn_Version = (\<lambda>w. tcp_Version (tw_conn w)),
      cn_SetVersion = (\<lambda>v w. w\<lparr>tw_conn := tcp_SetVersion v (tw_conn w)\<rparr>)\<rparr>"

text \<open>On a websocket Close runs the user's OnClose in the caller, and Write can fail at once.\<close>

definition WSConn_methods ::
  "'b bb_api \<Rightarrow> (('b, 'x, 'm) ws_world_scheme \<Rightarrow> unit call \<times> ('b, 'x, 'm) ws_world_scheme) \<Rightarrow>
   (('b, 'x, 'm) ws_world_scheme, 'x) Conn" where
  "WSConn_methods A OnClose =
     \<lparr>cn_GetID = (\<lambda>w. ws_GetID (ww_conn w)),
      cn_Read = on_ws (ws_Read A),
      cn_ResetBuffer = on_ws (\<lambda>c. map_option (Pair ()) (ws_ResetBuffer c)),
      cn_ReadN = (\<lambda>n. on_ws (\<lambda>c. map_option (\<lambda>(k, p, c'). ((k, p), c')) (ws_ReadN A n c))),
      cn_ShiftN = (\<lambda>n. on_ws (ws_ShiftN n)),
      cn_Write = (\<lambda>buf w. case ws_Write buf w of
         ((Some e, _), w') \<Rightarrow> (Returns (Some (method_error_of e)), w')
       | ((None, ok), w') \<Rightarrow> (Returns (if ok then None else Some WriteError), w')),
      cn_Close = (\<lambda>w. case ws_Close OnClose w of
         (Panics v, w') \<Rightarrow> (Panics v, w')
       | (Returns e, w') \<Rightarrow> (Returns (map_option method_error_of e), w')),
      cn_GetAddr = (\<lambda>w. ws_GetAddr (ww_conn w)),
      cn_Context = (\<lambda>w. ws_Context (ww_conn w)),
      cn_SetContext = (\<lambda>x w. w\<lparr>ww_conn := ws_SetContext x (ww_conn w)\<rparr>),
      cn_Status = (\<lambda>w. ws_Status (ww_conn w)),
      cn_SetStatus = (\<lambda>n w. w\<lparr>ww_conn := ws_SetStatus n (ww_conn w)\<rparr>),
      cn_Version = (\<lambda>w. ws_Version (ww_conn w)),
      cn_SetVersion = (\<lambda>v w. w\<lparr>ww_conn := ws_SetVersion v (ww_conn w)\<rparr>)\<rparr>"

subsection \<open>The default UnPacket\<close>

text \<open>NewOption's UnPacket as it is written, against the interface.\<close>

definition option_unPacket :: "('w, 'x) Conn \<Rightarrow> 'w \<Rightarrow> bytes option call \<times> 'w" where
  "option_unPacket M c =
     (case cn_Read M c of
        (Panics v, c1) \<Rightarrow> (Panics v, c1)
      | (Returns buf, c1) \<Rightarrow>
          (if buf = [] then (Returns None, c1)
           else (case cn_ResetBuffer M c1 of
                   (Panics v, c2) \<Rightarrow> (Panics v, c2)
                 | (Returns _, c2) \<Rightarrow> (Returns (Some buf), c2))))"

subsection \<open>The contract\<close>

text \<open>Setting a field changes nothing else that a caller can read.\<close>

definition same_view :: "('w, 'x) Conn \<Rightarrow> 'w \<Rightarrow> 'w \<Rightarrow> bool" where
  "same_view M w w' \<longleftrightarrow>
     cn_GetID M w' = cn_GetID M w \<and> cn_GetAddr M w' = cn_GetAddr M w \<and>
     fst (cn_Read M w') = fst (cn_Read M w)"

locale conn_methods =
  fixes M :: "('w, 'x) Conn" and is_open :: "'w \<Rightarrow> bool"
  assumes context_law: "cn_Context M (cn_SetContext M x w) = x \<and> cn_Status M (cn_SetContext M x w) = cn_Status M w \<and>
      cn_Version M (cn_SetContext M x w) = cn_Version M w \<and> same_view M w (cn_SetContext M x w)"
    and status_law: "cn_Status M (cn_SetStatus M n w) = n \<and> cn_Context M (cn_SetStatus M n w) = cn_Context M w \<and>
      cn_Version M (cn_SetStatus M n w) = cn_Version M w \<and> same_view M w (cn_SetStatus M n w)"
    and version_law: "cn_Version M (cn_SetVersion M v w) = v \<and> cn_Context M (cn_SetVersion M v w) = cn_Context M w \<and>
      cn_Status M (cn_SetVersion M v w) = cn_Status M w \<and> same_view M w (cn_SetVersion M v w)"
    and open_law: "is_open (cn_SetContext M x w) = is_open w \<and> is_open (cn_SetStatus M n w) = is_open w \<and>
      is_open (cn_SetVersion M v w) = is_open w"
    and closed_law: "\<not> is_open w \<Longrightarrow> cn_Read M w = (Returns [], w) \<and>
      cn_Write M buf w = (Returns (Some ConnectionClosed), w) \<and> cn_Close M w = (Returns (Some ConnectionClosed), w)"
begin

text \<open>The default UnPacket gets no packet of a closed connection.\<close>

lemma unPacket_closed: "\<not> is_open w \<Longrightarrow> option_unPacket M w = (Returns None, w)"
  by (simp add: option_unPacket_def closed_law)

text \<open>The user's fields survive closing and each other, in any order of the setters.\<close>

lemma fields_kept:
  "cn_Context M (cn_SetVersion M v (cn_SetStatus M n (cn_SetContext M x w))) = x \<and>
   cn_Status M (cn_SetVersion M v (cn_SetStatus M n (cn_SetContext M x w))) = n \<and>
   cn_Version M (cn_SetVersion M v (cn_SetStatus M n (cn_SetContext M x w))) = v \<and>
   is_open (cn_SetVersion M v (cn_SetStatus M n (cn_SetContext M x w))) = is_open w"
  by (simp add: context_law status_law version_law open_law)

end

lemmas tcp_field_defs = tcp_GetID_def tcp_GetAddr_def tcp_Context_def tcp_SetContext_def
  tcp_Status_def tcp_SetStatus_def tcp_Version_def tcp_SetVersion_def

lemmas ws_field_defs = ws_GetID_def ws_GetAddr_def ws_Context_def ws_SetContext_def
  ws_Status_def ws_SetStatus_def ws_Version_def ws_SetVersion_def

text \<open>What Read returns depends on no field of the user.\<close>

definition read_result :: "'b bb_api \<Rightarrow> ('b, 'm) conn_input_scheme \<Rightarrow> bytes call" where
  "read_result A c =
     (if \<not> ci_connected c then Returns []
      else (case ci_inbound c of
              None \<Rightarrow> Panics ErrorValue
            | Some rb \<Rightarrow>
                (if rb_IsEmpty rb then Returns (ci_buffer c)
                 else (case rb_WithByteBuffer A rb (ci_buffer c) of
                         None \<Rightarrow> Panics ErrorValue | Some bb \<Rightarrow> Returns (bb_Bytes A bb)))))"

lemma read_result_fields [simp]:
  "read_result A (c\<lparr>tc_ctx := x\<rparr>) = read_result A c" "read_result A (c\<lparr>tc_status := n\<rparr>) = read_result A c"
  "read_result A (c\<lparr>tc_version := v\<rparr>) = read_result A c" "read_result A (d\<lparr>wc_ctx := x\<rparr>) = read_result A d"
  "read_result A (d\<lparr>wc_status := n\<rparr>) = read_result A d" "read_result A (d\<lparr>wc_version := v\<rparr>) = read_result A d"
  by (simp_all add: read_result_def cong: option.case_cong if_cong)

lemma Read_fst:
  "fst (on_conn (conn_Read A) v) = read_result A (tw_conn v)"
  "fst (on_ws (ws_Read A) w) = read_result A (ww_conn w)"
  by (simp_all add: on_conn_def conn_Read_def on_ws_def ws_Read_def read_result_def split: option.split)

lemma Read_closed:
  "\<not> ci_connected (tw_conn v) \<Longrightarrow> on_conn (conn_Read A) v = (Returns [], v)"
  "\<not> ci_connected (ww_conn w) \<Longrightarrow> on_ws (ws_Read A) w = (Returns [], w)"
  by (simp_all add: on_conn_def conn_Read_def on_ws_def ws_Read_def)

interpretation tcp_iface: conn_methods "TCPConn_methods A" "\<lambda>w. ci_connected (tw_conn w)" for A :: "'b bb_api"
  by unfold_locales
     (simp_all add: TCPConn_methods_def tcp_field_defs same_view_def Read_fst tcp_Write_def tcp_Close_def Read_closed)

interpretation ws_iface: conn_methods "WSConn_methods A OnClose" "\<lambda>w. ci_connected (ww_conn w)"
  for A :: "'b bb_api" and OnClose
  by unfold_locales
     (simp_all add: WSConn_methods_def ws_field_defs same_view_def Read_fst ws_Write_def ws_Close_def Read_closed)

text \<open>The default UnPacket of each kind of connection is the one written against Conn.\<close>

lemma default_unPacket_iface: "option_unPacket (TCPConn_methods A) = default_unPacket A"
  unfolding fun_eq_iff option_unPacket_def default_unPacket_def TCPConn_methods_def Conn.select_convs by simp

lemma ws_default_unPacket_iface: "option_unPacket (WSConn_methods A OnClose) = ws_default_unPacket A"
  unfolding fun_eq_iff option_unPacket_def ws_default_unPacket_def WSConn_methods_def Conn.select_convs by simp

lemma default_unPacket_closed:
  "\<not> ci_connected (tw_conn w) \<Longrightarrow> default_unPacket A w = (Returns None, w)"
  using tcp_iface.unPacket_closed [of w A] by (simp add: default_unPacket_iface)

lemma ws_default_unPacket_closed:
  "\<not> ci_connected (ww_conn w) \<Longrightarrow> ws_default_unPacket A w = (Returns None, w)"
  using ws_iface.unPacket_closed [of w A] by (simp add: ws_default_unPacket_iface)

end
