(* ===== verification/Ws_Close.thy ===== *)
theory Ws_Close
  imports Main
begin

text \<open>
  Closing a websocket connection, once more as a step relation for its interleavings.
  handleClose of conn_ws.go runs in whatever goroutine calls it: the message loop after
  a failed read, the goroutine of the timing wheel, the user's own ones through Close.
  Each goroutine reads \<open>connected\<close> (\<open>CwStart\<close>), clears it (\<open>CwChecked\<close>), calls OnClose
  (\<open>CwCleared\<close>), closes the socket (\<open>CwNotified\<close>), puts the ring buffer it finds in
  \<open>inboundBuffer\<close> into the pool (\<open>CwShut\<close>) and sets the field to nil (\<open>CwPut\<close>). Put of nil
  dereferences it: \<open>CwPanic\<close>. A buffer is a number; \<open>cw_pool\<close> lists the ones put.
\<close>

datatype cw_pc = CwStart | CwChecked | CwCleared | CwNotified | CwShut | CwPut | CwDone | CwPanic

record cw_state =
  cw_connected :: bool
  cw_inbound :: "nat option"
  cw_pool :: "nat list"
  cw_onclose :: nat
  cw_shut :: nat
  cw_pc :: "nat \<Rightarrow> cw_pc"

definition cw_init :: "nat \<Rightarrow> cw_state" where
  "cw_init b =
     \<lparr>cw_connected = True, cw_inbound = Some b, cw_pool = [], cw_onclose = 0, cw_shut = 0,
      cw_pc = (\<lambda>_. CwStart)\<rparr>"

definition cw_at :: "nat \<Rightarrow> cw_pc \<Rightarrow> cw_state \<Rightarrow> cw_state" where
  "cw_at t p s = s\<lparr>cw_pc := (cw_pc s)(t := p)\<rparr>"

text \<open>The step of goroutine \<open>t\<close>; at the end a further call of handleClose may start.\<close>

definition cw_step :: "nat \<Rightarrow> cw_state \<Rightarrow> cw_state" where
  "cw_step t s =
     (case cw_pc s t of
        CwStart \<Rightarrow> cw_at t (if cw_connected s then CwChecked else CwDone) s
      | CwChecked \<Rightarrow> cw_at t CwCleared (s\<lparr>cw_connected := False\<rparr>)
      | CwCleared \<Rightarrow> cw_at t CwNotified (s\<lparr>cw_onclose := Suc (cw_onclose s)\<rparr>)
      | CwNotified \<Rightarrow> cw_at t CwShut (s\<lparr>cw_shut := Suc (cw_shut s)\<rparr>)
      | CwShut \<Rightarrow>
          (case cw_inbound s of
             None \<Rightarrow> cw_at t CwPanic s
           | Some b \<Rightarrow> cw_at t CwPut (s\<lparr>cw_pool := cw_pool s @ [b]\<rparr>))
      | CwPut \<Rightarrow> cw_at t CwDone (s\<lparr>cw_inbound := None\<rparr>)
      | CwDone \<Rightarrow> cw_at t CwStart s
      | CwPanic \<Rightarrow> s)"

text \<open>A schedule names the goroutine of every step.\<close>

primrec cw_run :: "nat list \<Rightarrow> cw_state \<Rightarrow> cw_state" where
  "cw_run [] s = s"
| "cw_run (t # ts) s = cw_run ts (cw_step t s)"

lemma cw_run_append [simp]: "cw_run (ts @ us) s = cw_run us (cw_run ts s)"
  by (induction ts arbitrary: s) simp_all

subsection \<open>Closing by one goroutine after another\<close>

text \<open>
  No goroutine reads the flag while another one is between its reading and its clearing.
\<close>

definition cw_guarded :: "nat \<Rightarrow> cw_state \<Rightarrow> bool" where
  "cw_guarded t s \<longleftrightarrow> cw_pc s t = CwStart \<longrightarrow> (\<forall>u. cw_pc s u \<noteq> CwChecked)"

primrec cw_guarded_run :: "nat list \<Rightarrow> cw_state \<Rightarrow> bool" where
  "cw_guarded_run [] s \<longleftrightarrow> True"
| "cw_guarded_run (t # ts) s \<longleftrightarrow> cw_guarded t s \<and> cw_guarded_run ts (cw_step t s)"

definition cw_busy :: "cw_pc \<Rightarrow> bool" where
  "cw_busy p \<longleftrightarrow> p \<notin> {CwStart, CwDone, CwPanic}"

text \<open>
  What the closing goroutine \<open>t\<close> has done, or, with \<open>cw_busy\<close> false everywhere, what is
  the case before and after closing.
\<close>

fun cw_stage :: "nat \<Rightarrow> cw_pc \<Rightarrow> cw_state \<Rightarrow> bool" where
  "cw_stage b CwChecked s \<longleftrightarrow> cw_connected s \<and> cw_inbound s = Some b \<and> cw_pool s = [] \<and> cw_onclose s = 0 \<and> cw_shut s = 0"
| "cw_stage b CwCleared s \<longleftrightarrow> \<not> cw_connected s \<and> cw_inbound s = Some b \<and> cw_pool s = [] \<and> cw_onclose s = 0 \<and> cw_shut s = 0"
| "cw_stage b CwNotified s \<longleftrightarrow> \<not> cw_connected s \<and> cw_inbound s = Some b \<and> cw_pool s = [] \<and> cw_onclose s = 1 \<and> cw_shut s = 0"
| "cw_stage b CwShut s \<longleftrightarrow> \<not> cw_connected s \<and> cw_inbound s = Some b \<and> cw_pool s = [] \<and> cw_onclose s = 1 \<and> cw_shut s = 1"
| "cw_stage b CwPut s \<longleftrightarrow> \<not> cw_connected s \<and> cw_inbound s = Some b \<and> cw_pool s = [b] \<and> cw_onclose s = 1 \<and> cw_shut s = 1"
| "cw_stage b _ s \<longleftrightarrow>
     (if cw_connected s then cw_inbound s = Some b \<and> cw_pool s = [] \<and> cw_onclose s = 0 \<and> cw_shut s = 0
      else cw_inbound s = None \<and> cw_pool s = [b] \<and> cw_onclose s = 1 \<and> cw_shut s = 1)"

definition cw_inv :: "nat \<Rightarrow> cw_state \<Rightarrow> bool" where
  "cw_inv b s \<longleftrightarrow>
     (\<exists>t. (\<forall>u. u \<noteq> t \<longrightarrow> \<not> cw_busy (cw_pc s u)) \<and> cw_stage b (cw_pc s t) s) \<and>
     (\<forall>u. cw_pc s u \<noteq> CwPanic)"

lemma cw_stageD:
  "cw_stage b p s \<Longrightarrow> cw_onclose s \<le> 1 \<and> cw_shut s \<le> 1 \<and> (cw_pool s = [] \<or> cw_pool s = [b])"
  by (cases p) (simp_all split: if_splits)

lemma cw_inv_init: "cw_inv b (cw_init b)"
  by (simp add: cw_inv_def cw_init_def cw_busy_def)

lemma cw_inv_step:
  assumes "cw_inv b s" "cw_guarded t s"
  shows "cw_inv b (cw_step t s)"
proof -
  obtain v where v: "\<And>u. u \<noteq> v \<Longrightarrow> \<not> cw_busy (cw_pc s u)" "cw_stage b (cw_pc s v) s" "\<And>u. cw_pc s u \<noteq> CwPanic"
    using assms(1) by (auto simp: cw_inv_def)
  let ?s = "cw_step t s"
  have pc: "cw_pc ?s u = cw_pc s u" if "u \<noteq> t" for u
    using that by (simp add: cw_step_def cw_at_def split: cw_pc.split option.split)
  have panic: "cw_pc ?s t \<noteq> CwPanic"
    using v(2,3) v(1) [of t]
    by (cases "t = v"; cases "cw_pc s t") (auto simp: cw_step_def cw_at_def cw_busy_def)
  consider "t = v" | "t \<noteq> v" "cw_pc s t = CwDone" | "t \<noteq> v" "cw_pc s t = CwStart"
    using v(1) [of t] v(3) [of t] by (auto simp: cw_busy_def)
  then have "\<exists>v'. (\<forall>u. u \<noteq> v' \<longrightarrow> \<not> cw_busy (cw_pc ?s u)) \<and> cw_stage b (cw_pc ?s v') ?s"
  proof cases
    case 1
    have "cw_stage b (cw_pc ?s t) ?s"
      using v(2) v(3) [of t] unfolding 1
      by (cases "cw_pc s v") (auto simp: cw_step_def cw_at_def)
    then show ?thesis using v(1) pc unfolding 1 by (intro exI [of _ v]) simp
  next
    case 2
    then have s: "?s = cw_at t CwStart s" by (simp add: cw_step_def)
    have "cw_stage b (cw_pc s v) ?s" using v(2) unfolding s by (cases "cw_pc s v") (simp_all add: cw_at_def)
    with 2 v(1) pc s show ?thesis by (intro exI [of _ v]) (auto simp: cw_at_def cw_busy_def)
  next
    case 3
    then have nc: "cw_pc s v \<noteq> CwChecked" using assms(2) by (auto simp: cw_guarded_def)
    show ?thesis
    proof (cases "cw_connected s")
      case True
      then have idle: "\<not> cw_busy (cw_pc s v)" using v(2) nc by (cases "cw_pc s v") (simp_all add: cw_busy_def)
      have s: "?s = cw_at t CwChecked s" using 3 True by (simp add: cw_step_def)
      have "cw_stage b CwChecked ?s"
        using True v(2) idle unfolding s by (cases "cw_pc s v") (simp_all add: cw_at_def cw_busy_def)
      moreover have "\<not> cw_busy (cw_pc s u)" for u using v(1) idle by (cases "u = v") simp_all
      ultimately show ?thesis using s by (intro exI [of _ t]) (simp add: cw_at_def)
    next
      case False
      then have s: "?s = cw_at t CwDone s" using 3 by (simp add: cw_step_def)
      have "cw_stage b (cw_pc s v) ?s" using v(2) unfolding s by (cases "cw_pc s v") (simp_all add: cw_at_def)
      with 3 v(1) pc s show ?thesis by (intro exI [of _ v]) (auto simp: cw_at_def cw_busy_def)
    qed
  qed
  moreover have "\<forall>u. cw_pc ?s u \<noteq> CwPanic" using panic pc v(3) by metis
  ultimately show ?thesis by (simp add: cw_inv_def)
qed

lemma cw_inv_run: "cw_inv b s \<Longrightarrow> cw_guarded_run ts s \<Longrightarrow> cw_inv b (cw_run ts s)"
  by (induction ts arbitrary: s) (simp_all add: cw_inv_step)

lemma guarded_close_once:
  assumes "cw_guarded_run ts (cw_init b)" "s = cw_run ts (cw_init b)"
  shows "cw_onclose s \<le> 1 \<and> cw_shut s \<le> 1 \<and> distinct (cw_pool s) \<and> (\<forall>t. cw_pc s t \<noteq> CwPanic) \<and>
    ((\<forall>t. \<not> cw_busy (cw_pc s t)) \<longrightarrow>
      (cw_connected s, cw_inbound s, cw_pool s, cw_onclose s, cw_shut s) \<in>
        {(True, Some b, [], 0, 0), (False, None, [b], 1, 1)})"
proof -
  have inv: "cw_inv b s" unfolding assms(2) by (rule cw_inv_run [OF cw_inv_init assms(1)])
  then obtain t where t: "cw_stage b (cw_pc s t) s" and nopanic: "\<forall>u. cw_pc s u \<noteq> CwPanic"
    by (auto simp: cw_inv_def)
  have "(cw_connected s, cw_inbound s, cw_pool s, cw_onclose s, cw_shut s) \<in>
      {(True, Some b, [], 0, 0), (False, None, [b], 1, 1)}" if "\<forall>t. \<not> cw_busy (cw_pc s t)"
    using t that [rule_format, of t] by (cases "cw_pc s t") (simp_all add: cw_busy_def split: if_splits)
  with cw_stageD [OF t] nopanic show ?thesis by auto
qed

lemma concurrent_close_twice:
  assumes "t \<noteq> u"
  shows "\<exists>ts. set ts \<subseteq> {t, u} \<and> (let s = cw_run ts (cw_init b) in
      cw_onclose s = 2 \<and> cw_pool s = [b, b] \<and> cw_pc s t = CwDone \<and> cw_pc s u = CwDone)"
    and "\<exists>ts. set ts \<subseteq> {t, u} \<and> (let s = cw_run ts (cw_init b) in cw_onclose s = 2 \<and> cw_pc s u = CwPanic)"
proof -
  note eval = cw_step_def cw_at_def cw_init_def numeral_2_eq_2 Let_def
  show "\<exists>ts. set ts \<subseteq> {t, u} \<and> (let s = cw_run ts (cw_init b) in
      cw_onclose s = 2 \<and> cw_pool s = [b, b] \<and> cw_pc s t = CwDone \<and> cw_pc s u = CwDone)"
    using assms by (intro exI [of _ "[t, u, t, u, t, u, t, u, t, u, t, u]"]) (simp add: eval)
  show "\<exists>ts. set ts \<subseteq> {t, u} \<and> (let s = cw_run ts (cw_init b) in cw_onclose s = 2 \<and> cw_pc s u = CwPanic)"
    using assms by (intro exI [of _ "[t, u, t, u, t, u, t, u, t, t, u]"]) (simp add: eval)
qed

text \<open>
  C26. A connection is closed once if no goroutine reads \<open>connected\<close> while another one is
  about to clear it: OnClose and the socket's Close are called at most once, the ring
  buffer is put into the pool at most once, nothing panics, and when no goroutine is
  inside handleClose the connection is either open and untouched or completely closed.
  Nothing in the code ensures this: two goroutines that call handleClose at the same time,
  such as the message loop after a failed read and the idle timer, can both pass the test.
  Then OnClose is called twice and the same ring buffer stands twice in the pool, which
  hands it to two connections; or the second Put dereferences a nil buffer.
\<close>
theorem websocket_close_once_if_guarded:
  assumes "cw_guarded_run ts (cw_init b)" "s = cw_run ts (cw_init b)" "t \<noteq> u"
  shows "(cw_onclose s \<le> 1 \<and> cw_shut s \<le> 1 \<and> distinct (cw_pool s) \<and> (\<forall>t. cw_pc s t \<noteq> CwPanic) \<and>
     ((\<forall>t. \<not> cw_busy (cw_pc s t)) \<longrightarrow>
       (cw_connected s, cw_inbound s, cw_pool s, cw_onclose s, cw_shut s) \<in>
         {(True, Some b, [], 0, 0), (False, None, [b], 1, 1)})) \<and>
    (\<exists>ts. set ts \<subseteq> {t, u} \<and> (let s = cw_run ts (cw_init b) in
       cw_onclose s = 2 \<and> cw_pool s = [b, b] \<and> cw_pc s t = CwDone \<and> cw_pc s u = CwDone)) \<and>
    (\<exists>ts. set ts \<subseteq> {t, u} \<and> (let s = cw_run ts (cw_init b) in cw_onclose s = 2 \<and> cw_pc s u = CwPanic))"
  using guarded_close_once [OF assms(1,2)] concurrent_close_twice [OF assms(3)] by blast

theorem websocket_close_once_if_guarded_witness:
  "let s = cw_run [0, 0, 1, 0, 1, 0, 0, 0] (cw_init 7)
   in cw_onclose s \<le> 1 \<and> cw_shut s \<le> 1 \<and> distinct (cw_pool s)"
proof -
  have "cw_guarded_run [0, 0, 1, 0, 1, 0, 0, 0] (cw_init 7)"
    by (simp add: cw_guarded_def cw_step_def cw_at_def cw_init_def)
  from websocket_close_once_if_guarded [OF this refl, of 0 1] show ?thesis by (simp add: Let_def)
qed

end
