(* ===== verification/Address.thy ===== *)
theory Address
  imports Prelude
begin

text \<open>
  The addresses of server.go: parseAddr, which reads the listening address of the
  options, and sockAddrToString, which prints the peer address of a connection, with
  what they use of the packages strings, strconv and net. A string is a list of
  characters; \<open>ToLower\<close> is the one of ASCII strings, to which the properties are confined.
\<close>

subsection \<open>Package strings\<close>

definition lower_char :: "char \<Rightarrow> char" where
  "lower_char c =
     (if 65 \<le> (of_char c :: nat) \<and> of_char c \<le> (90 :: nat) then char_of (of_char c + 32 :: nat) else c)"

definition ToLower :: "string \<Rightarrow> string" where
  "ToLower s = map lower_char s"

text \<open>The text before and after the first occurrence of a separator.\<close>

fun cut :: "string \<Rightarrow> string \<Rightarrow> (string \<times> string) option" where
  "cut sep [] = (if sep = [] then Some ([], []) else None)"
| "cut sep (c # s) =
     (if take (length sep) (c # s) = sep then Some ([], drop (length sep) (c # s))
      else map_option (\<lambda>(a, b). (c # a, b)) (cut sep s))"

lemma cut_Some: "cut sep s = Some (a, b) \<Longrightarrow> s = a @ sep @ b"
proof (induction sep s arbitrary: a rule: cut.induct)
  case (2 sep c s)
  then show ?case
    by (cases "take (length sep) (c # s) = sep")
       (use append_take_drop_id [of "length sep" "c # s"] in auto)
qed (simp split: if_splits)

definition Contains :: "string \<Rightarrow> string \<Rightarrow> bool" where
  "Contains s sep \<longleftrightarrow> cut sep s \<noteq> None"

text \<open>Split with a separator that is not empty, as the code calls it.\<close>

function Split :: "string \<Rightarrow> string \<Rightarrow> string list" where
  "Split s sep =
     (if sep = [] then [s]
      else (case cut sep s of None \<Rightarrow> [s] | Some (a, b) \<Rightarrow> a # Split b sep))"
  by pat_completeness auto
termination by (relation "measure (length \<circ> fst)") (auto dest!: cut_Some)

declare Split.simps [simp del]

subsection \<open>Package strconv\<close>

definition digit_val :: "char \<Rightarrow> int option" where
  "digit_val c =
     (if 48 \<le> (of_char c :: nat) \<and> of_char c \<le> (57 :: nat) then Some (int (of_char c) - 48) else None)"

datatype num_error = ErrSyntax | ErrRange

text \<open>
  The digit loop of ParseUint for base 10 and 64 bits: it stops at the first character
  that is no digit or makes the number too large, whichever comes first.
\<close>

fun uint_loop :: "string \<Rightarrow> int \<Rightarrow> num_error option \<times> int" where
  "uint_loop [] n = (None, n)"
| "uint_loop (c # s) n =
     (case digit_val c of
        None \<Rightarrow> (Some ErrSyntax, 0)
      | Some d \<Rightarrow>
          if n \<ge> 2 ^ 64 div 10 + 1 then (Some ErrRange, 2 ^ 64 - 1)
          else if n * 10 + d > 2 ^ 64 - 1 then (Some ErrRange, 2 ^ 64 - 1)
          else uint_loop s (n * 10 + d))"

definition ParseUint :: "string \<Rightarrow> num_error option \<times> int" where
  "ParseUint s = (if s = [] then (Some ErrSyntax, 0) else uint_loop s 0)"

text \<open>ParseInt(s, 10, 64): the value that comes with a range error is the nearest bound.\<close>

definition ParseInt :: "string \<Rightarrow> num_error option \<times> int" where
  "ParseInt s =
     (if s = [] then (Some ErrSyntax, 0)
      else (let neg = (hd s = CHR ''-'');
                s' = (if hd s = CHR ''+'' \<or> neg then tl s else s)
            in case ParseUint s' of
                 (Some ErrSyntax, _) \<Rightarrow> (Some ErrSyntax, 0)
               | (_, un) \<Rightarrow>
                   if \<not> neg \<and> un \<ge> 2 ^ 63 then (Some ErrRange, 2 ^ 63 - 1)
                   else if neg \<and> un > 2 ^ 63 then (Some ErrRange, - (2 ^ 63))
                   else (None, if neg then - un else un)))"

text \<open>Itoa: decimal digits without leading zeros, with a sign for negative numbers.\<close>

definition digit_char :: "nat \<Rightarrow> char" where
  "digit_char d = char_of (48 + d)"

fun nat_digits :: "nat \<Rightarrow> string" where
  "nat_digits n =
     (if n < 10 then [digit_char n] else nat_digits (n div 10) @ [digit_char (n mod 10)])"

declare nat_digits.simps [simp del]

definition Itoa :: "int \<Rightarrow> string" where
  "Itoa i = (if i < 0 then CHR ''-'' # nat_digits (nat (- i)) else nat_digits (nat i))"

subsection \<open>parseAddr\<close>

text \<open>
  The network, the address and the port. A port that ParseInt rejects is the value it
  gives with the error; \<open>None\<close> is the index panic when there is no colon after the
  scheme.
\<close>

definition parseAddr :: "string \<Rightarrow> (string \<times> string \<times> int) option" where
  "parseAddr addr =
     (let network = ''tcp'';
          address = ToLower addr
      in if Contains address ''://'' then do {
           let pair = Split address ''://'';
           network \<leftarrow> index_get pair 0;
           address \<leftarrow> index_get pair 1;
           let pair2 = Split address '':'';
           portStr \<leftarrow> index_get pair2 1;
           let portInt64 = snd (ParseInt portStr);
           Some (network, address, portInt64)
         }
         else Some (network, address, 0))"

subsection \<open>sockAddrToString\<close>

text \<open>A peer address as accept returns it; the text of \<open>%T\<close> stands for the other types.\<close>

datatype sockaddr =
    SockaddrInet4 byte byte byte byte int
  | SockaddrInet6 "16 word list" int
  | SockaddrOther string

definition byte_digits :: "byte \<Rightarrow> string" where
  "byte_digits b = nat_digits (unat b)"

definition ipv4_string :: "byte \<Rightarrow> byte \<Rightarrow> byte \<Rightarrow> byte \<Rightarrow> string" where
  "ipv4_string a b c d =
     byte_digits a @ ''.'' @ byte_digits b @ ''.'' @ byte_digits c @ ''.'' @ byte_digits d"

definition hex_char :: "nat \<Rightarrow> char" where
  "hex_char d = (if d < 10 then char_of (48 + d) else char_of (87 + d))"

fun hex_digits :: "nat \<Rightarrow> string" where
  "hex_digits n = (if n < 16 then [hex_char n] else hex_digits (n div 16) @ [hex_char (n mod 16)])"

declare hex_digits.simps [simp del]

text \<open>
  IP.String of 16 bytes, here 8 groups: an IPv4-mapped address is printed as IPv4;
  otherwise the longest run of at least two zero groups, the first of them, becomes
  two colons.
\<close>

fun zero_run :: "16 word list \<Rightarrow> nat" where
  "zero_run [] = 0"
| "zero_run (g # gs) = (if g = 0 then Suc (zero_run gs) else 0)"

fun longest_run :: "nat \<Rightarrow> 16 word list \<Rightarrow> nat \<times> nat \<Rightarrow> nat \<times> nat" where
  "longest_run i [] best = best"
| "longest_run i (g # gs) (at, len) =
     longest_run (Suc i) gs (if zero_run (g # gs) > len then (i, zero_run (g # gs)) else (at, len))"

fun join_groups :: "16 word list \<Rightarrow> string" where
  "join_groups [] = []"
| "join_groups [g] = hex_digits (unat g)"
| "join_groups (g # gs) = hex_digits (unat g) @ '':'' @ join_groups gs"

definition ipv6_string :: "16 word list \<Rightarrow> string" where
  "ipv6_string gs =
     (if take 6 gs = [0, 0, 0, 0, 0, 0xffff]
      then ipv4_string (ucast (drop_bit 8 (gs ! 6))) (ucast (gs ! 6)) (ucast (drop_bit 8 (gs ! 7))) (ucast (gs ! 7))
      else (let (at, len) = longest_run 0 gs (0, 0)
            in if len < 2 then join_groups gs
               else join_groups (take at gs) @ ''::'' @ join_groups (drop (at + len) gs)))"

definition JoinHostPort :: "string \<Rightarrow> string \<Rightarrow> string" where
  "JoinHostPort host port =
     (if CHR '':'' \<in> set host then ''['' @ host @ '']:'' @ port else host @ '':'' @ port)"

definition sockAddrToString :: "sockaddr \<Rightarrow> string" where
  "sockAddrToString sa =
     (case sa of
        SockaddrInet4 a b c d port \<Rightarrow> JoinHostPort (ipv4_string a b c d) (Itoa port)
      | SockaddrInet6 gs port \<Rightarrow> JoinHostPort (ipv6_string gs) (Itoa port)
      | SockaddrOther t \<Rightarrow> ''(unknown - '' @ t @ '')'')"

end
