(* ===== verification/Options.thy ===== *)
theory Options
  imports Main
begin

text \<open>
  options.go: the configuration and its option functions. An option function returns an
  error or nil; New of server.go applies them in order, leaves out nil ones and panics
  with the first error. The default UnPacket is an argument (\<open>default_unPacket\<close> for TCP
  connections, \<open>ws_default_unPacket\<close> for websocket ones); a duration is in nanoseconds.
\<close>

record 'u options =
  opt_Addr :: string
  opt_WSAddr :: string
  opt_SSLOn :: bool
  opt_SSLCertificate :: string
  opt_SSLCertificateKey :: string
  opt_ConnEventLoopNum :: int
  opt_TimingWheelTick :: int
  opt_TimingWheelSize :: int
  opt_ConnIdleTime :: int
  opt_unPacket :: 'u

type_synonym ('e, 'u) option_fn = "'u options \<Rightarrow> 'e option \<times> 'u options"

definition NewOption :: "'u \<Rightarrow> 'u options" where
  "NewOption unPacket =
     \<lparr>opt_Addr = ''tcp://127.0.0.1:6666'', opt_WSAddr = ''0.0.0.0:8030'', opt_SSLOn = False,
      opt_SSLCertificate = '''', opt_SSLCertificateKey = '''', opt_ConnEventLoopNum = 0,
      opt_TimingWheelTick = 10 * 1000000, opt_TimingWheelSize = 1000,
      opt_ConnIdleTime = 70 * 1000000000, opt_unPacket = unPacket\<rparr>"

definition WithAddr :: "string \<Rightarrow> ('e, 'u) option_fn" where
  "WithAddr addr = (\<lambda>opts. (None, opts\<lparr>opt_Addr := addr\<rparr>))"

definition WithWSAddr :: "string \<Rightarrow> ('e, 'u) option_fn" where
  "WithWSAddr wsaddr = (\<lambda>opts. (None, opts\<lparr>opt_WSAddr := wsaddr\<rparr>))"

definition WithUnPacket :: "'u \<Rightarrow> ('e, 'u) option_fn" where
  "WithUnPacket unPacket = (\<lambda>opts. (None, opts\<lparr>opt_unPacket := unPacket\<rparr>))"

definition WithConnIdleTime :: "int \<Rightarrow> ('e, 'u) option_fn" where
  "WithConnIdleTime connIdleTime = (\<lambda>opts. (None, opts\<lparr>opt_ConnIdleTime := connIdleTime\<rparr>))"

definition WithSSLOn :: "bool \<Rightarrow> ('e, 'u) option_fn" where
  "WithSSLOn sslOn = (\<lambda>opts. (None, opts\<lparr>opt_SSLOn := sslOn\<rparr>))"

definition WithSSLCertificate :: "string \<Rightarrow> ('e, 'u) option_fn" where
  "WithSSLCertificate sslCertificate =
     (\<lambda>opts. (None, opts\<lparr>opt_SSLCertificate := sslCertificate\<rparr>))"

definition WithSSLCertificateKey :: "string \<Rightarrow> ('e, 'u) option_fn" where
  "WithSSLCertificateKey sslCertificateKey =
     (\<lambda>opts. (None, opts\<lparr>opt_SSLCertificateKey := sslCertificateKey\<rparr>))"

text \<open>The loop over the options at the start of New; \<open>Inl\<close> is the panic with an error.\<close>

fun apply_options :: "('e, 'u) option_fn option list \<Rightarrow> 'u options \<Rightarrow> 'e + 'u options" where
  "apply_options [] opts = Inr opts"
| "apply_options (None # fs) opts = apply_options fs opts"
| "apply_options (Some f # fs) opts =
     (case f opts of (Some err, _) \<Rightarrow> Inl err | (None, opts') \<Rightarrow> apply_options fs opts')"

lemma apply_options_append:
  "apply_options (fs @ gs) opts =
    (case apply_options fs opts of Inl err \<Rightarrow> Inl err | Inr opts' \<Rightarrow> apply_options gs opts')"
  by (induction fs opts rule: apply_options.induct) (auto split: prod.split option.split)

end
