(* ===== verification/Server.thy ===== *)
theory Server
  imports Ws_Conn Address Options
begin

text \<open>
  server.go, server_tcp.go and server_ws.go: the server that accepts connections and
  spreads them over the connection loops. The state is the listener's event loop
  extended by the poller of that loop, the connection loops with their pollers, the
  counters and the connections. A connection is a pointer in the code: handlers hold its
  number, \<open>sv_conns\<close> maps it to the connection and the index of its loop.

  The answers of the kernel (accept, fcntl, close, socket, bind, listen) are arguments;
  \<open>sv_log\<close> is a history. OnConnect is a function on the whole state that may panic.
\<close>

datatype handler = TheServer | TheConn int

datatype server_job = StopListening

record 'k conn_loop = "(handler, tcp_job) event_loop" +
  cl_poll :: "'k epoll_env"

datatype server_log =
    ConnCreated int int int | OnConnectCalled int | ServerFdClosed int | BindFailed int

record ('b, 'x, 'k) server = "(handler, server_job) event_loop" +
  sv_poll :: "'k epoll_env"
  sv_loops :: "'k conn_loop list"
  sv_nextLoopIndex :: int
  sv_idGen :: "64 word"
  sv_conns :: "int \<Rightarrow> (('b, 'x) tcp_conn \<times> int) option"
  sv_acceptFd :: int
  sv_stopped :: bool
  sv_idleTime :: int
  sv_log :: "server_log list"

definition sv_note :: "server_log \<Rightarrow> ('b, 'x, 'k, 'm) server_scheme \<Rightarrow> ('b, 'x, 'k, 'm) server_scheme" where
  "sv_note l s = s\<lparr>sv_log := sv_log s @ [l]\<rparr>"

subsection \<open>New connections\<close>

text \<open>The number of connection loops: the option, or the number of processors.\<close>

definition loop_count :: "int \<Rightarrow> int \<Rightarrow> int" where
  "loop_count ConnEventLoopNum NumCPU = (if ConnEventLoopNum \<le> 0 then NumCPU else ConnEventLoopNum)"

text \<open>
  A new event loop (eventloop.New) is the poller that Create returned, an empty queue and
  no handlers; its packet buffer has \<open>packetLen\<close> bytes.
\<close>

definition EventLoop_New :: "'e + 'k epoll_env \<Rightarrow> 'e + 'k conn_loop" where
  "EventLoop_New create =
     (case create of
        Inl err \<Rightarrow> Inl err
      | Inr p \<Rightarrow>
          Inr \<lparr>el_jobs = [], el_handlers = (\<lambda>_. None), el_eventHandling = False, el_wakes = 0, cl_poll = p\<rparr>)"

text \<open>Each loop is created in turn; the first that fails panics with its error.\<close>

fun create_loops :: "nat \<Rightarrow> (nat \<Rightarrow> 'e + 'k epoll_env) \<Rightarrow> 'e + 'k conn_loop list" where
  "create_loops 0 create = Inr []"
| "create_loops (Suc i) create =
     (case create_loops i create of
        Inl err \<Rightarrow> Inl err
      | Inr ls \<Rightarrow>
          (case EventLoop_New (create i) of Inl err \<Rightarrow> Inl err | Inr l \<Rightarrow> Inr (ls @ [l])))"

definition initConnectEventLoop ::
  "int \<Rightarrow> int \<Rightarrow> (nat \<Rightarrow> 'e + 'k epoll_env) \<Rightarrow> 'e + 'k conn_loop list" where
  "initConnectEventLoop ConnEventLoopNum NumCPU create =
     create_loops (nat (loop_count ConnEventLoopNum NumCPU)) create"

definition nextLoop ::
  "('b, 'x, 'k, 'm) server_scheme \<Rightarrow> (int \<times> ('b, 'x, 'k, 'm) server_scheme) option" where
  "nextLoop s =
     do {
       loop \<leftarrow> index_get (sv_loops s) (sv_nextLoopIndex s);
       Some (sv_nextLoopIndex s,
         s\<lparr>sv_nextLoopIndex := (sv_nextLoopIndex s + 1) mod int (length (sv_loops s))\<rparr>)
     }"

definition loop_BindHandler ::
  "int \<Rightarrow> handler \<Rightarrow> 'k conn_loop \<Rightarrow> poll_error option \<times> 'k conn_loop" where
  "loop_BindHandler fd h loop =
     (let (e, p) = ep_AddRead fd (cl_poll loop) in BindHandler fd h e (loop\<lparr>cl_poll := p\<rparr>))"

definition handleNewConnection ::
  "(int \<Rightarrow> ('b, 'x, 'k, 'm) server_scheme \<Rightarrow> unit call \<times> ('b, 'x, 'k, 'm) server_scheme) \<Rightarrow>
   ring_buffer \<Rightarrow> ring_buffer \<Rightarrow> int \<Rightarrow> int \<Rightarrow> sockaddr \<Rightarrow>
   ('b, 'x, 'k, 'm) server_scheme \<Rightarrow> unit call \<times> ('b, 'x, 'k, 'm) server_scheme" where
  "handleNewConnection OnConnect rb1 rb2 now connfd sa s =
     (case nextLoop s of
        None \<Rightarrow> (Panics ErrorValue, s)
      | Some (i, s1) \<Rightarrow>
          (let clientID = sint (sv_idGen s1 + 1);
               s2 = s1\<lparr>sv_idGen := sv_idGen s1 + 1\<rparr>;
               conn = NewTCPConn clientID connfd (sockAddrToString sa) rb1 rb2 (sv_idleTime s2) now;
               s3 = sv_note (ConnCreated clientID i connfd)
                      (s2\<lparr>sv_conns := (sv_conns s2)(clientID \<mapsto> (conn, i))\<rparr>)
           in case OnConnect clientID (sv_note (OnConnectCalled clientID) s3) of
                (Panics v, s4) \<Rightarrow> (Panics v, s4)
              | (Returns _, s4) \<Rightarrow>
                  (let (err, loop) = loop_BindHandler connfd (TheConn clientID) (sv_loops s4 ! nat i);
                       s5 = s4\<lparr>sv_loops := (sv_loops s4)[nat i := loop]\<rparr>
                   in (Returns (), if err = None then s5 else sv_note (BindFailed connfd) s5))))"

text \<open>
  Handle on the listening descriptor: the result of accept, and of making the new
  descriptor non-blocking.
\<close>

datatype accept_result = Accepted_fd int sockaddr | AcceptFails nat

definition accept_event ::
  "(int \<Rightarrow> sockaddr \<Rightarrow> ('b, 'x, 'k, 'm) server_scheme \<Rightarrow> unit call \<times> ('b, 'x, 'k, 'm) server_scheme) \<Rightarrow>
   accept_result \<Rightarrow> nat option \<Rightarrow> event \<Rightarrow>
   ('b, 'x, 'k, 'm) server_scheme \<Rightarrow> unit call \<times> ('b, 'x, 'k, 'm) server_scheme" where
  "accept_event newConnection accept nonblock event s =
     (if has_event event EventRead
      then (case accept of
              AcceptFails e \<Rightarrow> (if e \<noteq> EAGAIN then (Panics ErrorValue, s) else (Returns (), s))
            | Accepted_fd connfd sa \<Rightarrow>
                (if nonblock \<noteq> None then (Returns (), sv_note (ServerFdClosed connfd) s)
                 else newConnection connfd sa s))
      else (Returns (), s))"

definition Handle ::
  "(int \<Rightarrow> ('b, 'x, 'k, 'm) server_scheme \<Rightarrow> unit call \<times> ('b, 'x, 'k, 'm) server_scheme) \<Rightarrow>
   accept_result \<Rightarrow> nat option \<Rightarrow> ring_buffer \<Rightarrow> ring_buffer \<Rightarrow> int \<Rightarrow> event \<Rightarrow>
   ('b, 'x, 'k, 'm) server_scheme \<Rightarrow> unit call \<times> ('b, 'x, 'k, 'm) server_scheme" where
  "Handle OnConnect accept nonblock rb1 rb2 now event =
     accept_event (handleNewConnection OnConnect rb1 rb2 now) accept nonblock event"

subsection \<open>Websocket connections\<close>

text \<open>
  server_ws.go: an upgraded request (its peer address; \<open>None\<close> is a failed upgrade, which
  is answered with not found) gets the next identifier of the same counter. Its message
  loop is already running in its own goroutine when OnConnect is called.
\<close>

definition ws_handleNewConnection ::
  "(int \<Rightarrow> ('b, 'x, 'k, 'm) server_scheme \<Rightarrow> unit call \<times> ('b, 'x, 'k, 'm) server_scheme) \<Rightarrow>
   string \<Rightarrow> ring_buffer \<Rightarrow> int \<Rightarrow> ('b, 'x, 'k, 'm) server_scheme \<Rightarrow>
   ('b, 'x) ws_conn \<times> unit call \<times> ('b, 'x, 'k, 'm) server_scheme" where
  "ws_handleNewConnection OnConnect addr rb now s =
     (let clientID = sint (sv_idGen s + 1);
          s1 = s\<lparr>sv_idGen := sv_idGen s + 1\<rparr>
      in (NewWSConn clientID addr rb (sv_idleTime s1) now,
          OnConnect clientID (sv_note (OnConnectCalled clientID) s1)))"

definition ws_server ::
  "(int \<Rightarrow> ('b, 'x, 'k, 'm) server_scheme \<Rightarrow> unit call \<times> ('b, 'x, 'k, 'm) server_scheme) \<Rightarrow>
   string option \<Rightarrow> ring_buffer \<Rightarrow> int \<Rightarrow> ('b, 'x, 'k, 'm) server_scheme \<Rightarrow>
   ('b, 'x) ws_conn option \<times> unit call \<times> ('b, 'x, 'k, 'm) server_scheme" where
  "ws_server OnConnect upgrade rb now s =
     (case upgrade of
        None \<Rightarrow> (None, Returns (), s)
      | Some addr \<Rightarrow>
          (let (c, r) = ws_handleNewConnection OnConnect addr rb now s in (Some c, r)))"

subsection \<open>Listening\<close>

text \<open>
  The results of the system calls that open the listening socket. The address bound is
  all interfaces with the port of the option; \<open>Inl\<close> is a panic, with the calls that
  were made.
\<close>

record listen_results =
  lr_socket :: "nat + int"
  lr_bind :: "nat option"
  lr_listen :: "nat option"
  lr_nonblock :: "nat option"

datatype listen_call = CallSocket | CallBind int sockaddr | CallListen int int | CallNonblock int

definition listen_calls :: "listen_results \<Rightarrow> string \<Rightarrow> listen_call list \<times> int option" where
  "listen_calls r addr =
     (case lr_socket r of
        Inl e \<Rightarrow> ([CallSocket], None)
      | Inr fd \<Rightarrow>
          (case parseAddr addr of
             None \<Rightarrow> ([CallSocket], None)
           | Some (_, _, port) \<Rightarrow>
               (let c1 = [CallSocket, CallBind fd (SockaddrInet4 0 0 0 0 port)]
                in if lr_bind r \<noteq> None then (c1, None)
                   else (let c2 = c1 @ [CallListen fd 100]
                         in if lr_listen r \<noteq> None then (c2, None)
                            else (let c3 = c2 @ [CallNonblock fd]
                                  in if lr_nonblock r \<noteq> None then (c3, None) else (c3, Some fd))))))"

definition initAndAddToLoopListen ::
  "listen_results \<Rightarrow> string \<Rightarrow> ('b, 'x, 'k, 'm) server_scheme \<Rightarrow>
   unit call \<times> ('b, 'x, 'k, 'm) server_scheme" where
  "initAndAddToLoopListen r addr s =
     (let s1 = s\<lparr>sv_acceptFd := (case lr_socket r of Inl _ \<Rightarrow> -1 | Inr fd \<Rightarrow> fd)\<rparr>
      in case listen_calls r addr of
        (_, None) \<Rightarrow> (Panics ErrorValue, s1)
      | (_, Some fd) \<Rightarrow>
          (let (e, p) = ep_AddRead fd (sv_poll s1);
               (err, s2) = BindHandler fd TheServer e (s1\<lparr>sv_poll := p\<rparr>)
           in (if err = None then Returns () else Panics ErrorValue, s2)))"

subsection \<open>Stopping\<close>

definition TCPServer_Stop ::
  "('b, 'x, 'k, 'm) server_scheme \<Rightarrow> ('b, 'x, 'k, 'm) server_scheme" where
  "TCPServer_Stop s = Trigger StopListening s"

text \<open>
  The job of Stop, with the result of closing the listening descriptor. Closing the
  channel a second time panics.
\<close>

definition stop_exec ::
  "nat option \<Rightarrow> server_job \<Rightarrow> ('b, 'x, 'k, 'm) server_scheme \<Rightarrow> outcome \<times> ('b, 'x, 'k, 'm) server_scheme" where
  "stop_exec close job s =
     (case job of
        StopListening \<Rightarrow>
          (let (_, p) = ep_Del (sv_acceptFd s) (sv_poll s);
               s1 = DeleteFdInLoop (sv_acceptFd s) (s\<lparr>sv_poll := p\<rparr>)
           in if close \<noteq> None then (Failed, s1)
              else (let s2 = sv_note (ServerFdClosed (sv_acceptFd s)) s1
                    in if sv_stopped s2 then (Panicked ErrorValue, s2)
                       else (Returned, s2\<lparr>sv_stopped := True\<rparr>))))"

definition server_handle ::
  "(int \<Rightarrow> ('b, 'x, 'k, 'm) server_scheme \<Rightarrow> unit call \<times> ('b, 'x, 'k, 'm) server_scheme) \<Rightarrow>
   accept_result \<Rightarrow> nat option \<Rightarrow> ring_buffer \<Rightarrow> ring_buffer \<Rightarrow> int \<Rightarrow>
   handler \<Rightarrow> int \<Rightarrow> event \<Rightarrow> ('b, 'x, 'k, 'm) server_scheme \<Rightarrow> outcome \<times> ('b, 'x, 'k, 'm) server_scheme" where
  "server_handle OnConnect accept nonblock rb1 rb2 now h fd event s =
     (case Handle OnConnect accept nonblock rb1 rb2 now event s of
        (Panics v, s') \<Rightarrow> (Panicked v, s')
      | (Returns _, s') \<Rightarrow> (Returned, s'))"

text \<open>
  Stopping an event loop (EventLoop.Stop and Poller.Close) as the caller sees it, when the
  loop runs in another goroutine: \<open>running\<close> is cleared, the loop is woken and waited for;
  it handles the wake-up and ends. The only handler of the listener loop is the server,
  whose Close does nothing.
\<close>

definition listener_loop_Stop ::
  "(handler \<Rightarrow> int \<Rightarrow> event \<Rightarrow> ('b, 'x, 'k, 'm) server_scheme \<Rightarrow> outcome \<times> ('b, 'x, 'k, 'm) server_scheme) \<Rightarrow>
   (server_job \<Rightarrow> ('b, 'x, 'k, 'm) server_scheme \<Rightarrow> outcome \<times> ('b, 'x, 'k, 'm) server_scheme) \<Rightarrow>
   bool \<Rightarrow> ('b, 'x, 'k, 'm) server_scheme \<Rightarrow> poll_error option \<times> ('b, 'x, 'k, 'm) server_scheme" where
  "listener_loop_Stop handle exec running s =
     (if \<not> running then (Some ErrClosed, s) else (None, snd (handleEvent handle exec (-1) 0 (Wake s))))"

datatype 'e stop_result = StopReturns "'e option" | StopWaits | StopPanics panic_value

text \<open>
  LIMNet.Stop: how the websocket server's Stop and stopping the loops end are
  arguments; a panic or an error of the first two ends Stop early, those of the connection loops
  are logged. The end is the wait for the channel that the listener's job closes.
\<close>

definition LIMNet_Stop ::
  "'e option call \<Rightarrow> (('b, 'x, 'k, 'm) server_scheme \<Rightarrow> 'e option \<times> ('b, 'x, 'k, 'm) server_scheme) \<Rightarrow>
   (nat \<Rightarrow> ('b, 'x, 'k, 'm) server_scheme \<Rightarrow> 'e option \<times> ('b, 'x, 'k, 'm) server_scheme) \<Rightarrow>
   ('b, 'x, 'k, 'm) server_scheme \<Rightarrow> 'e stop_result \<times> ('b, 'x, 'k, 'm) server_scheme" where
  "LIMNet_Stop wsStop stopListener stopLoop s =
     (let s1 = TCPServer_Stop s
      in case wsStop of
           Panics v \<Rightarrow> (StopPanics v, s1)
         | Returns (Some err) \<Rightarrow> (StopReturns (Some err), s1)
         | Returns None \<Rightarrow>
             (case stopListener s1 of
                (Some err, s2) \<Rightarrow> (StopReturns (Some err), s2)
              | (None, s2) \<Rightarrow>
                  (let s3 = fold (\<lambda>k s. snd (stopLoop k s)) [0..<length (sv_loops s2)] s2
                   in if sv_stopped s3 then (StopReturns None, s3) else (StopWaits, s3))))"

end
