(* ===== verification/Server_Props.thy ===== *)
theory Server_Props
  imports Server Tcp_Props
begin

text \<open>
  Properties of the server: the round robin over the connection loops, the registration
  of an accepted connection, and stopping the listener.
\<close>

subsection \<open>Which loop a connection gets\<close>

fun created :: "server_log list \<Rightarrow> (int \<times> int \<times> int) list" where
  "created [] = []"
| "created (ConnCreated id' i fd # ls) = (id', i, fd) # created ls"
| "created (_ # ls) = created ls"

lemma created_append [simp]: "created (ls @ ms) = created ls @ created ms"
  by (induction ls rule: created.induct) simp_all

text \<open>
  OnConnect returns, and leaves the server's counters alone; it may call the methods of
  connections, which change the loops' queues and pollers.
\<close>

definition keeps_server ::
  "(int \<Rightarrow> ('b, 'x, 'k, 'm) server_scheme \<Rightarrow> unit call \<times> ('b, 'x, 'k, 'm) server_scheme) \<Rightarrow> bool" where
  "keeps_server OnConnect \<longleftrightarrow>
     (\<forall>i s. \<exists>s'. OnConnect i s = (Returns (), s') \<and> length (sv_loops s') = length (sv_loops s) \<and>
        sv_nextLoopIndex s' = sv_nextLoopIndex s \<and> sv_idGen s' = sv_idGen s \<and>
        created (sv_log s') = created (sv_log s))"

definition server_ok :: "('b, 'x, 'k, 'm) server_scheme \<Rightarrow> bool" where
  "server_ok s \<longleftrightarrow> 0 \<le> sv_nextLoopIndex s \<and> sv_nextLoopIndex s < int (length (sv_loops s))"

lemma nextLoop_ok:
  assumes "server_ok s"
  shows "nextLoop s = Some (sv_nextLoopIndex s,
    s\<lparr>sv_nextLoopIndex := (sv_nextLoopIndex s + 1) mod int (length (sv_loops s))\<rparr>)"
  using assms by (simp add: nextLoop_def server_ok_def index_get_def)

lemma handleNewConnection_ok:
  assumes "keeps_server OnConnect" "server_ok s"
  obtains s' where
    "handleNewConnection OnConnect rb1 rb2 now connfd sa s = (Returns (), s')"
    "length (sv_loops s') = length (sv_loops s)" "sv_idGen s' = sv_idGen s + 1" "server_ok s'"
    "sv_nextLoopIndex s' = (sv_nextLoopIndex s + 1) mod int (length (sv_loops s))"
    "created (sv_log s') = created (sv_log s) @ [(sint (sv_idGen s + 1), sv_nextLoopIndex s, connfd)]"
proof -
  let ?id = "sint (sv_idGen s + 1)"
  let ?conn = "NewTCPConn ?id connfd (sockAddrToString sa) rb1 rb2 (sv_idleTime s) now"
  let ?s1 = "s\<lparr>sv_nextLoopIndex := (sv_nextLoopIndex s + 1) mod int (length (sv_loops s)),
      sv_idGen := sv_idGen s + 1\<rparr>"
  let ?s3 = "sv_note (OnConnectCalled ?id) (sv_note (ConnCreated ?id (sv_nextLoopIndex s) connfd)
      (?s1\<lparr>sv_conns := (sv_conns s)(?id \<mapsto> (?conn, sv_nextLoopIndex s))\<rparr>))"
  obtain s4 where s4: "OnConnect ?id ?s3 = (Returns (), s4)" "length (sv_loops s4) = length (sv_loops ?s3)"
    "sv_nextLoopIndex s4 = sv_nextLoopIndex ?s3" "sv_idGen s4 = sv_idGen ?s3"
    "created (sv_log s4) = created (sv_log ?s3)"
    using assms(1) unfolding keeps_server_def by metis
  obtain err loop where bind:
    "loop_BindHandler connfd (TheConn ?id) (sv_loops s4 ! nat (sv_nextLoopIndex s)) = (err, loop)"
    by fastforce
  let ?s5 = "s4\<lparr>sv_loops := (sv_loops s4)[nat (sv_nextLoopIndex s) := loop]\<rparr>"
  let ?s6 = "if err = None then ?s5 else sv_note (BindFailed connfd) ?s5"
  have "handleNewConnection OnConnect rb1 rb2 now connfd sa s =
      (Returns (), ?s6)"
    using s4(1) bind by (simp add: handleNewConnection_def nextLoop_ok [OF assms(2)] Let_def)
  moreover have "0 < int (length (sv_loops s))" using assms(2) by (auto simp: server_ok_def)
  ultimately show thesis using s4(2-5) assms(2)
    by (intro that [of ?s6]) (auto simp: sv_note_def server_ok_def)
qed

text \<open>A sequence of events of the listening descriptor, each with the answers of the kernel.\<close>

fun serve ::
  "(int \<Rightarrow> ('b, 'x, 'k, 'm) server_scheme \<Rightarrow> unit call \<times> ('b, 'x, 'k, 'm) server_scheme) \<Rightarrow>
   ring_buffer \<Rightarrow> ring_buffer \<Rightarrow> int \<Rightarrow> (accept_result \<times> nat option \<times> event) list \<Rightarrow>
   ('b, 'x, 'k, 'm) server_scheme \<Rightarrow> unit call \<times> ('b, 'x, 'k, 'm) server_scheme" where
  "serve OnConnect rb1 rb2 now [] s = (Returns (), s)"
| "serve OnConnect rb1 rb2 now ((accept, nonblock, event) # es) s =
     (case Handle OnConnect accept nonblock rb1 rb2 now event s of
        (Panics v, s') \<Rightarrow> (Panics v, s')
      | (Returns _, s') \<Rightarrow> serve OnConnect rb1 rb2 now es s')"

text \<open>The descriptors that become connections.\<close>

fun accepted :: "(accept_result \<times> nat option \<times> event) list \<Rightarrow> int list" where
  "accepted [] = []"
| "accepted ((accept, nonblock, event) # es) =
     (case accept of
        Accepted_fd fd sa \<Rightarrow>
          (if nonblock = None \<and> has_event event EventRead then fd # accepted es else accepted es)
      | AcceptFails e \<Rightarrow> accepted es)"

definition no_accept_failure :: "(accept_result \<times> nat option \<times> event) list \<Rightarrow> bool" where
  "no_accept_failure es \<longleftrightarrow> (\<forall>(accept, _, _) \<in> set es. \<forall>e. accept = AcceptFails e \<longrightarrow> e = EAGAIN)"

definition assignment :: "64 word \<Rightarrow> int \<Rightarrow> nat \<Rightarrow> int list \<Rightarrow> (int \<times> int \<times> int) list" where
  "assignment g i n fds =
     map (\<lambda>k. (sint (g + 1 + of_nat k), (i + int k) mod int n, fds ! k)) [0..<length fds]"

lemma assignment_Cons:
  assumes "0 \<le> i" "i < int n"
  shows "assignment g i n (fd # fds) = (sint (g + 1), i, fd) # assignment (g + 1) ((i + 1) mod int n) n fds"
  using assms
  by (simp add: assignment_def upt_conv_Cons map_Suc_upt [symmetric] mod_simps ac_simps del: upt_Suc)

lemma serve_round_robin:
  assumes "keeps_server OnConnect" "server_ok s" "no_accept_failure es"
  shows "\<exists>s'. serve OnConnect rb1 rb2 now es s = (Returns (), s') \<and> server_ok s' \<and>
    length (sv_loops s') = length (sv_loops s) \<and>
    created (sv_log s') = created (sv_log s) @
      assignment (sv_idGen s) (sv_nextLoopIndex s) (length (sv_loops s)) (accepted es)"
  using assms(2,3)
proof (induction es arbitrary: s)
  case Nil
  then show ?case by (simp add: assignment_def)
next
  case (Cons e es)
  obtain accept nonblock event where e: "e = (accept, nonblock, event)" by (cases e)
  have rest: "no_accept_failure es" using Cons.prems(2) by (simp add: no_accept_failure_def)
  have noted: "server_ok (sv_note (ServerFdClosed fd) s) = server_ok s" for fd
    by (simp add: sv_note_def server_ok_def)
  show ?case
  proof (cases accept)
    case (Accepted_fd fd sa)
    show ?thesis
    proof (cases "nonblock = None \<and> has_event event EventRead")
      case True
      obtain s' where s': "handleNewConnection OnConnect rb1 rb2 now fd sa s = (Returns (), s')"
        "length (sv_loops s') = length (sv_loops s)" "sv_idGen s' = sv_idGen s + 1" "server_ok s'"
        "sv_nextLoopIndex s' = (sv_nextLoopIndex s + 1) mod int (length (sv_loops s))"
        "created (sv_log s') = created (sv_log s) @ [(sint (sv_idGen s + 1), sv_nextLoopIndex s, fd)]"
        by (rule handleNewConnection_ok [OF assms(1) Cons.prems(1)])
      from Cons.IH [OF s'(4) rest] True s' Cons.prems(1) e Accepted_fd show ?thesis
        by (simp add: Handle_def accept_event_def assignment_Cons server_ok_def)
    next
      case False
      with Cons.IH [of s] Cons.IH [of "sv_note (ServerFdClosed fd) s"] Cons.prems(1) rest e Accepted_fd show ?thesis
        by (auto simp: Handle_def accept_event_def noted) (auto simp: sv_note_def)
    qed
  next
    case (AcceptFails n)
    with Cons e show ?thesis by (auto simp: Handle_def accept_event_def no_accept_failure_def)
  qed
qed

text \<open>Every loop gets each n-th connection.\<close>

lemma mod_shift:
  assumes "j < n"
  shows "(i + int k) mod int n = int j \<longleftrightarrow> k mod n = nat ((int j - i) mod int n)"
proof -
  have n: "0 < int n" using assms by simp
  have "(i + int k) mod int n = int j \<longleftrightarrow> (i + int k) mod int n = int j mod int n"
    using assms by simp
  also have "\<dots> \<longleftrightarrow> int n dvd (int k - (int j - i))"
    by (simp add: mod_eq_dvd_iff algebra_simps)
  also have "\<dots> \<longleftrightarrow> int (k mod n) = (int j - i) mod int n"
    by (simp add: mod_eq_dvd_iff [symmetric] zmod_int)
  also have "\<dots> \<longleftrightarrow> k mod n = nat ((int j - i) mod int n)"
    using pos_mod_sign [OF n, of "int j - i"] by auto
  finally show ?thesis .
qed

lemma residue_count:
  assumes "r < n"
  shows "length (filter (\<lambda>k. k mod n = r) [0..<m]) = (m + (n - 1 - r)) div n"
proof (induction m)
  case 0
  then show ?case using assms by simp
next
  case (Suc m)
  have "Suc (m + (n - 1 - r)) mod n = 0 \<longleftrightarrow> m mod n = r"
  proof -
    have "Suc (m + (n - 1 - r)) mod n = (m + (n - r)) mod n" using assms by (simp add: Suc_diff_Suc)
    also have "\<dots> = 0 \<longleftrightarrow> (m + (n - r) + r) mod n = r mod n"
      using mod_eq_dvd_iff_nat [of r "m + (n - r) + r" n] by (simp add: mod_eq_0_iff_dvd)
    finally show ?thesis using assms by simp
  qed
  with Suc show ?case by (simp add: div_Suc)
qed

definition loop_load :: "(int \<times> int \<times> int) list \<Rightarrow> nat \<Rightarrow> nat" where
  "loop_load cs j = length (filter (\<lambda>(_, i, _). i = int j) cs)"

lemma assignment_load:
  assumes "j < n"
  shows "length fds div n \<le> loop_load (assignment g i n fds) j \<and>
    loop_load (assignment g i n fds) j \<le> length fds div n + 1"
proof -
  let ?r = "nat ((int j - i) mod int n)"
  have r: "?r < n" using pos_mod_bound [of "int n" "int j - i"] assms by linarith
  have "loop_load (assignment g i n fds) j = length (filter (\<lambda>k. k mod n = ?r) [0..<length fds])"
    by (simp add: loop_load_def assignment_def filter_map comp_def mod_shift [OF assms])
  also have "\<dots> = (length fds + (n - 1 - ?r)) div n" by (rule residue_count [OF r])
  finally have eq: "loop_load (assignment g i n fds) j = (length fds + (n - 1 - ?r)) div n" .
  have "(length fds + (n - 1 - ?r)) div n \<le> (length fds + n) div n" by (rule div_le_mono) simp
  also have "\<dots> = length fds div n + 1" using assms by (simp add: div_add_self2)
  finally show ?thesis unfolding eq using div_le_mono [of "length fds" "length fds + (n - 1 - ?r)" n] by simp
qed

lemma assignment_ids:
  assumes "length fds \<le> 2 ^ 64"
  shows "distinct (map fst (assignment g i n fds))"
proof -
  have "inj_on (\<lambda>k. sint (g + 1 + of_nat k :: 64 word)) (set [0..<length fds])"
  proof (rule inj_onI)
    fix k l assume kl: "k \<in> set [0..<length fds]" "l \<in> set [0..<length fds]"
      and "sint (g + 1 + of_nat k :: 64 word) = sint (g + 1 + of_nat l :: 64 word)"
    then have "(of_nat k :: 64 word) = of_nat l" by (auto dest: signed_word_eqI)
    then have "take_bit 64 k = take_bit 64 l" by (simp add: word_of_nat_eq_iff)
    then show "k = l" using kl assms by (simp add: take_bit_nat_eq_self)
  qed
  then show ?thesis by (simp add: assignment_def distinct_map comp_def)
qed

text \<open>
  C9. Connections are spread evenly: whatever the kernel answers to accept, short of an
  error that panics, every accepted descriptor becomes one connection, in order, with an
  identifier of its own (for up to 2^64 connections), and of m connections over n loops
  every loop gets m div n or one more.
\<close>
theorem round_robin_fair:
  assumes "keeps_server OnConnect" "server_ok s" "no_accept_failure es" "sv_log s = []"
    and "n = length (sv_loops s)" "m = length (accepted es)" "m \<le> 2 ^ 64"
  shows "\<exists>s'. serve OnConnect rb1 rb2 now es s = (Returns (), s') \<and> server_ok s' \<and>
    map (snd \<circ> snd) (created (sv_log s')) = accepted es \<and>
    distinct (map fst (created (sv_log s'))) \<and>
    (\<forall>j < n. m div n \<le> loop_load (created (sv_log s')) j \<and> loop_load (created (sv_log s')) j \<le> m div n + 1)"
proof -
  obtain s' where s': "serve OnConnect rb1 rb2 now es s = (Returns (), s')" "server_ok s'"
    "created (sv_log s') = assignment (sv_idGen s) (sv_nextLoopIndex s) n (accepted es)"
    using serve_round_robin [OF assms(1-3), of rb1 rb2 now] assms(4,5) by auto
  have "map (snd \<circ> snd) (created (sv_log s')) = accepted es"
    unfolding s'(3) by (simp add: assignment_def comp_def map_nth)
  with s' assignment_ids assignment_load assms(6,7) show ?thesis by auto
qed

definition quiet ::
  "int \<Rightarrow> ('b, 'x, 'k, 'm) server_scheme \<Rightarrow> unit call \<times> ('b, 'x, 'k, 'm) server_scheme" where
  "quiet i s = (Returns (), s)"

definition server_example :: "nat \<Rightarrow> (bytes, unit, int \<Rightarrow> 32 word option) server" where
  "server_example n =
     \<lparr>el_jobs = [], el_handlers = [3 \<mapsto> TheServer], el_eventHandling = False, el_wakes = 0,
      sv_poll = snd (ep_AddRead 3 ep_example),
      sv_loops = replicate n
        \<lparr>el_jobs = [], el_handlers = (\<lambda>_. None), el_eventHandling = False, el_wakes = 0, cl_poll = ep_example\<rparr>,
      sv_nextLoopIndex = 0, sv_idGen = 0, sv_conns = (\<lambda>_. None), sv_acceptFd = 3, sv_stopped = False,
      sv_idleTime = 0, sv_log = []\<rparr>"

lemma server_example: "0 < n \<Longrightarrow> server_ok (server_example n)" "sv_log (server_example n) = []"
  "length (sv_loops (server_example n)) = n"
  by (simp_all add: server_example_def server_ok_def)

theorem round_robin_fair_witness:
  "\<exists>s'. serve quiet ring8 ring8 0
      [(Accepted_fd 5 (SockaddrInet4 10 0 0 1 4000), None, EventRead), (AcceptFails 11, None, EventRead),
       (Accepted_fd 6 (SockaddrInet4 10 0 0 1 4001), Some 9, EventRead),
       (Accepted_fd 7 (SockaddrInet4 10 0 0 2 4000), None, EventRead),
       (Accepted_fd 8 (SockaddrInet4 10 0 0 3 4000), None, EventRead)] (server_example 2) = (Returns (), s') \<and>
    map (snd \<circ> snd) (created (sv_log s')) = [5, 7, 8] \<and> 1 \<le> loop_load (created (sv_log s')) 1"
proof -
  let ?es = "[(Accepted_fd 5 (SockaddrInet4 10 0 0 1 4000), None, EventRead), (AcceptFails 11, None, EventRead),
       (Accepted_fd 6 (SockaddrInet4 10 0 0 1 4001), Some 9, EventRead),
       (Accepted_fd 7 (SockaddrInet4 10 0 0 2 4000), None, EventRead),
       (Accepted_fd 8 (SockaddrInet4 10 0 0 3 4000), None, EventRead)]"
  have "keeps_server quiet" by (simp add: keeps_server_def quiet_def)
  moreover have "no_accept_failure ?es" by (simp add: no_accept_failure_def EAGAIN_def)
  moreover have "accepted ?es = [5, 7, 8]" by (simp add: has_event_def EventRead_def)
  ultimately show ?thesis
    using round_robin_fair [of quiet "server_example 2" ?es 2 3 ring8 ring8 0] server_example [of 2] by force
qed

subsection \<open>Registering a connection\<close>

definition keeps_loops ::
  "(int \<Rightarrow> ('b, 'x, 'k, 'm) server_scheme \<Rightarrow> unit call \<times> ('b, 'x, 'k, 'm) server_scheme) \<Rightarrow> bool" where
  "keeps_loops OnConnect \<longleftrightarrow>
     (\<forall>i s. \<exists>s'. OnConnect i s = (Returns (), s') \<and> sv_loops s' = sv_loops s \<and>
        sv_conns s' = sv_conns s \<and> sv_log s' = sv_log s)"

text \<open>
  C22. An accepted descriptor is registered with the loop that was chosen, for reading, and
  its events go to the new connection; no other loop changes. If the poller rejects it,
  the connection was announced to OnConnect all the same and stays open and stored, but no
  event reaches it, its descriptor is never closed and OnClose is not called.
\<close>
theorem connection_registered:
  assumes "keeps_loops OnConnect" "server_ok s" "i = nat (sv_nextLoopIndex s)"
    and "poll = cl_poll (sv_loops s ! i)" "epoll_ctl_documented poll" "ee_interest poll (ee_kernel poll) fd = None"
    and "ep_AddRead fd poll = (e, poll')" "cid = sint (sv_idGen s + 1)"
  shows "\<exists>s'. handleNewConnection OnConnect rb1 rb2 now fd sa s = (Returns (), s') \<and>
    (let loop = sv_loops s' ! i in
       sv_conns s' cid = Some (NewTCPConn cid fd (sockAddrToString sa) rb1 rb2 (sv_idleTime s) now, sv_nextLoopIndex s) \<and>
       (\<forall>j. j \<noteq> i \<longrightarrow> sv_loops s' ! j = sv_loops s ! j) \<and>
       (e = None \<longrightarrow> el_handlers loop fd = Some (TheConn cid) \<and> ep_rd (cl_poll loop) fd \<and> \<not> ep_wr (cl_poll loop) fd) \<and>
       (e \<noteq> None \<longrightarrow> el_handlers loop fd = None \<and> \<not> ep_rd (cl_poll loop) fd \<and>
          sv_log s' = sv_log s @ [ConnCreated cid (sv_nextLoopIndex s) fd, OnConnectCalled cid, BindFailed fd]))"
proof -
  let ?conn = "NewTCPConn cid fd (sockAddrToString sa) rb1 rb2 (sv_idleTime s) now"
  let ?s3 = "sv_note (OnConnectCalled cid) (sv_note (ConnCreated cid (sv_nextLoopIndex s) fd)
      (s\<lparr>sv_nextLoopIndex := (sv_nextLoopIndex s + 1) mod int (length (sv_loops s)),
         sv_idGen := sv_idGen s + 1, sv_conns := (sv_conns s)(cid \<mapsto> (?conn, sv_nextLoopIndex s))\<rparr>))"
  obtain s4 where s4: "OnConnect cid ?s3 = (Returns (), s4)" "sv_loops s4 = sv_loops ?s3"
    "sv_conns s4 = sv_conns ?s3" "sv_log s4 = sv_log ?s3"
    using assms(1) unfolding keeps_loops_def by metis
  have i: "i < length (sv_loops s)" using assms(2,3) by (auto simp: server_ok_def)
  have loops: "sv_loops s4 ! i = sv_loops s ! i" "length (sv_loops s4) = length (sv_loops s)"
    using s4(2) by (simp_all add: sv_note_def)
  define loop where "loop = snd (loop_BindHandler fd (TheConn cid) (sv_loops s ! i))"
  have bind: "loop_BindHandler fd (TheConn cid) (sv_loops s ! i) = (e, loop)" "cl_poll loop = poll'"
    "el_handlers loop fd = (if e = None then Some (TheConn cid) else None)"
    using assms(4,7) by (auto simp: loop_def loop_BindHandler_def BindHandler_def Let_def split: option.split)
  let ?s5 = "s4\<lparr>sv_loops := (sv_loops s4)[i := loop]\<rparr>"
  have run: "handleNewConnection OnConnect rb1 rb2 now fd sa s =
      (Returns (), if e = None then ?s5 else sv_note (BindFailed fd) ?s5)"
    using s4(1) bind(1) loops(1) assms(3,8) by (simp add: handleNewConnection_def nextLoop_ok [OF assms(2)] Let_def)
  have "\<not> ep_rd poll fd" "\<not> ep_wr poll fd" using assms(6) by (simp_all add: ep_rd_def ep_wr_def)
  then have polled: "ep_rd poll' fd = (e = None)" "\<not> ep_wr poll' fd"
    using ep.add_rd [OF assms(5)] ep.add_wr [OF assms(5)] ep_failed [OF assms(5)] assms(7)
    by (cases e; auto simp: ep_AddRead_def ep_add_def)+
  show ?thesis unfolding run
    using i bind polled s4(2-4) loops by (simp add: sv_note_def Let_def)
qed

theorem connection_registered_witness:
  "\<exists>s'. handleNewConnection quiet ring8 ring8 0 5 (SockaddrInet4 10 0 0 1 4000) (server_example 2) = (Returns (), s') \<and>
    el_handlers (sv_loops s' ! 0) 5 = Some (TheConn 1) \<and> ep_rd (cl_poll (sv_loops s' ! 0)) 5"
proof -
  have "keeps_loops quiet" by (simp add: keeps_loops_def quiet_def)
  moreover have "cl_poll (sv_loops (server_example 2) ! 0) = ep_example" "sv_idGen (server_example 2) = 0"
    "sv_nextLoopIndex (server_example 2) = 0"
    by (simp_all add: server_example_def)
  moreover have "ee_interest ep_example (ee_kernel ep_example) 5 = None" "fst (ep_AddRead 5 ep_example) = None"
    by (simp_all add: ep_example_def ep_ops ep_ctl_def)
  ultimately show ?thesis
    using connection_registered [of quiet "server_example 2" 0 ep_example 5 None "snd (ep_AddRead 5 ep_example)" 1
        ring8 ring8 0 "SockaddrInet4 10 0 0 1 4000"] ep_example_documented server_example(1) [of 2]
    by (auto simp: prod_eq_iff Let_def)
qed

subsection \<open>Stopping the listener\<close>

definition keeps_stopped :: "(nat \<Rightarrow> ('b, 'x, 'k, 'm) server_scheme \<Rightarrow> 'e option \<times> ('b, 'x, 'k, 'm) server_scheme) \<Rightarrow> bool" where
  "keeps_stopped stopLoop \<longleftrightarrow> (\<forall>k s. sv_stopped (snd (stopLoop k s)) = sv_stopped s)"

lemma keeps_stopped_fold:
  "keeps_stopped stopLoop \<Longrightarrow> sv_stopped (fold (\<lambda>k s. snd (stopLoop k s)) ks s) = sv_stopped s"
  by (induction ks arbitrary: s) (simp_all add: keeps_stopped_def)

lemma stop_job:
  assumes "epoll_ctl_documented (sv_poll s)" "el_jobs s = [StopListening]" "\<not> sv_stopped s"
  shows "\<exists>s'. handleEvent handle (stop_exec close) (-1) 0 s = (True, s') \<and> el_handlers s' (sv_acceptFd s) = None \<and>
    \<not> ep_rd (sv_poll s') (sv_acceptFd s) \<and> el_jobs s' = [] \<and> sv_stopped s' = (close = None)"
proof -
  obtain e' p where del: "ep_Del (sv_acceptFd s) (sv_poll s) = (e', p)" by fastforce
  show ?thesis
    using assms(2,3) del ep_Del_unwatched(1) [OF assms(1) del]
    by (simp add: handleEvent_def ExecuteJobs_def stop_exec_def Let_def DeleteFdInLoop_def sv_note_def)
qed

text \<open>
  C29. Stopping the server: Stop's job, run when the listener loop is woken to end, takes
  the listening descriptor out of the poller and the loop, closes it and ends the wait of
  Stop; if closing fails Stop waits for ever. An error of the websocket server's Stop
  returns at once and leaves the loop to run. After an accept error other than EAGAIN,
  whose panic the loop recovers, Stop's job does not wake the loop: the flag stays set.
\<close>
theorem listener_stops:
  assumes "epoll_ctl_documented (sv_poll s)" "el_jobs s = []" "\<not> sv_stopped s"
    and "el_handlers s (sv_acceptFd s) = Some TheServer" "sv_acceptFd s \<noteq> -1" "e \<noteq> EAGAIN"
    and "s1 = snd (handleEvent (server_handle OnConnect (AcceptFails e) None rb1 rb2 now) (stop_exec close)
      (sv_acceptFd s) EventRead s)"
    and "keeps_stopped stopLoop"
  shows "(\<exists>s'. LIMNet_Stop (Returns None) (listener_loop_Stop handle (stop_exec close) True) stopLoop s =
      (if close = None then StopReturns None else StopWaits, s') \<and> sv_stopped s' = (close = None)) \<and>
    LIMNet_Stop (Returns (Some err)) stopListener stopLoop s = (StopReturns (Some err), TCPServer_Stop s) \<and>
    s1 = s\<lparr>el_eventHandling := True\<rparr> \<and> el_wakes (TCPServer_Stop s1) = el_wakes s"
proof (intro conjI)
  let ?s = "Wake (TCPServer_Stop s)"
  have "epoll_ctl_documented (sv_poll ?s)" "el_jobs ?s = [StopListening]" "\<not> sv_stopped ?s"
    using assms(1-3) by (simp_all add: TCPServer_Stop_def Wake_def Trigger_def Push_def Let_def)
  from stop_job [OF this, of handle close] obtain s2 where
    "handleEvent handle (stop_exec close) (-1) 0 ?s = (True, s2)" "sv_stopped s2 = (close = None)"
    by blast
  with keeps_stopped_fold [OF assms(8), of "[0..<length (sv_loops s2)]" s2]
  show "\<exists>s'. LIMNet_Stop (Returns None) (listener_loop_Stop handle (stop_exec close) True) stopLoop s =
      (if close = None then StopReturns None else StopWaits, s') \<and> sv_stopped s' = (close = None)"
    by (cases close) (simp_all add: LIMNet_Stop_def listener_loop_Stop_def Let_def)
  show "LIMNet_Stop (Returns (Some err)) stopListener stopLoop s = (StopReturns (Some err), TCPServer_Stop s)"
    by (simp add: LIMNet_Stop_def)
  have "has_event EventRead EventRead" by (simp add: has_event_def EventRead_def)
  then show s1: "s1 = s\<lparr>el_eventHandling := True\<rparr>"
    using assms(4-7) by (simp add: handleEvent_def server_handle_def Handle_def accept_event_def)
  show "el_wakes (TCPServer_Stop s1) = el_wakes s"
    unfolding s1 TCPServer_Stop_def by simp
qed

theorem listener_stops_witness:
  "\<exists>s'. LIMNet_Stop (Returns None) (listener_loop_Stop (server_handle quiet (AcceptFails 24) None ring8 ring8 0) (stop_exec (Some 5)) True)
      (\<lambda>k s. (None, s)) (server_example 2) = (StopWaits, s')"
proof -
  have "epoll_ctl_documented (sv_poll (server_example 2))"
    by (simp add: server_example_def ep_ops ep_ctl_def Let_def split_beta ep_example_documented)
  moreover have "el_jobs (server_example 2) = []" "\<not> sv_stopped (server_example 2)" "sv_acceptFd (server_example 2) = 3"
    "el_handlers (server_example 2) 3 = Some TheServer" "24 \<noteq> EAGAIN"
    by (simp_all add: server_example_def EAGAIN_def)
  moreover have "keeps_stopped (\<lambda>k s :: (bytes, unit, int \<Rightarrow> 32 word option) server. (None :: poll_error option, s))"
    by (simp add: keeps_stopped_def)
  ultimately show ?thesis
    using listener_stops [of "server_example 2" 24 _ quiet ring8 ring8 0 "Some 5" "\<lambda>k s. (None, s)"
        "server_handle quiet (AcceptFails 24) None ring8 ring8 0"] by fastforce
qed

end
