(* ===== verification/Sync.thy ===== *)
theory Sync
  imports Prelude
begin

text \<open>
  pkg/limutil: the atomic values of sync/atomic, the spin lock and the two wait group
  wrappers. Every operation is one call of the package sync/atomic of the standard
  library, hence one step. \<open>int\<close> of the code has 64 bits.
\<close>

subsection \<open>Atomic values\<close>

record atomic_int32 = ai32_v :: "32 word"
record atomic_int64 = ai64_v :: "64 word"
record atomic_bool = ab_b :: "32 word"

definition Int32_Add :: "64 word \<Rightarrow> atomic_int32 \<Rightarrow> atomic_int32" where
  "Int32_Add i a = a\<lparr>ai32_v := ai32_v a + ucast i\<rparr>"

definition Int32_Swap :: "64 word \<Rightarrow> atomic_int32 \<Rightarrow> 32 word \<times> atomic_int32" where
  "Int32_Swap i a = (ai32_v a, a\<lparr>ai32_v := ucast i\<rparr>)"

definition Int32_Get :: "atomic_int32 \<Rightarrow> 32 word" where
  "Int32_Get a = ai32_v a"

definition Int64_Add :: "64 word \<Rightarrow> atomic_int64 \<Rightarrow> atomic_int64" where
  "Int64_Add i a = a\<lparr>ai64_v := ai64_v a + i\<rparr>"

definition Int64_Swap :: "64 word \<Rightarrow> atomic_int64 \<Rightarrow> 64 word \<times> atomic_int64" where
  "Int64_Swap i a = (ai64_v a, a\<lparr>ai64_v := i\<rparr>)"

definition Int64_Get :: "atomic_int64 \<Rightarrow> 64 word" where
  "Int64_Get a = ai64_v a"

definition Bool_Set :: "bool \<Rightarrow> atomic_bool \<Rightarrow> atomic_bool" where
  "Bool_Set b a = (let newV = (if b then 1 else 0) in a\<lparr>ab_b := newV\<rparr>)"

definition Bool_Get :: "atomic_bool \<Rightarrow> bool" where
  "Bool_Get a \<longleftrightarrow> ab_b a = 1"

lemma Bool_Get_Set [simp]: "Bool_Get (Bool_Set b a) = b"
  by (simp add: Bool_Get_def Bool_Set_def)

lemma Int64_Get_Swap [simp]: "Int64_Get (snd (Int64_Swap i a)) = i" "fst (Int64_Swap i a) = Int64_Get a"
  by (simp_all add: Int64_Get_def Int64_Swap_def)

lemma Int32_Get_Swap [simp]: "Int32_Get (snd (Int32_Swap i a)) = ucast i" "fst (Int32_Swap i a) = Int32_Get a"
  by (simp_all add: Int32_Get_def Int32_Swap_def)

subsection \<open>Wait groups\<close>

text \<open>
  Wrap of wait_group.go: the caller adds one to the wait group and then to \<open>count\<close> and
  starts a goroutine, which runs the callback, calls Done and takes one off \<open>count\<close>. A
  call of Wrap is a number below the length of the list of their positions; a callback
  may take any number of its own steps before it returns.
\<close>

datatype wrap_pc = WrNew | WrAdded | WrRunning | WrReturned | WrDone | WrEnd

record wait_group =
  wg_counter :: int
  wg_count :: "64 word"
  wg_calls :: "wrap_pc list"

definition NewWaitGroupWrapper :: "nat \<Rightarrow> wait_group" where
  "NewWaitGroupWrapper n = \<lparr>wg_counter = 0, wg_count = 0, wg_calls = replicate n WrNew\<rparr>"

definition Wrap_step :: "nat \<Rightarrow> wait_group \<Rightarrow> wait_group" where
  "Wrap_step i w =
     (let at = (\<lambda>p. (wg_calls w)[i := p])
      in if i \<ge> length (wg_calls w) then w
         else (case wg_calls w ! i of
                 WrNew \<Rightarrow> w\<lparr>wg_counter := wg_counter w + 1, wg_calls := at WrAdded\<rparr>
               | WrAdded \<Rightarrow> w\<lparr>wg_count := wg_count w + 1, wg_calls := at WrRunning\<rparr>
               | WrRunning \<Rightarrow> w\<lparr>wg_calls := at WrReturned\<rparr>
               | WrReturned \<Rightarrow> w\<lparr>wg_counter := wg_counter w - 1, wg_calls := at WrDone\<rparr>
               | WrDone \<Rightarrow> w\<lparr>wg_count := wg_count w - 1, wg_calls := at WrEnd\<rparr>
               | WrEnd \<Rightarrow> w))"

text \<open>AddAndRun of sync/waitgroup.go is the same without the count.\<close>

definition AddAndRun_step :: "nat \<Rightarrow> wait_group \<Rightarrow> wait_group" where
  "AddAndRun_step i w =
     (let at = (\<lambda>p. (wg_calls w)[i := p])
      in if i \<ge> length (wg_calls w) then w
         else (case wg_calls w ! i of
                 WrNew \<Rightarrow> w\<lparr>wg_counter := wg_counter w + 1, wg_calls := at WrRunning\<rparr>
               | WrRunning \<Rightarrow> w\<lparr>wg_calls := at WrReturned\<rparr>
               | WrReturned \<Rightarrow> w\<lparr>wg_counter := wg_counter w - 1, wg_calls := at WrEnd\<rparr>
               | _ \<Rightarrow> w))"

definition GoroutineCount :: "wait_group \<Rightarrow> 64 word" where
  "GoroutineCount w = wg_count w"

text \<open>Wait returns when the counter is zero.\<close>

definition Wait_returns :: "wait_group \<Rightarrow> bool" where
  "Wait_returns w \<longleftrightarrow> wg_counter w = 0"

definition calls_at :: "wrap_pc set \<Rightarrow> wait_group \<Rightarrow> int" where
  "calls_at P w = int (length (filter (\<lambda>p. p \<in> P) (wg_calls w)))"

definition wg_inv :: "wait_group \<Rightarrow> bool" where
  "wg_inv w \<longleftrightarrow>
     wg_counter w = calls_at {WrAdded, WrRunning, WrReturned} w \<and>
     wg_count w = of_int (calls_at {WrRunning, WrReturned, WrDone} w)"

definition wg_loop_inv :: "wait_group \<Rightarrow> bool" where
  "wg_loop_inv w \<longleftrightarrow> wg_counter w = calls_at {WrRunning, WrReturned} w"

lemma filter_update:
  "i < length xs \<Longrightarrow>
    int (length (filter P (xs[i := y]))) =
      int (length (filter P xs)) - (if P (xs ! i) then 1 else 0) + (if P y then 1 else 0)"
proof (induction xs arbitrary: i)
  case (Cons a xs)
  show ?case
  proof (cases i)
    case (Suc j)
    with Cons.IH [of j] Cons.prems show ?thesis by (auto split: if_splits)
  qed simp
qed simp

lemma calls_at_update:
  assumes "wg_calls w' = (wg_calls w)[i := q]" "i < length (wg_calls w)"
  shows "calls_at P w' = calls_at P w - (if wg_calls w ! i \<in> P then 1 else 0) + (if q \<in> P then 1 else 0)"
  using filter_update [OF assms(2), of "\<lambda>p. p \<in> P" q] by (simp add: calls_at_def assms(1))

lemma wg_inv_step: "wg_inv w \<Longrightarrow> wg_inv (Wrap_step i w)"
proof -
  assume inv: "wg_inv w"
  show ?thesis
  proof (cases "i < length (wg_calls w)")
    case True
    note upd = calls_at_update [of "Wrap_step i w" w i]
    show ?thesis
      using inv True upd
      by (cases "wg_calls w ! i") (simp_all add: wg_inv_def Wrap_step_def Let_def)
  qed (use inv in \<open>simp add: Wrap_step_def\<close>)
qed

lemma wg_loop_inv_step: "wg_loop_inv w \<Longrightarrow> wg_loop_inv (AddAndRun_step i w)"
proof -
  assume inv: "wg_loop_inv w"
  show ?thesis
  proof (cases "i < length (wg_calls w)")
    case True
    note upd = calls_at_update [of "AddAndRun_step i w" w i]
    show ?thesis
      using inv True upd
      by (cases "wg_calls w ! i") (simp_all add: wg_loop_inv_def AddAndRun_step_def Let_def)
  qed (use inv in \<open>simp add: AddAndRun_step_def\<close>)
qed

lemma fold_keeps: "I s \<Longrightarrow> (\<And>i s. I s \<Longrightarrow> I (step i s)) \<Longrightarrow> I (fold step is s)"
  by (induction "is" arbitrary: s) simp_all

lemma Wrap_step_length [simp]: "length (wg_calls (Wrap_step i w)) = length (wg_calls w)"
  by (simp add: Wrap_step_def Let_def split: wrap_pc.split)

lemma AddAndRun_step_length [simp]: "length (wg_calls (AddAndRun_step i w)) = length (wg_calls w)"
  by (simp add: AddAndRun_step_def Let_def split: wrap_pc.split)

lemma calls_at_0: "calls_at P w = 0 \<Longrightarrow> p \<in> set (wg_calls w) \<Longrightarrow> p \<notin> P"
  by (auto simp: calls_at_def filter_empty_conv)

text \<open>
  In every interleaving of any number of calls of Wrap, and of AddAndRun: Wait can
  return only if no callback that was added has still to return, and it can return when
  all have; GoroutineCount is then the number of goroutines that have not yet taken
  themselves off, which need not be 0.
\<close>
theorem wait_group_counts:
  assumes "w = fold Wrap_step is (NewWaitGroupWrapper n)" "l = fold AddAndRun_step js (NewWaitGroupWrapper n)"
  shows "Wait_returns w \<longleftrightarrow> set (wg_calls w) \<inter> {WrAdded, WrRunning, WrReturned} = {}"
    and "Wait_returns w \<Longrightarrow> GoroutineCount w = of_nat (length (filter (\<lambda>p. p = WrDone) (wg_calls w)))"
    and "Wait_returns l \<longleftrightarrow> set (wg_calls l) \<inter> {WrRunning, WrReturned} = {}"
proof -
  have init: "wg_inv (NewWaitGroupWrapper n)" "wg_loop_inv (NewWaitGroupWrapper n)"
    by (simp_all add: wg_inv_def wg_loop_inv_def NewWaitGroupWrapper_def calls_at_def)
  have w: "wg_inv w" unfolding assms(1) by (rule fold_keeps [where I = wg_inv, OF init(1)]) (rule wg_inv_step)
  have l: "wg_loop_inv l" unfolding assms(2) by (rule fold_keeps [where I = wg_loop_inv, OF init(2)]) (rule wg_loop_inv_step)
  show wait: "Wait_returns w \<longleftrightarrow> set (wg_calls w) \<inter> {WrAdded, WrRunning, WrReturned} = {}"
    using w by (auto simp: wg_inv_def Wait_returns_def calls_at_def filter_empty_conv)
  show "Wait_returns l \<longleftrightarrow> set (wg_calls l) \<inter> {WrRunning, WrReturned} = {}"
    using l by (auto simp: wg_loop_inv_def Wait_returns_def calls_at_def filter_empty_conv)
  assume "Wait_returns w"
  then have "filter (\<lambda>p. p \<in> {WrRunning, WrReturned, WrDone}) (wg_calls w) = filter (\<lambda>p. p = WrDone) (wg_calls w)"
    using wait by (intro filter_cong) auto
  then show "GoroutineCount w = of_nat (length (filter (\<lambda>p. p = WrDone) (wg_calls w)))"
    using w by (simp add: wg_inv_def GoroutineCount_def calls_at_def)
qed

theorem wait_group_counts_witness:
  "Wait_returns (fold Wrap_step [0, 0, 1, 0, 0] (NewWaitGroupWrapper 2)) = False \<and>
   GoroutineCount (fold Wrap_step [0, 0, 1, 1, 0, 0, 1, 1] (NewWaitGroupWrapper 2)) = 2"
proof -
  have a: "fold Wrap_step [0, 0, 1, 0, 0] (NewWaitGroupWrapper 2) =
      \<lparr>wg_counter = 1, wg_count = 1, wg_calls = [WrDone, WrAdded]\<rparr>"
    and b: "fold Wrap_step [0, 0, 1, 1, 0, 0, 1, 1] (NewWaitGroupWrapper 2) =
      \<lparr>wg_counter = 0, wg_count = 2, wg_calls = [WrDone, WrDone]\<rparr>"
    by (simp_all add: Wrap_step_def NewWaitGroupWrapper_def numeral_2_eq_2)
  show ?thesis
    using wait_group_counts(1) [OF refl refl, of "[0, 0, 1, 0, 0]" 2]
      wait_group_counts(2) [OF refl refl, of "[0, 0, 1, 1, 0, 0, 1, 1]" 2]
    unfolding a b by (simp add: Wait_returns_def)
qed

end
