(* ===== verification/Lifecycle.thy ===== *)
theory Lifecycle
  imports Server_Props Sync
begin

text \<open>
  The life of a server (New, Run and Stop of server.go, with NewTCPServer of server_tcp.go
  and Start and Stop of server_ws.go). The server's state is extended by its options, the
  HTTP server of the websocket part, which is nil until Start, and the timing wheel, a
  third-party value. What Create, the system calls, the timing wheel and net/http answer
  are arguments.
\<close>

datatype ws_listen = ListenAndServe string | ListenAndServeTLS string string string

record ('b, 'x, 'k, 'u, 'w) limnet = "('b, 'x, 'k) server" +
  ln_opts :: "'u options"
  ln_srv :: "ws_listen option"
  ln_wheel :: 'w

subsection \<open>The websocket server\<close>

text \<open>Start creates the HTTP server; the goroutine it starts makes the listening call.\<close>

definition WSServer_Start :: "('b, 'x, 'k, 'u, 'w) limnet \<Rightarrow> ('b, 'x, 'k, 'u, 'w) limnet" where
  "WSServer_Start s =
     s\<lparr>ln_srv := Some (if opt_SSLOn (ln_opts s)
          then ListenAndServeTLS (opt_WSAddr (ln_opts s)) (opt_SSLCertificate (ln_opts s)) (opt_SSLCertificateKey (ln_opts s))
          else ListenAndServe (opt_WSAddr (ln_opts s)))\<rparr>"

text \<open>The goroutine: any result other than nil or ErrServerClosed is a panic.\<close>

datatype serve_error = ErrServerClosed | OtherServeError

definition WSServer_serve :: "serve_error option \<Rightarrow> unit call" where
  "WSServer_serve err = (if err \<noteq> None \<and> err \<noteq> Some ErrServerClosed then Panics ErrorValue else Returns ())"

text \<open>Stop calls Shutdown on the HTTP server, which panics on nil.\<close>

definition WSServer_Stop :: "'e option \<Rightarrow> ('b, 'x, 'k, 'u, 'w) limnet \<Rightarrow> 'e option call" where
  "WSServer_Stop shutdown s = (case ln_srv s of None \<Rightarrow> Panics ErrorValue | Some _ \<Rightarrow> Returns shutdown)"

subsection \<open>New and Run\<close>

text \<open>
  The constructors of the two servers: the TCP server with an accept descriptor not yet
  set and the channel \<open>Stopped\<close> open, which then listens on the address of the options, and
  the websocket server without an HTTP server.
\<close>

definition NewTCPServer ::
  "listen_results \<Rightarrow> ('b, 'x, 'k, 'u, 'w) limnet \<Rightarrow> unit call \<times> ('b, 'x, 'k, 'u, 'w) limnet" where
  "NewTCPServer listen s =
     initAndAddToLoopListen listen (opt_Addr (ln_opts s)) (s\<lparr>sv_acceptFd := 0, sv_stopped := False\<rparr>)"

definition NewWSServer :: "('b, 'x, 'k, 'u, 'w) limnet \<Rightarrow> ('b, 'x, 'k, 'u, 'w) limnet" where
  "NewWSServer s = s\<lparr>ln_srv := None\<rparr>"

datatype 'e new_panic = OptionPanic 'e | WheelPanic | LoopPanic 'e | ListenPanic panic_value

definition LIMNet_New ::
  "'u \<Rightarrow> ('e, 'u) option_fn option list \<Rightarrow> (int \<Rightarrow> int \<Rightarrow> 'w option) \<Rightarrow> 'e + 'k epoll_env \<Rightarrow> int \<Rightarrow>
   (nat \<Rightarrow> 'e + 'k epoll_env) \<Rightarrow> listen_results \<Rightarrow> 'e new_panic + ('b, 'x, 'k, 'u, 'w) limnet" where
  "LIMNet_New unPacket optFuncs NewTimingWheel createListener NumCPU create listen =
     (case apply_options optFuncs (NewOption unPacket) of
        Inl err \<Rightarrow> Inl (OptionPanic err)
      | Inr opts \<Rightarrow>
          (case NewTimingWheel (opt_TimingWheelTick opts) (opt_TimingWheelSize opts) of
             None \<Rightarrow> Inl WheelPanic
           | Some wheel \<Rightarrow>
               (case EventLoop_New createListener of
                  Inl err \<Rightarrow> Inl (LoopPanic err)
                | Inr ll \<Rightarrow>
                    (case initConnectEventLoop (opt_ConnEventLoopNum opts) NumCPU create of
                       Inl err \<Rightarrow> Inl (LoopPanic err)
                     | Inr loops \<Rightarrow>
                         (let n = loop_count (opt_ConnEventLoopNum opts) NumCPU;
                              s = \<lparr>el_jobs = [], el_handlers = el_handlers ll, el_eventHandling = el_eventHandling ll,
                                   el_wakes = el_wakes ll, sv_poll = cl_poll ll, sv_loops = loops,
                                   sv_nextLoopIndex = 0, sv_idGen = 0, sv_conns = (\<lambda>_. None), sv_acceptFd = 0,
                                   sv_stopped = False, sv_idleTime = opt_ConnIdleTime opts, sv_log = [],
                                   ln_opts = opts\<lparr>opt_ConnEventLoopNum := n\<rparr>, ln_srv = None, ln_wheel = wheel\<rparr>
                          in case NewTCPServer listen s of
                               (Panics v, _) \<Rightarrow> Inl (ListenPanic v)
                             | (Returns _, s') \<Rightarrow> Inr (NewWSServer s'))))))"

text \<open>
  Run starts the timing wheel, the websocket server and one goroutine for each event loop,
  the listener's last, and waits for these: a call of AddAndRun for each, of which the
  goroutines already started may be anywhere. Run returns when it has made all the calls
  and Wait returns.
\<close>

definition LIMNet_Run ::
  "('w \<Rightarrow> 'w) \<Rightarrow> ('b, 'x, 'k, 'u, 'w) limnet \<Rightarrow> ('b, 'x, 'k, 'u, 'w) limnet \<times> wait_group" where
  "LIMNet_Run StartWheel s =
     (let s1 = WSServer_Start (s\<lparr>ln_wheel := StartWheel (ln_wheel s)\<rparr>)
      in (s1, NewWaitGroupWrapper (length (sv_loops s1) + 1)))"

definition Run_returns :: "wait_group \<Rightarrow> bool" where
  "Run_returns w \<longleftrightarrow> WrNew \<notin> set (wg_calls w) \<and> Wait_returns w"

text \<open>The accessors, and Close, which the listener's loop calls on its handler.\<close>

definition GetRealAddr :: "('b, 'x, 'k, 'u, 'w) limnet \<Rightarrow> string" where
  "GetRealAddr s = opt_Addr (ln_opts s)"

definition LIMNet_Close :: "('b, 'x, 'k, 'u, 'w) limnet \<Rightarrow> 'e option \<times> ('b, 'x, 'k, 'u, 'w) limnet" where
  "LIMNet_Close s = (None, s)"

subsection \<open>What New and Run establish\<close>

lemma create_loops_length:
  "create_loops n create = Inr ls \<Longrightarrow>
    length ls = n \<and> (\<forall>l \<in> set ls. el_jobs l = [] \<and> el_handlers l = (\<lambda>_. None) \<and> el_wakes l = 0 \<and>
      (\<exists>i. create i = Inr (cl_poll l)))"
proof (induction n arbitrary: ls)
  case (Suc n)
  then show ?case by (auto simp: EventLoop_New_def split: sum.splits) blast
qed simp

text \<open>A call of AddAndRun is started, running, returned or over.\<close>

definition run_calls_ok :: "wait_group \<Rightarrow> bool" where
  "run_calls_ok w \<longleftrightarrow> wg_loop_inv w \<and> set (wg_calls w) \<subseteq> {WrNew, WrRunning, WrReturned, WrEnd}"

lemma run_calls_ok_step:
  assumes "run_calls_ok w"
  shows "run_calls_ok (AddAndRun_step i w)"
proof -
  have "set (wg_calls (AddAndRun_step i w)) \<subseteq> {WrNew, WrRunning, WrReturned, WrEnd}"
    using assms set_update_subset_insert [of "wg_calls w" i]
    by (auto simp: run_calls_ok_def AddAndRun_step_def Let_def split: wrap_pc.splits)
  with assms wg_loop_inv_step show ?thesis by (simp add: run_calls_ok_def)
qed

lemma Run_returns_iff:
  assumes "w = fold AddAndRun_step js (NewWaitGroupWrapper n)"
  shows "Run_returns w \<longleftrightarrow> wg_calls w = replicate n WrEnd"
proof -
  have "run_calls_ok (NewWaitGroupWrapper n)"
    by (auto simp: run_calls_ok_def wg_loop_inv_def NewWaitGroupWrapper_def calls_at_def)
  then have ok: "run_calls_ok w" unfolding assms by (rule fold_keeps [where I = run_calls_ok]) (rule run_calls_ok_step)
  have len: "length (wg_calls w) = n"
    unfolding assms by (rule fold_keeps [where I = "\<lambda>w. length (wg_calls w) = n"]) (simp_all add: NewWaitGroupWrapper_def)
  have "Wait_returns w \<longleftrightarrow> set (wg_calls w) \<inter> {WrRunning, WrReturned} = {}"
    using ok by (auto simp: run_calls_ok_def wg_loop_inv_def Wait_returns_def calls_at_def filter_empty_conv)
  then have "Run_returns w \<longleftrightarrow> set (wg_calls w) \<subseteq> {WrEnd}"
    using ok by (auto simp: Run_returns_def run_calls_ok_def)
  also have "\<dots> \<longleftrightarrow> wg_calls w = replicate n WrEnd"
    using len by (auto simp: list_eq_iff_nth_eq subset_iff in_set_conv_nth)
  finally show ?thesis .
qed

lemma New_listening:
  assumes "initAndAddToLoopListen r addr s = (Returns (), s')" "epoll_ctl_documented (sv_poll s)"
  shows "\<exists>fd. lr_socket r = Inr fd \<and> sv_acceptFd s' = fd \<and> el_handlers s' = (el_handlers s)(fd := Some TheServer) \<and>
    ep_rd (sv_poll s') fd \<and> epoll_ctl_documented (sv_poll s') \<and> sv_loops s' = sv_loops s \<and>
    sv_nextLoopIndex s' = sv_nextLoopIndex s \<and> sv_idGen s' = sv_idGen s \<and> el_jobs s' = el_jobs s \<and>
    sv_stopped s' = sv_stopped s \<and> sv_idleTime s' = sv_idleTime s"
proof -
  obtain fd where fd: "listen_calls r addr = (fst (listen_calls r addr), Some fd)" "lr_socket r = Inr fd"
    using assms(1)
    by (auto simp: initAndAddToLoopListen_def listen_calls_def Let_def split: sum.splits option.splits prod.splits if_splits)
  let ?s = "s\<lparr>sv_acceptFd := fd\<rparr>"
  obtain e p where p: "ep_AddRead fd (sv_poll s) = (e, p)" by fastforce
  have "(if fst (BindHandler fd TheServer e (?s\<lparr>sv_poll := p\<rparr>)) = None then Returns () else Panics ErrorValue,
      snd (BindHandler fd TheServer e (?s\<lparr>sv_poll := p\<rparr>))) = (Returns (), s')"
    using assms(1) fd p
    by (auto simp: initAndAddToLoopListen_def Let_def split: prod.splits if_splits)
  then have e: "e = None" "s' = ?s\<lparr>sv_poll := p, el_handlers := (el_handlers s)(fd := Some TheServer)\<rparr>"
    by (auto simp: BindHandler_def Let_def split: option.splits if_splits)
  with ep.add_rd [OF assms(2)] ep.add_ok [OF assms(2)] p fd(2) show ?thesis by simp
qed

text \<open>What New returns.\<close>

lemma New_establishes:
  assumes "LIMNet_New unPacket optFuncs NewTimingWheel (Inr p) NumCPU create listen = Inr s"
    and "epoll_ctl_documented p" "0 < NumCPU"
  shows "server_ok s \<and> el_jobs s = [] \<and> el_handlers s = [sv_acceptFd s \<mapsto> TheServer] \<and>
    lr_socket listen = Inr (sv_acceptFd s) \<and> ep_rd (sv_poll s) (sv_acceptFd s) \<and> epoll_ctl_documented (sv_poll s) \<and>
    \<not> sv_stopped s \<and> sv_nextLoopIndex s = 0 \<and> sv_idGen s = 0 \<and> ln_srv s = None \<and>
    opt_ConnEventLoopNum (ln_opts s) = int (length (sv_loops s)) \<and>
    (\<forall>l \<in> set (sv_loops s). el_jobs l = [] \<and> el_handlers l = (\<lambda>_. None) \<and> el_wakes l = 0 \<and>
       (\<exists>i. create i = Inr (cl_poll l)))"
proof -
  obtain opts wheel loops s1 where new: "apply_options optFuncs (NewOption unPacket) = Inr opts"
    "initConnectEventLoop (opt_ConnEventLoopNum opts) NumCPU create = Inr loops"
    "initAndAddToLoopListen listen (opt_Addr opts)
       \<lparr>el_jobs = [], el_handlers = (\<lambda>_. None), el_eventHandling = False, el_wakes = 0, sv_poll = p,
        sv_loops = loops, sv_nextLoopIndex = 0, sv_idGen = 0, sv_conns = (\<lambda>_. None), sv_acceptFd = 0,
        sv_stopped = False, sv_idleTime = opt_ConnIdleTime opts, sv_log = [],
        ln_opts = opts\<lparr>opt_ConnEventLoopNum := loop_count (opt_ConnEventLoopNum opts) NumCPU\<rparr>,
        ln_srv = None, ln_wheel = wheel\<rparr> = (Returns (), s1)" "s = s1\<lparr>ln_srv := None\<rparr>"
    using assms(1)
    by (auto simp: LIMNet_New_def NewTCPServer_def NewWSServer_def EventLoop_New_def Let_def split: sum.splits option.splits prod.splits call.splits)
  have rest: "ln_srv s = None" "ln_opts s = opts\<lparr>opt_ConnEventLoopNum := loop_count (opt_ConnEventLoopNum opts) NumCPU\<rparr>"
    using new(3,4) by (auto simp: initAndAddToLoopListen_def BindHandler_def Let_def split: prod.splits option.splits if_splits)
  have loops: "length loops = nat (loop_count (opt_ConnEventLoopNum opts) NumCPU)"
    "\<forall>l \<in> set loops. el_jobs l = [] \<and> el_handlers l = (\<lambda>_. None) \<and> el_wakes l = 0 \<and> (\<exists>i. create i = Inr (cl_poll l))"
    using create_loops_length [OF new(2) [unfolded initConnectEventLoop_def]] by simp_all
  moreover have "0 < loop_count (opt_ConnEventLoopNum opts) NumCPU" using assms(3) by (simp add: loop_count_def)
  ultimately show ?thesis
    using New_listening [OF new(3)] assms(2) rest new(4) by (auto simp: server_ok_def)
qed


definition new_example :: "string new_panic + (bytes, unit, int \<Rightarrow> 32 word option, unit, unit) limnet" where
  "new_example =
     LIMNet_New () [Some (WithAddr ''tcp://127.0.0.1:80''), None] (\<lambda>_ _. Some ()) (Inr ep_example) 2 (\<lambda>_. Inr ep_example)
       \<lparr>lr_socket = Inr 3, lr_bind = None, lr_listen = None, lr_nonblock = None\<rparr>"


end
