(* ===== verification/Net.thy ===== *)
theory Net
  imports Lifecycle Conn_Loop_Props
begin

text \<open>
  The whole TCP server: the listener's loop with LIMNet.Handle as its handler (server.go) and
  the connection loops with their connections (Conn_Loop). The server's record is extended
  by the loops; of \<open>sv_loops\<close>, the loops as New creates them, only the number is used here.

  A step is an event of the listening descriptor, with the answers of the kernel, or an
  input of one of the connection loops.
\<close>

record ('b, 'x, 'k, 'o, 'w, 'u) net = "('b, 'x, 'k, 'o, 'w) limnet" +
  nw_loops :: "('b, 'x, 'k, 'u) loop_world list"

text \<open>The connection loops right after New: the user's state is given, the clock is at \<open>now\<close>.\<close>

definition loop_of :: "int \<Rightarrow> int \<Rightarrow> 'u \<Rightarrow> 'k conn_loop \<Rightarrow> ('b, 'x, 'k, 'u) loop_world" where
  "loop_of idle now user l =
     \<lparr>el_jobs = [], el_handlers = (\<lambda>_. None), el_eventHandling = el_eventHandling l, el_wakes = el_wakes l,
      lp_poll = cl_poll l, lp_conns = [], lp_idle = idle, lp_now = now, lp_user = user\<rparr>"

definition net_of ::
  "int \<Rightarrow> 'u \<Rightarrow> ('b, 'x, 'k, 'o, 'w) limnet \<Rightarrow> ('b, 'x, 'k, 'o, 'w, 'u) net" where
  "net_of now user s = limnet.extend s \<lparr>nw_loops = map (loop_of (sv_idleTime s) now user) (sv_loops s)\<rparr>"

subsection \<open>New connections\<close>

definition net_newConnection ::
  "(('b, 'x, 'k, 'u) focused \<Rightarrow> unit call \<times> ('b, 'x, 'k, 'u) focused) \<Rightarrow>
   ring_buffer \<Rightarrow> ring_buffer \<Rightarrow> (nat + bytes) list \<Rightarrow> (nat + nat) list \<Rightarrow> int \<Rightarrow> sockaddr \<Rightarrow>
   ('b, 'x, 'k, 'o, 'w, 'u) net \<Rightarrow> unit call \<times> ('b, 'x, 'k, 'o, 'w, 'u) net" where
  "net_newConnection OnConnect rb1 rb2 rs ws connfd sa s =
     (case nextLoop s of
        None \<Rightarrow> (Panics ErrorValue, s)
      | Some (i, s1) \<Rightarrow>
          (let clientID = sint (sv_idGen s1 + 1);
               s2 = s1\<lparr>sv_idGen := sv_idGen s1 + 1\<rparr>;
               (e, L) = loop_connect OnConnect clientID connfd (sockAddrToString sa) rb1 rb2 rs ws
                          (nw_loops s2 ! nat i);
               s3 = s2\<lparr>nw_loops := (nw_loops s2)[nat i := L]\<rparr>
           in case e of
                Some (ConnectPanics v) \<Rightarrow> (Panics v, s3)
              | _ \<Rightarrow> (Returns (), s3)))"

definition net_handle ::
  "(('b, 'x, 'k, 'u) focused \<Rightarrow> unit call \<times> ('b, 'x, 'k, 'u) focused) \<Rightarrow>
   accept_result \<Rightarrow> nat option \<Rightarrow> ring_buffer \<Rightarrow> ring_buffer \<Rightarrow> (nat + bytes) list \<Rightarrow> (nat + nat) list \<Rightarrow>
   handler \<Rightarrow> int \<Rightarrow> event \<Rightarrow> ('b, 'x, 'k, 'o, 'w, 'u) net \<Rightarrow> outcome \<times> ('b, 'x, 'k, 'o, 'w, 'u) net" where
  "net_handle OnConnect accept nonblock rb1 rb2 rs ws h fd event s =
     (case accept_event (net_newConnection OnConnect rb1 rb2 rs ws) accept nonblock event s of
        (Panics v, s') \<Rightarrow> (Panicked v, s')
      | (Returns _, s') \<Rightarrow> (Returned, s'))"

subsection \<open>Steps\<close>

datatype net_input =
    Accepts accept_result "nat option" ring_buffer ring_buffer "(nat + bytes) list" "(nat + nat) list" event
  | OnLoop nat loop_input

fun net_step ::
  "(('b, 'x, 'k, 'u) focused \<Rightarrow> unit call \<times> ('b, 'x, 'k, 'u) focused) \<Rightarrow>
   (('b, 'x, 'k, 'u) focused \<Rightarrow> unit call \<times> ('b, 'x, 'k, 'u) focused) \<Rightarrow>
   (bytes \<Rightarrow> ('b, 'x, 'k, 'u) focused \<Rightarrow> bytes call \<times> ('b, 'x, 'k, 'u) focused) \<Rightarrow>
   (('b, 'x, 'k, 'u) focused \<Rightarrow> bytes option call \<times> ('b, 'x, 'k, 'u) focused) \<Rightarrow>
   net_input \<Rightarrow> ('b, 'x, 'k, 'o, 'w, 'u) net \<Rightarrow> bool \<times> ('b, 'x, 'k, 'o, 'w, 'u) net" where
  "net_step OnConnect OnClose OnPacket unPacket (Accepts accept nonblock rb1 rb2 rs ws ev) s =
     handleEvent (net_handle OnConnect accept nonblock rb1 rb2 rs ws) (stop_exec None) (sv_acceptFd s) ev s"
| "net_step OnConnect OnClose OnPacket unPacket (OnLoop k i) s =
     (if k < length (nw_loops s)
      then (let (b, L) = loop_step OnConnect OnClose OnPacket unPacket i (nw_loops s ! k)
            in (b, s\<lparr>nw_loops := (nw_loops s)[k := L]\<rparr>))
      else (True, s))"

fun net_run ::
  "(('b, 'x, 'k, 'u) focused \<Rightarrow> unit call \<times> ('b, 'x, 'k, 'u) focused) \<Rightarrow>
   (('b, 'x, 'k, 'u) focused \<Rightarrow> unit call \<times> ('b, 'x, 'k, 'u) focused) \<Rightarrow>
   (bytes \<Rightarrow> ('b, 'x, 'k, 'u) focused \<Rightarrow> bytes call \<times> ('b, 'x, 'k, 'u) focused) \<Rightarrow>
   (('b, 'x, 'k, 'u) focused \<Rightarrow> bytes option call \<times> ('b, 'x, 'k, 'u) focused) \<Rightarrow>
   net_input list \<Rightarrow> ('b, 'x, 'k, 'o, 'w, 'u) net \<Rightarrow> bool \<times> ('b, 'x, 'k, 'o, 'w, 'u) net" where
  "net_run OnConnect OnClose OnPacket unPacket [] s = (True, s)"
| "net_run OnConnect OnClose OnPacket unPacket (i # is) s =
     (case net_step OnConnect OnClose OnPacket unPacket i s of
        (False, s1) \<Rightarrow> (False, s1)
      | (True, s1) \<Rightarrow> net_run OnConnect OnClose OnPacket unPacket is s1)"

text \<open>
  Stop of the server with everything in its place: the websocket server, the listener's
  loop with Stop's job and the result of closing its descriptor, and the connection loops,
  whose handlers are visited in the order \<open>visits k\<close>. All the loops run.
\<close>

definition net_stopLoop ::
  "(('b, 'x, 'k, 'u) focused \<Rightarrow> unit call \<times> ('b, 'x, 'k, 'u) focused) \<Rightarrow>
   (bytes \<Rightarrow> ('b, 'x, 'k, 'u) focused \<Rightarrow> bytes call \<times> ('b, 'x, 'k, 'u) focused) \<Rightarrow>
   (('b, 'x, 'k, 'u) focused \<Rightarrow> bytes option call \<times> ('b, 'x, 'k, 'u) focused) \<Rightarrow>
   (nat \<Rightarrow> nat list) \<Rightarrow> nat \<Rightarrow>
   ('b, 'x, 'k, 'o, 'w, 'u) net \<Rightarrow> poll_error option \<times> ('b, 'x, 'k, 'o, 'w, 'u) net" where
  "net_stopLoop OnClose OnPacket unPacket visits k s =
     (let (e, L) = EventLoop_Stop OnClose OnPacket unPacket True (visits k) (nw_loops s ! k)
      in (e, s\<lparr>nw_loops := (nw_loops s)[k := L]\<rparr>))"

definition net_Stop ::
  "(('b, 'x, 'k, 'u) focused \<Rightarrow> unit call \<times> ('b, 'x, 'k, 'u) focused) \<Rightarrow>
   (bytes \<Rightarrow> ('b, 'x, 'k, 'u) focused \<Rightarrow> bytes call \<times> ('b, 'x, 'k, 'u) focused) \<Rightarrow>
   (('b, 'x, 'k, 'u) focused \<Rightarrow> bytes option call \<times> ('b, 'x, 'k, 'u) focused) \<Rightarrow>
   (nat \<Rightarrow> nat list) \<Rightarrow> poll_error option \<Rightarrow> nat option \<Rightarrow>
   ('b, 'x, 'k, 'o, 'w, 'u) net \<Rightarrow> poll_error stop_result \<times> ('b, 'x, 'k, 'o, 'w, 'u) net" where
  "net_Stop OnClose OnPacket unPacket visits shutdown close s =
     LIMNet_Stop (WSServer_Stop shutdown (limnet.truncate s))
       (listener_loop_Stop (\<lambda>_ _ _ s. (Returned, s)) (stop_exec close) True)
       (net_stopLoop OnClose OnPacket unPacket visits) s"

end
