(* ===== verification/Net_Props.thy ===== *)
theory Net_Props
  imports Net
begin

text \<open>
  The whole server is the interleaving of its connection loops, to which connections are
  dealt in turn; so what holds of every run of a loop holds of every loop of the server.
\<close>

subsection \<open>The inputs of one loop\<close>

text \<open>The descriptor that an event of the listener makes a connection of.\<close>

definition accepted_conn :: "accept_result \<Rightarrow> nat option \<Rightarrow> event \<Rightarrow> (int \<times> sockaddr) option" where
  "accepted_conn accept nonblock ev =
     (case accept of
        AcceptFails e \<Rightarrow> None
      | Accepted_fd fd sa \<Rightarrow> if has_event ev EventRead \<and> nonblock = None then Some (fd, sa) else None)"

text \<open>
  \<open>inputs_of n i g k is\<close>: what of \<open>is\<close> concerns loop \<open>k\<close> of \<open>n\<close>, if the next connection goes to
  loop \<open>i\<close> and the last identifier was \<open>g\<close>.
\<close>

fun inputs_of :: "nat \<Rightarrow> nat \<Rightarrow> 64 word \<Rightarrow> nat \<Rightarrow> net_input list \<Rightarrow> loop_input list" where
  "inputs_of n i g k [] = []"
| "inputs_of n i g k (Accepts accept nonblock rb1 rb2 rs ws ev # is) =
     (case accepted_conn accept nonblock ev of
        None \<Rightarrow> inputs_of n i g k is
      | Some (fd, sa) \<Rightarrow>
          (if i = k then [Connects (sint (g + 1)) fd (sockAddrToString sa) rb1 rb2 rs ws] else []) @
          inputs_of n (Suc i mod n) (g + 1) k is)"
| "inputs_of n i g k (OnLoop j x # is) = (if j = k then [x] else []) @ inputs_of n i g k is"

definition net_ok :: "('b, 'x, 'k, 'o, 'w, 'u) net \<Rightarrow> bool" where
  "net_ok s \<longleftrightarrow>
     server_ok s \<and> length (nw_loops s) = length (sv_loops s) \<and> el_jobs s = [] \<and>
     el_handlers s = [sv_acceptFd s \<mapsto> TheServer] \<and> sv_acceptFd s \<noteq> -1 \<and>
     epoll_ctl_documented (sv_poll s) \<and> \<not> sv_stopped s \<and> ln_srv s \<noteq> None"

text \<open>An event of the listening descriptor.\<close>

lemma accept_step:
  assumes "net_ok s"
    and "net_step OnConnect OnClose OnPacket unPacket (Accepts accept nonblock rb1 rb2 rs ws ev) s = (b, s')"
  shows "net_ok s' \<and> sv_acceptFd s' = sv_acceptFd s \<and> length (nw_loops s') = length (nw_loops s) \<and>
    (case accepted_conn accept nonblock ev of
       None \<Rightarrow> sv_nextLoopIndex s' = sv_nextLoopIndex s \<and> sv_idGen s' = sv_idGen s \<and> nw_loops s' = nw_loops s
     | Some (fd, sa) \<Rightarrow>
         sv_nextLoopIndex s' = (sv_nextLoopIndex s + 1) mod int (length (nw_loops s)) \<and> sv_idGen s' = sv_idGen s + 1 \<and>
         nw_loops s' = (nw_loops s)[nat (sv_nextLoopIndex s) :=
           snd (loop_connect OnConnect (sint (sv_idGen s + 1)) fd (sockAddrToString sa) rb1 rb2 rs ws
             (nw_loops s ! nat (sv_nextLoopIndex s)))])"
proof -
  let ?s1 = "s\<lparr>el_eventHandling := True\<rparr>"
  have s: "server_ok s" "length (nw_loops s) = length (sv_loops s)" "el_jobs s = []"
    "el_handlers s = [sv_acceptFd s \<mapsto> TheServer]" "sv_acceptFd s \<noteq> -1" "epoll_ctl_documented (sv_poll s)"
    "\<not> sv_stopped s" "ln_srv s \<noteq> None"
    using assms(1) by (simp_all add: net_ok_def)
  obtain out s2 where s2: "net_handle OnConnect accept nonblock rb1 rb2 rs ws TheServer (sv_acceptFd s) ev ?s1 = (out, s2)"
    by fastforce
  have next1: "nextLoop ?s1 = Some (sv_nextLoopIndex s,
      ?s1\<lparr>sv_nextLoopIndex := (sv_nextLoopIndex s + 1) mod int (length (sv_loops s))\<rparr>)"
    using nextLoop_ok [of ?s1] s(1) by (simp add: server_ok_def)
  let ?i = "nat (sv_nextLoopIndex s)"
  let ?L = "\<lambda>fd sa. snd (loop_connect OnConnect (sint (sv_idGen s + 1)) fd (sockAddrToString sa) rb1 rb2 rs ws (nw_loops s ! ?i))"
  have called: "case accepted_conn accept nonblock ev of
      None \<Rightarrow> s2 = ?s1 \<or> (\<exists>fd. s2 = sv_note (ServerFdClosed fd) ?s1)
    | Some (fd, sa) \<Rightarrow> s2 = ?s1\<lparr>sv_nextLoopIndex := (sv_nextLoopIndex s + 1) mod int (length (sv_loops s)),
        sv_idGen := sv_idGen s + 1, nw_loops := (nw_loops s)[?i := ?L fd sa]\<rparr>"
    using s2 next1
    by (auto simp: net_handle_def accept_event_def accepted_conn_def net_newConnection_def Let_def
        split: accept_result.splits if_splits call.splits prod.splits option.splits bind_failure.splits)
  moreover have next_index: "0 \<le> (sv_nextLoopIndex s + 1) mod int (length (sv_loops s))"
    "(sv_nextLoopIndex s + 1) mod int (length (sv_loops s)) < int (length (sv_loops s))"
    using pos_mod_sign pos_mod_bound s(1) by (auto simp: server_ok_def intro!: pos_mod_sign pos_mod_bound)
  ultimately have "net_ok s2 \<and> sv_acceptFd s2 = sv_acceptFd s \<and> (case accepted_conn accept nonblock ev of
       None \<Rightarrow> sv_nextLoopIndex s2 = sv_nextLoopIndex s \<and> sv_idGen s2 = sv_idGen s \<and> nw_loops s2 = nw_loops s
     | Some (fd, sa) \<Rightarrow>
         sv_nextLoopIndex s2 = (sv_nextLoopIndex s + 1) mod int (length (nw_loops s)) \<and> sv_idGen s2 = sv_idGen s + 1 \<and>
         nw_loops s2 = (nw_loops s)[?i := ?L fd sa])"
    using s next_index by (auto simp: net_ok_def server_ok_def sv_note_def split: option.splits)
  moreover have "s' = s2 \<or> s' = s2\<lparr>el_eventHandling := False, el_jobs := []\<rparr>"
    using assms(2) s(4,5) s2 \<open>net_ok s2 \<and> _\<close>
    by (auto simp: handleEvent_def ExecuteJobs_def net_ok_def split: outcome.splits)
  ultimately show ?thesis
    by (auto simp: net_ok_def server_ok_def split: option.splits)
qed

lemma loop_input_step:
  assumes "net_ok s" "net_step OnConnect OnClose OnPacket unPacket (OnLoop k i) s = (b, s')" "k < length (nw_loops s)"
  shows "net_ok s' \<and> sv_acceptFd s' = sv_acceptFd s \<and> sv_nextLoopIndex s' = sv_nextLoopIndex s \<and> sv_idGen s' = sv_idGen s \<and>
    loop_step OnConnect OnClose OnPacket unPacket i (nw_loops s ! k) = (b, nw_loops s' ! k) \<and>
    length (nw_loops s') = length (nw_loops s) \<and>
    (\<forall>j. j \<noteq> k \<longrightarrow> nw_loops s' ! j = nw_loops s ! j)"
  using assms by (auto simp: net_ok_def server_ok_def Let_def split: prod.splits)

lemma next_nat:
  assumes "server_ok s"
  shows "nat ((sv_nextLoopIndex s + 1) mod int (length (sv_loops s))) = Suc (nat (sv_nextLoopIndex s)) mod length (sv_loops s)"
  using assms by (simp add: server_ok_def nat_mod_distrib nat_add_distrib)

text \<open>Every loop makes a run of its own, over its inputs.\<close>

lemma net_run_loop:
  assumes "net_ok s" "net_run OnConnect OnClose OnPacket unPacket is s = (True, s')"
    and "k < length (nw_loops s)"
    and "\<forall>j x. OnLoop j x \<in> set is \<longrightarrow> j < length (nw_loops s)"
  shows "net_ok s' \<and> sv_acceptFd s' = sv_acceptFd s \<and> length (nw_loops s') = length (nw_loops s) \<and>
    loop_run OnConnect OnClose OnPacket unPacket
      (inputs_of (length (nw_loops s)) (nat (sv_nextLoopIndex s)) (sv_idGen s) k is) (nw_loops s ! k) = (True, nw_loops s' ! k)"
  using assms
proof (induction "is" arbitrary: s)
  case (Cons i "is")
  let ?run = "loop_run OnConnect OnClose OnPacket unPacket"
  obtain s1 where s1: "net_step OnConnect OnClose OnPacket unPacket i s = (True, s1)"
    "net_run OnConnect OnClose OnPacket unPacket is s1 = (True, s')"
    using Cons.prems(2) by (auto split: prod.splits bool.splits)
  show ?case
  proof (cases i)
    case (Accepts accept nonblock rb1 rb2 rs ws ev)
    note st = accept_step [OF Cons.prems(1) s1(1) [unfolded Accepts]]
    have IH: "net_ok s' \<and> sv_acceptFd s' = sv_acceptFd s1 \<and> length (nw_loops s') = length (nw_loops s1) \<and>
      ?run (inputs_of (length (nw_loops s1)) (nat (sv_nextLoopIndex s1)) (sv_idGen s1) k is) (nw_loops s1 ! k) = (True, nw_loops s' ! k)"
      using Cons.IH [of s1] st s1(2) Cons.prems(3,4) by auto
    have n: "length (sv_loops s) = length (nw_loops s)" "server_ok s"
      using Cons.prems(1) by (simp_all add: net_ok_def)
    show ?thesis
    proof (cases "accepted_conn accept nonblock ev")
      case None
      with st IH Accepts show ?thesis by simp
    next
      case (Some p)
      obtain fd sa where p: "p = (fd, sa)" by fastforce
      with st IH Accepts Some next_nat [OF n(2)] n(1) Cons.prems(3) show ?thesis
        by (cases "nat (sv_nextLoopIndex s) = k") (auto split: prod.splits)
    qed
  next
    case (OnLoop j x)
    with Cons.prems(4) have j: "j < length (nw_loops s)" by simp
    note st = loop_input_step [OF Cons.prems(1) s1(1) [unfolded OnLoop] j]
    have IH: "net_ok s' \<and> sv_acceptFd s' = sv_acceptFd s1 \<and> length (nw_loops s') = length (nw_loops s1) \<and>
      ?run (inputs_of (length (nw_loops s1)) (nat (sv_nextLoopIndex s1)) (sv_idGen s1) k is) (nw_loops s1 ! k) = (True, nw_loops s' ! k)"
      using Cons.IH [of s1] st s1(2) Cons.prems(3,4) by auto
    with st OnLoop show ?thesis by (cases "j = k") simp_all
  qed
qed simp

subsection \<open>The descriptors of a loop's connections\<close>

definition loop_fds :: "('b, 'x, 'k, 'u) loop_world \<Rightarrow> int list" where
  "loop_fds L = map (\<lambda>s. tc_fd (sl_conn s)) (lp_conns L)"

fun connect_fds :: "loop_input list \<Rightarrow> int list" where
  "connect_fds [] = []"
| "connect_fds (Connects i fd addr rb1 rb2 rs ws # is) = fd # connect_fds is"
| "connect_fds (_ # is) = connect_fds is"

lemma put_back_fds:
  "h < length (lp_conns L) \<Longrightarrow> own_fd w = tc_fd (sl_conn (lp_conns L ! h)) \<Longrightarrow> loop_fds (put_back h w L) = loop_fds L"
  by (simp add: loop_fds_def put_back_def map_update list_update_same_conv)

lemma loop_exec_fds:
  assumes "OnClose_ok OnClose" "loop_exec OnClose hj L = (out, L')"
  shows "loop_fds L' = loop_fds L"
proof -
  obtain h j where hj: "hj = (h, j)" by fastforce
  have "own_fd (snd (tcp_job_call OnClose j (focus h L))) = own_fd (focus h L)"
    using far.same_fd [OF far.job_keeps [OF OnClose_apart [OF assms(1)]]] .
  with assms(2) hj show ?thesis
    by (auto simp: loop_exec_def tcp_exec_def tcp_outcome_def put_back_fds split: prod.splits call.splits if_splits)
qed

lemma loop_jobs_fds:
  assumes "OnClose_ok OnClose"
  shows "run_jobs (loop_exec OnClose) js L = (out, L') \<Longrightarrow> loop_fds L' = loop_fds L"
proof (induction js arbitrary: L)
  case (Cons j js)
  obtain out1 L1 where L1: "loop_exec OnClose j L = (out1, L1)" by fastforce
  with Cons.IH [of L1] Cons.prems loop_exec_fds [OF assms L1] show ?case by (cases out1) auto
qed simp

lemma loop_handleEvent_fds:
  assumes f: "OnClose_ok OnClose" and g: "OnPacket_ok OnPacket" and u: "unPacket_ok unPacket" "unPacket_apart unPacket"
    and ok: "loop_ok P L"
    and res: "handleEvent (loop_handler OnClose OnPacket unPacket) (loop_exec OnClose) fd ev L = (b, L')"
  shows "loop_fds L' = loop_fds L"
proof -
  let ?L1 = "L\<lparr>el_eventHandling := True\<rparr>"
  obtain out L2 where L2: "(if fd \<noteq> -1 then (case el_handlers ?L1 fd of
       Some h \<Rightarrow> loop_handler OnClose OnPacket unPacket h fd ev ?L1 | None \<Rightarrow> (Returned, ?L1))
     else (Returned, ?L1)) = (out, L2)" by fastforce
  have called: "loop_fds L2 = loop_fds L"
  proof (cases "fd \<noteq> -1 \<and> el_handlers L fd \<noteq> None")
    case True
    then obtain h where hd: "el_handlers L fd = Some h" by blast
    with loop_okD(2) [OF ok] have h: "h < length (lp_conns L)" "ci_connected (sl_conn (lp_conns L ! h))"
      "tc_fd (sl_conn (lp_conns L ! h)) = fd" by blast+
    have inv: "tcp_inv (focus h ?L1)" using loop_okD(3) [OF ok h(1,2)] tcp_inv_own [of "focus h L" "focus h ?L1"] h(2)
      loop_okD(1) [OF ok] by simp
    from tcp_Handle_inv [OF f g u(1) inv, of fd ev] h obtain r w where
      w: "tcp_Handle OnClose OnPacket unPacket fd ev (focus h ?L1) = Some (r, w)" by auto
    have "own_fd w = fd"
      using far.same_fd [OF far.Handle_keeps [OF OnClose_apart [OF f] OnPacket_apart [OF g] unPacket_apart_keeps [OF u(2)] _ w]] h
      by simp
    with put_back_fds [of h ?L1 w] h L2 True hd w show ?thesis
      by (cases r) (simp_all add: loop_handler_def tcp_handler_def tcp_outcome_def loop_fds_def)
  qed (use L2 in \<open>auto simp: loop_fds_def split: if_splits\<close>)
  let ?L3 = "L2\<lparr>el_eventHandling := False\<rparr>"
  obtain out3 L4 where L4: "run_jobs (loop_exec OnClose) (el_jobs ?L3) (?L3\<lparr>el_jobs := []\<rparr>) = (out3, L4)"
    by fastforce
  have "loop_fds L4 = loop_fds L2" using loop_jobs_fds [OF f L4] by (simp add: loop_fds_def)
  moreover have "L' = L2 \<or> L' = L4"
    using L4 res unfolding handleEvent_def Let_def L2 ExecuteJobs_def
    by (auto split: outcome.splits)
  ultimately show ?thesis using called by auto
qed

lemma loop_call_fds: "(\<And>w. same_conn w (snd (f w))) \<Longrightarrow> loop_fds (loop_call h f L) = loop_fds L"
  by (simp add: loop_call_def put_back_fds same_conn_def)

lemma loop_step_fds:
  assumes f: "OnClose_ok OnConnect" "OnClose_ok OnClose" and g: "OnPacket_ok OnPacket"
    and u: "unPacket_ok unPacket" "unPacket_apart unPacket"
    and ok: "loop_ok P L" and env: "connect_ok OnConnect i L"
    and res: "loop_step OnConnect OnClose OnPacket unPacket i L = (b, L')"
  shows "loop_fds L' = loop_fds L @ connect_fds [i]"
proof (cases i)
  case (Connects c fd addr rb1 rb2 rs ws)
  then obtain e where e: "loop_connect OnConnect c fd addr rb1 rb2 rs ws L = (e, L')"
    using res by (auto split: prod.splits)
  obtain s w where "L' = put_back (length (lp_conns L)) w (L\<lparr>lp_conns := lp_conns L @ [s]\<rparr>)" "own_fd w = fd"
    using loop_connect_bound [OF f(1) loop_okD(1) [OF ok] env [unfolded Connects] e] by metis
  with Connects show ?thesis by (simp add: loop_fds_def put_back_def)
next
  case (TimerOn h t)
  have "loop_fds (L\<lparr>lp_now := t\<rparr>) = loop_fds L" by (simp add: loop_fds_def)
  with TimerOn res loop_call_fds [OF queued_calls(3), of h "L\<lparr>lp_now := t\<rparr>"] show ?thesis by auto
qed (use res loop_handleEvent_fds [OF f(2) g u ok] loop_call_fds [OF queued_calls(1)] loop_call_fds [OF queued_calls(2)] in auto)

lemma connect_fds_Cons: "connect_fds (i # is) = connect_fds [i] @ connect_fds is"
  by (cases i) simp_all

lemma loop_run_fds:
  assumes f: "OnClose_ok OnConnect" "OnClose_ok OnClose" and g: "OnPacket_ok OnPacket"
    and u: "unPacket_ok unPacket" "unPacket_apart unPacket"
  shows "loop_ok (\<lambda>_. True) L \<Longrightarrow> loop_env OnConnect OnClose OnPacket unPacket is L \<Longrightarrow>
    \<exists>L'. loop_run OnConnect OnClose OnPacket unPacket is L = (True, L') \<and> loop_ok (\<lambda>_. True) L' \<and>
      loop_fds L' = loop_fds L @ connect_fds is"
proof (induction "is" arbitrary: L)
  case (Cons i "is")
  obtain b L1 where s: "loop_step OnConnect OnClose OnPacket unPacket i L = (b, L1)" by fastforce
  have "b" "loop_ok (\<lambda>_. True) L1"
    using loop_step_ok [OF f g u trivial_inv(1) _ trivial_inv(2) _ Cons.prems(1) _ s] Cons.prems(2) s
    by (simp_all add: Let_def holds_fresh_def kept_by_handler_def)
  moreover have "loop_fds L1 = loop_fds L @ connect_fds [i]"
    using loop_step_fds [OF f g u Cons.prems(1) _ s] Cons.prems(2) by (simp add: Let_def)
  moreover obtain L' where "loop_run OnConnect OnClose OnPacket unPacket is L1 = (True, L')"
    "loop_ok (\<lambda>_. True) L'" "loop_fds L' = loop_fds L1 @ connect_fds is"
    using Cons.IH [OF calculation(2)] Cons.prems(2) s by (auto simp: Let_def)
  ultimately show ?case using s connect_fds_Cons [of i "is"] by (simp add: Let_def)
qed simp

subsection \<open>Stopping\<close>

lemma stop_loops:
  "m \<le> length (nw_loops s) \<Longrightarrow>
    \<exists>Ls. fold (\<lambda>k s. snd (net_stopLoop OnClose OnPacket unPacket visits k s)) [0..<m] s = s\<lparr>nw_loops := Ls\<rparr> \<and>
      length Ls = length (nw_loops s) \<and>
      (\<forall>k < length (nw_loops s). Ls ! k =
        (if k < m then snd (EventLoop_Stop OnClose OnPacket unPacket True (visits k) (nw_loops s ! k)) else nw_loops s ! k))"
proof (induction m)
  case 0
  show ?case by (rule exI [of _ "nw_loops s"]) simp
next
  case (Suc m)
  then obtain Ls where Ls: "fold (\<lambda>k s. snd (net_stopLoop OnClose OnPacket unPacket visits k s)) [0..<m] s = s\<lparr>nw_loops := Ls\<rparr>"
    "length Ls = length (nw_loops s)"
    "\<forall>k < length (nw_loops s). Ls ! k =
        (if k < m then snd (EventLoop_Stop OnClose OnPacket unPacket True (visits k) (nw_loops s ! k)) else nw_loops s ! k)"
    by auto
  let ?L = "snd (EventLoop_Stop OnClose OnPacket unPacket True (visits m) (nw_loops s ! m))"
  have "snd (net_stopLoop OnClose OnPacket unPacket visits m (s\<lparr>nw_loops := Ls\<rparr>)) = s\<lparr>nw_loops := Ls[m := ?L]\<rparr>"
    using Ls(3) Suc.prems by (simp add: net_stopLoop_def split_beta)
  with Ls Suc.prems show ?case by (intro exI [of _ "Ls[m := ?L]"]) (auto simp: nth_list_update less_Suc_eq)
qed

text \<open>Stop's job on the listener's loop leaves the connection loops alone.\<close>

lemma stop_listener:
  assumes "net_ok s"
  shows "\<exists>s2. listener_loop_Stop (\<lambda>_ _ _ s. (Returned, s)) (stop_exec None) True (TCPServer_Stop s) = (None, s2) \<and>
    nw_loops s2 = nw_loops s \<and> sv_loops s2 = sv_loops s \<and> sv_stopped s2 \<and> sv_acceptFd s2 = sv_acceptFd s \<and>
    el_handlers s2 = (\<lambda>_. None) \<and> \<not> ep_rd (sv_poll s2) (sv_acceptFd s)"
proof -
  obtain e p where del: "ep_Del (sv_acceptFd s) (sv_poll s) = (e, p)" by fastforce
  have "epoll_ctl_documented (sv_poll s)" using assms by (simp add: net_ok_def)
  from ep_Del_unwatched(1) [OF this del] assms del show ?thesis
    by (auto simp: net_ok_def listener_loop_Stop_def TCPServer_Stop_def handleEvent_def ExecuteJobs_def stop_exec_def
        Let_def Trigger_def Push_def Wake_def DeleteFdInLoop_def sv_note_def)
qed

lemma net_Stop_loops:
  assumes "net_ok s"
  shows "\<exists>s'. net_Stop OnClose OnPacket unPacket visits None None s = (StopReturns None, s') \<and>
    sv_stopped s' \<and> el_handlers s' = (\<lambda>_. None) \<and> \<not> ep_rd (sv_poll s') (sv_acceptFd s) \<and>
    length (nw_loops s') = length (nw_loops s) \<and>
    (\<forall>k < length (nw_loops s). nw_loops s' ! k =
       snd (EventLoop_Stop OnClose OnPacket unPacket True (visits k) (nw_loops s ! k)))"
proof -
  obtain s2 where s2: "listener_loop_Stop (\<lambda>_ _ _ s. (Returned, s)) (stop_exec None) True (TCPServer_Stop s) = (None, s2)"
    "nw_loops s2 = nw_loops s" "sv_loops s2 = sv_loops s" "sv_stopped s2" "sv_acceptFd s2 = sv_acceptFd s"
    "el_handlers s2 = (\<lambda>_. None)" "\<not> ep_rd (sv_poll s2) (sv_acceptFd s)"
    using stop_listener [OF assms] by blast
  have n: "length (sv_loops s2) = length (nw_loops s2)" "ln_srv s \<noteq> None" using assms s2(2,3) by (simp_all add: net_ok_def)
  obtain Ls where Ls: "fold (\<lambda>k s. snd (net_stopLoop OnClose OnPacket unPacket visits k s)) [0..<length (nw_loops s2)] s2 =
      s2\<lparr>nw_loops := Ls\<rparr>" "length Ls = length (nw_loops s2)"
    "\<forall>k < length (nw_loops s2). Ls ! k = snd (EventLoop_Stop OnClose OnPacket unPacket True (visits k) (nw_loops s2 ! k))"
    using stop_loops [of "length (nw_loops s2)" s2 OnClose OnPacket unPacket visits] by auto
  have "WSServer_Stop None (limnet.truncate s) = (Returns None :: poll_error option call)"
    using n(2) by (auto simp: WSServer_Stop_def limnet.truncate_def)
  with s2 n(1) Ls show ?thesis
    by (simp add: net_Stop_def LIMNet_Stop_def Let_def)
qed

subsection \<open>No step ends a goroutine\<close>

lemma connect_no_panic:
  assumes "OnClose_ok OnConnect"
  shows "fst (loop_connect OnConnect i fd addr rb1 rb2 rs ws L) \<noteq> Some (ConnectPanics v)"
proof -
  define v where "v = focus (length (lp_conns L)) (L\<lparr>lp_conns := lp_conns L @ [\<lparr>sl_conn = NewTCPConn i fd addr rb1 rb2 (lp_idle L) (lp_now L),
    sl_reads = rs, sl_writes = ws, sl_log = []\<rparr>]\<rparr>)"
  obtain w where "OnConnect v = (Returns (), w)" using assms by (meson OnClose_ok_def)
  then show ?thesis
    by (auto simp: loop_connect_def Let_def v_def [symmetric] split: prod.splits)
qed

lemma accept_returns:
  assumes "OnClose_ok OnConnect" "net_ok s"
  shows "fst (net_step OnConnect OnClose OnPacket unPacket (Accepts accept nonblock rb1 rb2 rs ws ev) s)"
proof -
  let ?s1 = "s\<lparr>el_eventHandling := True\<rparr>"
  obtain out s2 where s2: "net_handle OnConnect accept nonblock rb1 rb2 rs ws TheServer (sv_acceptFd s) ev ?s1 = (out, s2)"
    by fastforce
  have "nextLoop ?s1 \<noteq> None" using nextLoop_ok [of ?s1] assms(2) by (simp add: net_ok_def server_ok_def)
  then have out: "out = Returned \<or> out = Panicked ErrorValue"
    using s2 connect_no_panic [OF assms(1)]
    by (auto simp: net_handle_def accept_event_def net_newConnection_def Let_def
        split: accept_result.splits if_splits call.splits prod.splits option.splits bind_failure.splits) (metis fst_conv)+
  have "el_jobs s2 = []"
    using s2 assms(2)
    by (auto simp: net_handle_def accept_event_def net_newConnection_def nextLoop_def index_get_def net_ok_def sv_note_def Let_def
        split: accept_result.splits if_splits call.splits prod.splits option.splits bind_failure.splits bind_splits)
  with out s2 assms(2) show ?thesis
    by (auto simp: handleEvent_def ExecuteJobs_def net_ok_def recovered_def split: outcome.splits)
qed

text \<open>What the loops of a server need of their environment, each for its own inputs.\<close>

definition net_env ::
  "(('b, 'x, 'k, 'u) focused \<Rightarrow> unit call \<times> ('b, 'x, 'k, 'u) focused) \<Rightarrow>
   (('b, 'x, 'k, 'u) focused \<Rightarrow> unit call \<times> ('b, 'x, 'k, 'u) focused) \<Rightarrow>
   (bytes \<Rightarrow> ('b, 'x, 'k, 'u) focused \<Rightarrow> bytes call \<times> ('b, 'x, 'k, 'u) focused) \<Rightarrow>
   (('b, 'x, 'k, 'u) focused \<Rightarrow> bytes option call \<times> ('b, 'x, 'k, 'u) focused) \<Rightarrow>
   net_input list \<Rightarrow> ('b, 'x, 'k, 'o, 'w, 'u) net \<Rightarrow> bool" where
  "net_env OnConnect OnClose OnPacket unPacket is s \<longleftrightarrow>
     (\<forall>j x. OnLoop j x \<in> set is \<longrightarrow> j < length (nw_loops s)) \<and>
     (\<forall>k < length (nw_loops s). loop_env OnConnect OnClose OnPacket unPacket
        (inputs_of (length (nw_loops s)) (nat (sv_nextLoopIndex s)) (sv_idGen s) k is) (nw_loops s ! k))"

definition loops_ok :: "('b, 'x, 'k, 'o, 'w, 'u) net \<Rightarrow> bool" where
  "loops_ok s \<longleftrightarrow> (\<forall>L \<in> set (nw_loops s). loop_ok (\<lambda>_. True) L)"

lemma loops_ok_update:
  "loops_ok s \<Longrightarrow> loop_ok (\<lambda>_. True) L \<Longrightarrow> nw_loops s' = (nw_loops s)[k := L] \<Longrightarrow> loops_ok s'"
  using set_update_subset_insert [of "nw_loops s" k L] by (auto simp: loops_ok_def)

lemma net_step_ok:
  assumes f: "OnClose_ok OnConnect" "OnClose_ok OnClose" and g: "OnPacket_ok OnPacket"
    and u: "unPacket_ok unPacket" "unPacket_apart unPacket"
    and ok: "net_ok s" "loops_ok s" and env: "net_env OnConnect OnClose OnPacket unPacket (i # is) s"
  shows "\<exists>s1. net_step OnConnect OnClose OnPacket unPacket i s = (True, s1) \<and> net_ok s1 \<and> loops_ok s1 \<and>
    net_env OnConnect OnClose OnPacket unPacket is s1"
proof -
  let ?env = "loop_env OnConnect OnClose OnPacket unPacket" and ?step = "loop_step OnConnect OnClose OnPacket unPacket"
  let ?n = "length (nw_loops s)"
  obtain b s1 where s1: "net_step OnConnect OnClose OnPacket unPacket i s = (b, s1)" by fastforce
  have n: "length (sv_loops s) = ?n" "server_ok s" using ok(1) by (simp_all add: net_ok_def)
  have step: "b' \<and> loop_ok (\<lambda>_. True) L'"
    if "?step x (nw_loops s ! k) = (b', L')" "k < ?n" "connect_ok OnConnect x (nw_loops s ! k)" "loop_fits L'" for x k b' L'
    using loop_step_ok [OF f g u trivial_inv(1) _ trivial_inv(2) _ _ that(3,1,4)] ok(2) that(2)
    by (simp add: loops_ok_def holds_fresh_def kept_by_handler_def)
  show ?thesis
  proof (cases i)
    case (Accepts accept nonblock rb1 rb2 rs ws ev)
    note st = accept_step [OF ok(1) s1 [unfolded Accepts]]
    have b: b using accept_returns [OF f(1) ok(1)] s1 Accepts by (metis fst_conv)
    show ?thesis
    proof (cases "accepted_conn accept nonblock ev")
      case None
      with st b s1 ok(2) env Accepts show ?thesis by (auto simp: net_env_def loops_ok_def)
    next
      case (Some q)
      obtain fd sa where q: "q = (fd, sa)" by fastforce
      let ?k = "nat (sv_nextLoopIndex s)"
      let ?c = "Connects (sint (sv_idGen s + 1)) fd (sockAddrToString sa) rb1 rb2 rs ws"
      have k: "?k < ?n" using n by (auto simp: server_ok_def)
      obtain e L where L: "loop_connect OnConnect (sint (sv_idGen s + 1)) fd (sockAddrToString sa) rb1 rb2 rs ws (nw_loops s ! ?k) = (e, L)"
        by fastforce
      have s1k: "nw_loops s1 = (nw_loops s)[?k := L]" "nat (sv_nextLoopIndex s1) = Suc ?k mod ?n" "sv_idGen s1 = sv_idGen s + 1"
        using st Some q L next_nat [OF n(2)] n(1) by simp_all
      have envk: "connect_ok OnConnect ?c (nw_loops s ! ?k)" "loop_fits L"
        "?env (inputs_of ?n (Suc ?k mod ?n) (sv_idGen s + 1) ?k is) L"
        using env k Accepts Some q L by (auto simp: net_env_def Let_def)
      have "loop_ok (\<lambda>_. True) L" using step [of ?c ?k True L] k envk L by simp
      moreover have "net_env OnConnect OnClose OnPacket unPacket is s1"
        using env Accepts Some q s1k envk(3) k by (auto simp: net_env_def nth_list_update)
      ultimately show ?thesis using s1 b st loops_ok_update [OF ok(2) _ s1k(1)] by auto
    qed
  next
    case (OnLoop j x)
    with env have j: "j < ?n" by (simp add: net_env_def)
    note st = loop_input_step [OF ok(1) s1 [unfolded OnLoop] j]
    have envj: "connect_ok OnConnect x (nw_loops s ! j)" "loop_fits (nw_loops s1 ! j)"
      "?env (inputs_of ?n (nat (sv_nextLoopIndex s)) (sv_idGen s) j is) (nw_loops s1 ! j)"
      using env j OnLoop st by (auto simp: net_env_def Let_def)
    have r: "b" "loop_ok (\<lambda>_. True) (nw_loops s1 ! j)" using step [of x j b] st envj j by auto
    have "nw_loops s1 = (nw_loops s)[j := nw_loops s1 ! j]"
      using st j by (auto simp: list_eq_iff_nth_eq nth_list_update)
    moreover have "?env (inputs_of ?n (nat (sv_nextLoopIndex s)) (sv_idGen s) k is) (nw_loops s1 ! k)" if "k < ?n" for k
    proof (cases "k = j")
      case False
      have "?env (inputs_of ?n (nat (sv_nextLoopIndex s)) (sv_idGen s) k (i # is)) (nw_loops s ! k)"
        using env that by (simp add: net_env_def)
      with False st OnLoop show ?thesis by simp
    qed (use envj(3) in simp)
    with env st have "net_env OnConnect OnClose OnPacket unPacket is s1" by (simp add: net_env_def)
    ultimately show ?thesis using s1 r(1) st loops_ok_update [OF ok(2) r(2), of s1 j] by simp
  qed
qed

lemma net_run_ok:
  assumes f: "OnClose_ok OnConnect" "OnClose_ok OnClose" and g: "OnPacket_ok OnPacket"
    and u: "unPacket_ok unPacket" "unPacket_apart unPacket"
  shows "net_ok s \<Longrightarrow> loops_ok s \<Longrightarrow> net_env OnConnect OnClose OnPacket unPacket is s \<Longrightarrow>
    \<exists>s'. net_run OnConnect OnClose OnPacket unPacket is s = (True, s') \<and> net_ok s' \<and> loops_ok s'"
proof (induction "is" arbitrary: s)
  case (Cons i "is")
  from net_step_ok [OF f g u Cons.prems] obtain s1 where
    "net_step OnConnect OnClose OnPacket unPacket i s = (True, s1)" "net_ok s1" "loops_ok s1"
    "net_env OnConnect OnClose OnPacket unPacket is s1" by blast
  with Cons.IH [of s1] show ?case by simp
qed auto

subsection \<open>From New to Stop\<close>

text \<open>
  C6. The TCP server is the interleaving of its connection loops: in every run of the
  listener and the loops each loop makes the run that it would make alone on its own
  inputs, where the connections of accepted descriptors are dealt to the loops in turn
  with increasing identifiers. Events of the listener that bring no connection (errors
  of accept, descriptors that cannot be made non-blocking) change no loop.
\<close>
theorem server_interleaves_loops:
  assumes "net_ok s" "net_run OnConnect OnClose OnPacket unPacket is s = (True, s')"
    and "\<forall>j x. OnLoop j x \<in> set is \<longrightarrow> j < length (nw_loops s)"
  shows "net_ok s' \<and> length (nw_loops s') = length (nw_loops s) \<and>
    (\<forall>k < length (nw_loops s).
       loop_run OnConnect OnClose OnPacket unPacket
         (inputs_of (length (nw_loops s)) (nat (sv_nextLoopIndex s)) (sv_idGen s) k is) (nw_loops s ! k) =
       (True, nw_loops s' ! k))"
proof -
  have "0 < length (nw_loops s)" using assms(1) by (auto simp: net_ok_def server_ok_def)
  then show ?thesis using net_run_loop [OF assms(1,2) _ assms(3)] by blast
qed

lemma net_of_ok:
  assumes "LIMNet_New unPacket0 optFuncs NewTimingWheel (Inr p) NumCPU create listen = Inr s0"
    and "epoll_ctl_documented p" "0 < NumCPU" "lr_socket listen \<noteq> Inr (-1)"
    and "\<forall>i q. create i = Inr q \<longrightarrow> epoll_ctl_documented q"
  shows "net_ok (net_of now user (fst (LIMNet_Run start s0)))" "loops_ok (net_of now user (fst (LIMNet_Run start s0)))"
    "length (nw_loops (net_of now user (fst (LIMNet_Run start s0)))) = length (sv_loops s0)"
    "sv_nextLoopIndex (net_of now user (fst (LIMNet_Run start s0))) = 0"
    "sv_idGen (net_of now user (fst (LIMNet_Run start s0))) = 0"
    "sv_acceptFd (net_of now user (fst (LIMNet_Run start s0))) = sv_acceptFd s0"
    "k < length (sv_loops s0) \<Longrightarrow> lp_conns (nw_loops (net_of now user (fst (LIMNet_Run start s0))) ! k) = []"
proof -
  note new = New_establishes [OF assms(1-3)]
  show "loops_ok (net_of now user (fst (LIMNet_Run start s0)))"
    using new assms(5) by (auto simp: loops_ok_def net_of_def LIMNet_Run_def WSServer_Start_def Let_def limnet.defs loop_of_def
        intro!: loop_empty_ok)
qed (use New_establishes [OF assms(1-3)] assms(4) in
    \<open>auto simp: net_ok_def server_ok_def net_of_def LIMNet_Run_def WSServer_Start_def Let_def limnet.defs loop_of_def\<close>)

text \<open>Stopping a loop keeps the descriptors of its connections.\<close>

lemma EventLoop_Stop_fds:
  assumes f: "OnClose_ok OnClose" and g: "OnPacket_ok OnPacket" and u: "unPacket_ok unPacket" "unPacket_apart unPacket"
    and ok: "loop_ok (\<lambda>_. True) L" and hs: "set hs = {h. \<exists>fd. el_handlers L fd = Some h}"
  shows "loop_fds (snd (EventLoop_Stop OnClose OnPacket unPacket True hs L)) = loop_fds L"
proof -
  define L1 where "L1 = close_handlers (\<lambda>h. loop_call h tcp_Close) hs L"
  have "\<forall>h \<in> set hs. h < length (lp_conns L)" using hs loop_okD(2) [OF ok] by blast
  note q = close_handlers_queue [OF this, folded L1_def]
  have "loop_ok (\<lambda>_. True) (Wake L1)" using loop_ok_fields [OF trivial_inv(1), of "Wake L1" L] ok q by (simp add: Wake_def)
  from loop_handleEvent_fds [OF f g u this, of "-1" 0]
  have "loop_fds (snd (handleEvent (loop_handler OnClose OnPacket unPacket) (loop_exec OnClose) (-1) 0 (Wake L1))) = loop_fds (Wake L1)"
    by (metis prod.collapse)
  then show ?thesis using q by (simp add: EventLoop_Stop_def L1_def [symmetric] loop_fds_def Wake_def)
qed


text \<open>
  A server with two loops. Three clients connect, on descriptors 7, 8 and 9, with errors of
  accept in between; the first and the third share loop 0 and talk to each other, the
  second, on loop 1, is closed by the user, and its descriptor is used again.
\<close>

definition net_start :: "(bytes, unit, int \<Rightarrow> 32 word option, unit, unit, unit) net" where
  "net_start = net_of 0 () (fst (LIMNet_Run (\<lambda>w. w) (projr new_example)))"

definition net_inputs :: "net_input list" where
  "net_inputs =
     [Accepts (Accepted_fd 7 (SockaddrInet4 10 0 0 1 4000)) None ring8 ring8 [Inr [2, 10, 11], Inr [1, 12]] [] EventRead,
      Accepts (AcceptFails 24) None ring8 ring8 [] [] EventRead,
      Accepts (Accepted_fd 8 (SockaddrInet4 10 0 0 2 4000)) None ring8 ring8 [] [] EventRead,
      Accepts (Accepted_fd 5 (SockaddrInet4 10 0 0 3 4000)) (Some 9) ring8 ring8 [] [] EventRead,
      Accepts (Accepted_fd 9 (SockaddrInet4 10 0 0 3 4000)) None ring8 ring8 [] [] EventRead,
      OnLoop 0 (Event 7 EventRead), OnLoop 1 (CloseOn 0), OnLoop 1 Wakeup,
      Accepts (Accepted_fd 8 (SockaddrInet4 10 0 0 4 4000)) None ring8 ring8 [] [] EventRead,
      OnLoop 0 (Event 7 EventRead)]"

lemma example_digits:
  "nat_digits 0 = ''0''" "nat_digits (Suc 0) = ''1''" "nat_digits 2 = ''2''" "nat_digits 3 = ''3''" "nat_digits 4 = ''4''"
  "nat_digits 10 = ''10''" "nat_digits 40 = ''40''"  "nat_digits 400 = ''400''"  "nat_digits 4000 = ''4000''"
  by (simp_all add: nat_digits.simps [of 0] nat_digits.simps [of "Suc 0"] nat_digits.simps [of 2] nat_digits.simps [of 3] nat_digits.simps [of 4]
      nat_digits.simps [of 10]  nat_digits.simps [of 40] nat_digits.simps [of 400] nat_digits.simps [of 4000]
      digit_char_def char_of_eq_iff take_bit_eq_mod)
lemma net_addrs:
  "sockAddrToString (SockaddrInet4 10 0 0 1 4000) = ''10.0.0.1:4000''"
  "sockAddrToString (SockaddrInet4 10 0 0 2 4000) = ''10.0.0.2:4000''"
  "sockAddrToString (SockaddrInet4 10 0 0 3 4000) = ''10.0.0.3:4000''"
  "sockAddrToString (SockaddrInet4 10 0 0 4 4000) = ''10.0.0.4:4000''"
  by (simp_all add: sockAddrToString_def JoinHostPort_def ipv4_string_def Itoa_def byte_digits_def example_digits)

lemma net_dealt:
  "inputs_of 2 0 0 0 net_inputs =
     [Connects 1 7 ''10.0.0.1:4000'' ring8 ring8 [Inr [2, 10, 11], Inr [1, 12]] [],
      Connects 3 9 ''10.0.0.3:4000'' ring8 ring8 [] [], Event 7 EventRead, Event 7 EventRead]"
  "inputs_of 2 0 0 1 net_inputs =
     [Connects 2 8 ''10.0.0.2:4000'' ring8 ring8 [] [], CloseOn 0, Wakeup,
      Connects 4 8 ''10.0.0.4:4000'' ring8 ring8 [] []]"
  by (simp_all add: net_inputs_def accepted_conn_def has_event_def EventRead_def net_addrs)
lemma net_start:
  "new_example = Inr (projr new_example)" "length (sv_loops (projr new_example)) = 2"
  "net_env Default_OnConnect Default_OnClose relay (len_unPacket bb_list) net_inputs net_start"
proof -
  have "case new_example of Inr s \<Rightarrow> True | Inl _ \<Rightarrow> False" by code_simp
  then obtain s where "new_example = Inr s" by (auto split: sum.splits)
  then show "new_example = Inr (projr new_example)" by (metis sum.sel(2))
  show "length (sv_loops (projr new_example)) = 2" by code_simp
  have n: "length (nw_loops net_start) = 2" "nat (sv_nextLoopIndex net_start) = 0" "sv_idGen net_start = 0" by code_simp+
  have "loop_env Default_OnConnect Default_OnClose relay (len_unPacket bb_list) (inputs_of 2 0 0 0 net_inputs) (nw_loops net_start ! 0)"
    unfolding net_dealt by code_simp
  moreover have "loop_env Default_OnConnect Default_OnClose relay (len_unPacket bb_list) (inputs_of 2 0 0 1 net_inputs) (nw_loops net_start ! 1)"
    unfolding net_dealt by code_simp
  ultimately have "\<forall>k < 2. loop_env Default_OnConnect Default_OnClose relay (len_unPacket bb_list)
      (inputs_of 2 0 0 k net_inputs) (nw_loops net_start ! k)"
    by (auto simp: less_2_cases_iff)
  then show "net_env Default_OnConnect Default_OnClose relay (len_unPacket bb_list) net_inputs net_start"
    by (simp add: net_env_def n) (auto simp: net_inputs_def)
qed

lemma net_start_ok: "net_ok net_start" "loops_ok net_start"
proof -
  have new: "(LIMNet_New () [Some (WithAddr ''tcp://127.0.0.1:80''), None] (\<lambda>_ _. Some ()) (Inr ep_example) 2 (\<lambda>_. Inr ep_example)
       \<lparr>lr_socket = Inr 3, lr_bind = None, lr_listen = None, lr_nonblock = None\<rparr>
       :: string new_panic + _) = Inr (projr new_example)"
    using net_start(1) by (simp add: new_example_def)
  from net_of_ok(1,2) [OF new ep_example_documented] ep_example_documented show "net_ok net_start" "loops_ok net_start"
    by (simp_all add: net_start_def)
qed

theorem server_interleaves_loops_witness:
  "\<exists>s'. net_run Default_OnConnect Default_OnClose relay (len_unPacket bb_list) net_inputs net_start = (True, s') \<and>
     map (\<lambda>c. log_delivered (sl_log c)) (lp_conns (nw_loops s' ! 0)) = [[[2, 10, 11], [1, 12]], []] \<and>
     map (\<lambda>c. ci_connected (sl_conn c)) (lp_conns (nw_loops s' ! 1)) = [False, True]"
proof -
  let ?net = "net_run Default_OnConnect Default_OnClose relay (len_unPacket bb_list) net_inputs net_start"
  let ?loop = "\<lambda>k. loop_run Default_OnConnect Default_OnClose relay (len_unPacket bb_list) (inputs_of 2 0 0 k net_inputs) (nw_loops net_start ! k)"
  obtain s' where r: "?net = (True, s')"
    using net_run_ok [OF default_handler_ok(1,3) leaves_input_ok [OF relay_ok]
        unpacks_frames_ok [OF len_unPacket_frames [OF bb_list_laws] len_frame_ok] len_unPacket_apart net_start_ok net_start(3)] by blast
  have ind: "\<forall>j x. OnLoop j x \<in> set net_inputs \<longrightarrow> j < length (nw_loops net_start)" using net_start(3) by (simp add: net_env_def)
  have n: "length (nw_loops net_start) = 2" "nat (sv_nextLoopIndex net_start) = 0" "sv_idGen net_start = 0" by code_simp+
  have "\<forall>k < 2. ?loop k = (True, nw_loops s' ! k)"
    using server_interleaves_loops [OF net_start_ok(1) r ind] unfolding n by blast
  then have "?loop 0 = (True, nw_loops s' ! 0)" "?loop 1 = (True, nw_loops s' ! 1)" by simp_all
  moreover have "map (\<lambda>c. log_delivered (sl_log c)) (lp_conns (snd (?loop 0))) = [[[2, 10, 11], [1, 12]], []]"
    unfolding net_dealt by code_simp
  moreover have "map (\<lambda>c. ci_connected (sl_conn c)) (lp_conns (snd (?loop 1))) = [False, True]"
    unfolding net_dealt by code_simp
  ultimately show ?thesis using r by simp
qed

definition net_visits :: "nat \<Rightarrow> nat list" where
  "net_visits k = (if k = 0 then [1, 0] else [1])"

abbreviation net_end :: "nat \<Rightarrow> (bytes, unit, int \<Rightarrow> 32 word option, unit) loop_world" where
  "net_end k \<equiv> snd (loop_run Default_OnConnect Default_OnClose relay (len_unPacket bb_list)
     (inputs_of 2 0 0 k net_inputs) (nw_loops net_start ! k))"

lemma net_end_handlers:
  "map (\<lambda>k. filter (\<lambda>h. ci_connected (sl_conn (lp_conns (net_end k) ! h))) [0..<length (lp_conns (net_end k))]) [0, 1] = [[0, 1], [1]]"
  "loop_fits (snd (EventLoop_Stop Default_OnClose relay (len_unPacket bb_list) True (net_visits 0) (net_end 0)))"
  "loop_fits (snd (EventLoop_Stop Default_OnClose relay (len_unPacket bb_list) True (net_visits 1) (net_end 1)))"
  unfolding list.map net_dealt by code_simp+


end
