(* ===== verification/Bind_Race.thy ===== *)
theory Bind_Race
  imports Conn_Loop_Props
begin

text \<open>
  handleNewConnection runs in the listener's goroutine, the connection's loop in another:
  between OnConnect and BindHandler the loop can execute the jobs that OnConnect has
  queued. \<open>loop_create\<close> and \<open>loop_bind\<close> are the two halves of \<open>loop_connect\<close>, with the loop's
  steps in between.
\<close>

definition loop_create ::
  "(('b, 'x, 'k, 'u) focused \<Rightarrow> unit call \<times> ('b, 'x, 'k, 'u) focused) \<Rightarrow>
   int \<Rightarrow> int \<Rightarrow> string \<Rightarrow> ring_buffer \<Rightarrow> ring_buffer \<Rightarrow> (nat + bytes) list \<Rightarrow> (nat + nat) list \<Rightarrow>
   ('b, 'x, 'k, 'u) loop_world \<Rightarrow> panic_value option \<times> ('b, 'x, 'k, 'u) loop_world" where
  "loop_create OnConnect clientID connfd addr rb1 rb2 rs ws L =
     (let h = length (lp_conns L);
          conn = NewTCPConn clientID connfd addr rb1 rb2 (lp_idle L) (lp_now L);
          L1 = L\<lparr>lp_conns := lp_conns L @ [\<lparr>sl_conn = conn, sl_reads = rs, sl_writes = ws, sl_log = []\<rparr>]\<rparr>
      in case OnConnect (focus h L1) of
           (Panics v, w) \<Rightarrow> (Some v, put_back h w L1)
         | (Returns _, w) \<Rightarrow> (None, put_back h w L1))"

definition loop_bind ::
  "int \<Rightarrow> nat \<Rightarrow> ('b, 'x, 'k, 'u) loop_world \<Rightarrow> bind_failure option \<times> ('b, 'x, 'k, 'u) loop_world" where
  "loop_bind connfd h L =
     (let (e, w) = tcp_BindHandler connfd h (focus h L) in (map_option NotBound e, put_back h w L))"

lemma loop_connect_split:
  "loop_connect OnConnect clientID connfd addr rb1 rb2 rs ws L =
    (case loop_create OnConnect clientID connfd addr rb1 rb2 rs ws L of
       (Some v, L1) \<Rightarrow> (Some (ConnectPanics v), L1)
     | (None, L1) \<Rightarrow> loop_bind connfd (length (lp_conns L)) L1)"
proof -
  let ?h = "length (lp_conns L)"
  let ?L1 = "L\<lparr>lp_conns := lp_conns L @ [\<lparr>sl_conn = NewTCPConn clientID connfd addr rb1 rb2 (lp_idle L) (lp_now L),
    sl_reads = rs, sl_writes = ws, sl_log = []\<rparr>]\<rparr>"
  obtain r w where w: "OnConnect (focus ?h ?L1) = (r, w)" by fastforce
  obtain e p where p: "ep_AddRead connfd (tw_poll w) = (e, p)" by fastforce
  show ?thesis
    using w p
    by (cases r; cases e) (simp_all add: loop_connect_def loop_create_def loop_bind_def Let_def tcp_BindHandler_def
        BindHandler_def put_back_def focus_def)
qed

text \<open>An OnConnect that refuses the connection by closing it.\<close>

definition refuse :: "('b, 'x, 'k, 'u) focused \<Rightarrow> unit call \<times> ('b, 'x, 'k, 'u) focused" where
  "refuse w = (Returns (), snd (lw_Close (lw_self w) w))"

text \<open>Closing an open connection, whether its descriptor is registered or not.\<close>

lemma handleClose_anyway:
  assumes "OnClose_ok OnClose" "connected w" "epoll_ctl_documented (tw_poll w)"
  shows "\<exists>w'. tcp_handleClose OnClose fd w = (Returns (), w') \<and> \<not> connected w' \<and> tc_outbound (tw_conn w') = None \<and>
    log_closing (tw_log w') = log_closing (tw_log w) @ [PollDeleted fd, OnCloseCalled, FdClosed (own_fd w)] \<and>
    epoll_ctl_documented (tw_poll w') \<and> tw_reads w' = tw_reads w \<and> own_fd w' = own_fd w"
proof -
  obtain e p where p: "ep_Del fd (tw_poll w) = (e, p)" by fastforce
  then have doc: "epoll_ctl_documented p" using ctl_elsewhere [OF assms(3)] by (simp add: ep_Del_def)
  let ?w2 = "tw_note OnCloseCalled (tcp_DeleteFdInLoop fd (w\<lparr>tw_conn := (tw_conn w)\<lparr>ci_connected := False\<rparr>\<rparr>))"
  obtain w3 where w3: "OnClose ?w2 = (Returns (), w3)" "user_step ?w2 w3"
    using assms(1) by (meson OnClose_ok_def)
  with p doc assms(2) show ?thesis
    by (auto simp: tcp_handleClose_def tcp_DeleteFdInLoop_def DeleteFdInLoop_def tw_note_def tcp_release_def user_step_def)
qed


definition refused :: "(bytes, unit, int \<Rightarrow> 32 word option, unit) loop_world" where
  "refused = snd (loop_step Default_OnConnect Default_OnClose relay (len_unPacket bb_list) Wakeup
     (snd (loop_create refuse 1 7 ''10.0.0.1:4000'' ring8 ring8 [Inr [0]] [] loop_example)))"


end
