(* ===== verification/Late_Bind.thy ===== *)
theory Late_Bind
  imports Bind_Race
begin

text \<open>
  When the two halves of handleNewConnection can be taken for one step. A connection that
  nothing addresses before it is bound is, until then, one more entry at the end of the
  loop's list of connections. \<open>tcp_context\<close> is the contract of such an addition to the
  state around a connection: it commutes with the reading and the changing of everything
  an operation works on, and so with every operation whose callbacks it commutes with.
\<close>

locale tcp_context =
  fixes add :: "('h, 'b, 'x, 'k, 'm) tcp_world_scheme \<Rightarrow> ('h, 'b, 'x, 'k, 'm) tcp_world_scheme"
  assumes reading: "tw_conn (add w) = tw_conn w" "tw_poll (add w) = tw_poll w" "tw_reads (add w) = tw_reads w"
      "tw_writes (add w) = tw_writes w" "tw_idle (add w) = tw_idle w" "tw_now (add w) = tw_now w"
      "tw_log (add w) = tw_log w" "el_jobs (add w) = el_jobs w" "el_handlers (add w) = el_handlers w"
      "el_eventHandling (add w) = el_eventHandling w" "el_wakes (add w) = el_wakes w"
    and changing: "(add w)\<lparr>tw_conn := c\<rparr> = add (w\<lparr>tw_conn := c\<rparr>)" "(add w)\<lparr>tw_poll := p\<rparr> = add (w\<lparr>tw_poll := p\<rparr>)"
      "(add w)\<lparr>tw_reads := rs\<rparr> = add (w\<lparr>tw_reads := rs\<rparr>)" "(add w)\<lparr>tw_writes := ws\<rparr> = add (w\<lparr>tw_writes := ws\<rparr>)"
      "(add w)\<lparr>tw_log := l\<rparr> = add (w\<lparr>tw_log := l\<rparr>)" "(add w)\<lparr>el_jobs := js\<rparr> = add (w\<lparr>el_jobs := js\<rparr>)"
      "(add w)\<lparr>el_handlers := hs\<rparr> = add (w\<lparr>el_handlers := hs\<rparr>)" "(add w)\<lparr>el_wakes := n\<rparr> = add (w\<lparr>el_wakes := n\<rparr>)"
begin

definition blind :: "(('h, 'b, 'x, 'k, 'm) tcp_world_scheme \<Rightarrow> 'a \<times> ('h, 'b, 'x, 'k, 'm) tcp_world_scheme) \<Rightarrow> bool" where
  "blind f \<longleftrightarrow> (\<forall>w. f (add w) = apsnd add (f w))"

lemma blindD: "blind f \<Longrightarrow> f (add w) = apsnd add (f w)"
  by (simp add: blind_def)

lemmas ctx = reading changing

lemma small_ctx:
  "tw_note l (add w) = add (tw_note l w)" "set_outbound ob (add w) = add (set_outbound ob w)"
  "tcp_EnableReadWrite (add w) = add (tcp_EnableReadWrite w)" "tcp_EnableRead (add w) = add (tcp_EnableRead w)"
  "tcp_DeleteFdInLoop fd (add w) = add (tcp_DeleteFdInLoop fd w)" "tcp_release (add w) = add (tcp_release w)"
  "tcp_written (add w) = add (tcp_written w)" "Trigger j (add w) = add (Trigger j w)"
  by (simp_all add: tw_note_def set_outbound_def tcp_EnableReadWrite_def tcp_EnableRead_def tcp_DeleteFdInLoop_def
      DeleteFdInLoop_def tcp_release_def tcp_written_def Trigger_def Push_def Wake_def Let_def ctx
      split: prod.split option.split)

lemma sys_ctx: "sys_write p (add w) = apsnd add (sys_write p w)" "sys_read (add w) = apsnd add (sys_read w)"
  by (simp_all add: sys_write_def sys_read_def Let_def ctx small_ctx split: list.split sum.split)

lemma enqueue_ctx: "tcp_enqueue p (add w) = apsnd add (tcp_enqueue p w)"
  by (simp add: tcp_enqueue_def ctx small_ctx split: option.split)

lemma on_conn_ctx: "on_conn f (add w) = apsnd add (on_conn f w)"
  by (simp add: on_conn_def ctx split: option.split)

lemma handleClose_ctx:
  assumes "blind OnClose"
  shows "tcp_handleClose OnClose fd (add w) = apsnd add (tcp_handleClose OnClose fd w)"
  by (simp add: tcp_handleClose_def Let_def ctx small_ctx blindD [OF assms] split: prod.split call.split)

lemma write_ctx:
  assumes "blind OnClose"
  shows "tcp_write OnClose buf (add w) = apsnd add (tcp_write OnClose buf w)"
  by (simp add: tcp_write_def Let_def ctx small_ctx sys_ctx enqueue_ctx handleClose_ctx [OF assms] apsnd_def map_prod_def
      split: prod.split call.split option.split sum.split)

lemma handleWrite_ctx:
  assumes "blind OnClose"
  shows "tcp_handleWrite OnClose (add w) = apsnd add (tcp_handleWrite OnClose w)"
  by (simp add: tcp_handleWrite_def Let_def ctx small_ctx sys_ctx handleClose_ctx [OF assms] split: prod.split option.split sum.split)

text \<open>A packet loop that ends does so with the addition, too.\<close>

lemma packets_ctx:
  assumes "blind OnClose" "\<And>p. blind (OnPacket p)" "blind unPacket"
    and "tcp_packets OnClose OnPacket unPacket w = Some y"
  shows "tcp_packets OnClose OnPacket unPacket (add w) = Some (apsnd add y)"
proof -
  have "blind f \<and> (\<forall>p. blind (g p)) \<and> blind u \<longrightarrow> tcp_packets f g u (add w) = Some (apsnd add y)"
    if "tcp_packets f g u w = Some y" for f g u w y
  proof (rule tcp_packets.raw_induct [OF _ that], rule impI)
    fix loop f g u w y
    assume IH: "\<And>f g u w y. loop f g u w = Some y \<Longrightarrow>
          blind f \<and> (\<forall>p. blind (g p)) \<and> blind u \<longrightarrow> tcp_packets f g u (add w) = Some (apsnd add y)"
      and step: "(case u w of
        (Panics v, w1) \<Rightarrow> Some (Panics v, w1)
      | (Returns None, w1) \<Rightarrow> Some (Returns (), w1)
      | (Returns (Some packet), w1) \<Rightarrow>
          (case g packet (tw_note (Delivered packet) w1) of
             (Panics v, w2) \<Rightarrow> Some (Panics v, w2)
           | (Returns out, w2) \<Rightarrow>
               (case (if length out > 0 then tcp_write f out w2 else (Returns (), w2)) of
                  (Panics v, w3) \<Rightarrow> Some (Panics v, w3)
                | (Returns _, w3) \<Rightarrow> loop f g u w3))) = Some y"
      and k: "blind f \<and> (\<forall>p. blind (g p)) \<and> blind u"
    from k have b: "blind f" "\<And>p. blind (g p)" "blind u" by simp_all
    have again: "tcp_packets f g u (add w3) = Some (apsnd add y)" if "loop f g u w3 = Some y" for w3
      using IH [OF that] k by blast
    have sent: "(if length out > 0 then tcp_write f out (add w2) else (Returns (), add w2)) =
        apsnd add (if length out > 0 then tcp_write f out w2 else (Returns (), w2))" for out w2
      by (simp add: write_ctx [OF b(1)])
    obtain r1 w1 where w1: "u w = (r1, w1)" by fastforce
    show "tcp_packets f g u (add w) = Some (apsnd add y)"
    proof (cases "\<exists>p. r1 = Returns (Some p)")
      case False
      with step w1 show ?thesis
        by (subst tcp_packets.simps) (auto simp: blindD [OF b(3)] split: call.splits option.splits)
    next
      case True
      then obtain p where p: "r1 = Returns (Some p)" by blast
      obtain r2 w2 where w2: "g p (tw_note (Delivered p) w1) = (r2, w2)" by fastforce
      show ?thesis
      proof (cases r2)
        case (Returns out)
        obtain r3 w3 where w3: "(if length out > 0 then tcp_write f out w2 else (Returns (), w2)) = (r3, w3)"
          by fastforce
        with step w1 p w2 Returns again [of w3] sent [of out w2] show ?thesis
          by (subst tcp_packets.simps)
             (cases r3; auto simp: blindD [OF b(3)] blindD [OF b(2)] small_ctx simp del: length_greater_0_conv)
      qed (use step w1 p w2 in \<open>subst tcp_packets.simps, auto simp: blindD [OF b(3)] blindD [OF b(2)] small_ctx\<close>)
    qed
  qed
  with assms show ?thesis by blast
qed

lemma handleRead_ctx:
  assumes "blind OnClose" "\<And>p. blind (OnPacket p)" "blind unPacket"
    and "tcp_handleRead OnClose OnPacket unPacket w = Some y"
  shows "tcp_handleRead OnClose OnPacket unPacket (add w) = Some (apsnd add y)"
  using assms(4) packets_ctx [OF assms(1-3)]
  by (auto simp: tcp_handleRead_def sys_ctx ctx handleClose_ctx [OF assms(1)] on_conn_ctx
      split: prod.splits sum.splits if_splits option.splits call.splits)

lemma Handle_ctx:
  assumes "blind OnClose" "\<And>p. blind (OnPacket p)" "blind unPacket"
    and "tcp_Handle OnClose OnPacket unPacket fd ev w = Some y"
  shows "tcp_Handle OnClose OnPacket unPacket fd ev (add w) = Some (apsnd add y)"
proof -
  let ?w = "\<lambda>w0. if tw_idle w0 > 0 then w0\<lparr>tw_conn := (tw_conn w0)\<lparr>tc_activeTime := tw_now w0 div 1000000000\<rparr>\<rparr> else w0"
  define v where "v = ?w w"
  have v: "?w (add w) = add v" by (simp add: v_def ctx)
  show ?thesis
    using assms(4) handleRead_ctx [OF assms(1-3), where w = v and y = y]
    unfolding tcp_Handle_def Let_def v v_def [symmetric]
    by (auto simp: ctx handleClose_ctx [OF assms(1)] handleWrite_ctx [OF assms(1)] split: option.splits if_splits)
qed

lemma job_ctx:
  assumes "blind OnClose"
  shows "tcp_job_call OnClose j (add w) = apsnd add (tcp_job_call OnClose j w)"
  by (simp add: tcp_job_call_def ctx write_ctx [OF assms] handleClose_ctx [OF assms] split: tcp_job.split)

text \<open>Calls from other goroutines.\<close>

lemma calls_ctx:
  "tcp_Write p (add w) = apsnd add (tcp_Write p w)" "tcp_Close (add w) = apsnd add (tcp_Close w)"
  "tcp_closeTimeoutConn (add w) = apsnd add (tcp_closeTimeoutConn w)"
  by (simp_all add: tcp_Write_def tcp_Close_def tcp_closeTimeoutConn_def Let_def ctx small_ctx)

end

subsection \<open>A connection that is not bound yet\<close>

text \<open>The slot of the new connection, where the loop has \<open>n\<close> connections.\<close>

definition late :: "nat \<Rightarrow> ('b, 'x) slot \<Rightarrow> ('b, 'x, 'k, 'u) focused \<Rightarrow> ('b, 'x, 'k, 'u) focused" where
  "late n c w = (if length (lw_conns w) = n then w\<lparr>lw_conns := lw_conns w @ [c]\<rparr> else w)"

interpretation late: tcp_context "late n c" for n c
  by unfold_locales (simp_all add: late_def)

text \<open>Jobs for the \<open>n\<close> connections only.\<close>

definition jobs_below :: "nat \<Rightarrow> (nat \<times> tcp_job) list \<Rightarrow> bool" where
  "jobs_below n js \<longleftrightarrow> (\<forall>(h, j) \<in> set js. h < n)"

lemma jobs_below_simps [simp]:
  "jobs_below n []" "jobs_below n ((h, j) # js) \<longleftrightarrow> h < n \<and> jobs_below n js"
  "jobs_below n (js @ ks) \<longleftrightarrow> jobs_below n js \<and> jobs_below n ks"
  "jobs_below n (map (Pair h) js') \<longleftrightarrow> js' = [] \<or> h < n"
  by (auto simp: jobs_below_def)

definition queues_below ::
  "nat \<Rightarrow> ('b, 'x, 'k, 'u) focused \<Rightarrow> ('b, 'x, 'k, 'u) focused \<Rightarrow> bool" where
  "queues_below n w w' \<longleftrightarrow> own_fd w' = own_fd w \<and> (jobs_below n (lw_queue w) \<longrightarrow> jobs_below n (lw_queue w'))"

interpretation queue: tcp_frame "queues_below n" for n
  by unfold_locales (auto simp: queues_below_def tw_note_def DeleteFdInLoop_def)

text \<open>A callback that was not given the new connection neither looks at it nor queues jobs for it.\<close>

definition unaware ::
  "nat \<Rightarrow> ('b, 'x) slot \<Rightarrow> (('b, 'x, 'k, 'u) focused \<Rightarrow> 'a \<times> ('b, 'x, 'k, 'u) focused) \<Rightarrow> bool" where
  "unaware n c f \<longleftrightarrow>
     (\<forall>w. f (late n c w) = apsnd (late n c) (f w) \<and> queues_below n w (snd (f w)))"

lemma unawareD:
  assumes "unaware n c f"
  shows "late.blind n c f" "f w = (r, w') \<Longrightarrow> queues_below n w w'"
  using assms by (auto simp: unaware_def late.blind_def) (metis snd_conv)

definition loop_late :: "('b, 'x) slot \<Rightarrow> ('b, 'x, 'k, 'u) loop_world \<Rightarrow> ('b, 'x, 'k, 'u) loop_world" where
  "loop_late c L = L\<lparr>lp_conns := lp_conns L @ [c]\<rparr>"

lemma loop_late_simps [simp]:
  "el_jobs (loop_late c L) = el_jobs L" "el_handlers (loop_late c L) = el_handlers L"
  "lp_conns (loop_late c L) = lp_conns L @ [c]"
  "(loop_late c L)\<lparr>el_eventHandling := b\<rparr> = loop_late c (L\<lparr>el_eventHandling := b\<rparr>)"
  "(loop_late c L)\<lparr>el_jobs := js\<rparr> = loop_late c (L\<lparr>el_jobs := js\<rparr>)"
  "(loop_late c L)\<lparr>lp_now := t\<rparr> = loop_late c (L\<lparr>lp_now := t\<rparr>)"
  by (simp_all add: loop_late_def)

lemma focus_late: "h < length (lp_conns L) \<Longrightarrow> focus h (loop_late c L) = late (length (lp_conns L)) c (focus h L)"
  by (simp add: focus_def loop_late_def late_def Let_def nth_append)

lemma put_back_late: "h < length (lp_conns L) \<Longrightarrow> put_back h (late n c w) (loop_late c L) = loop_late c (put_back h w L)"
  by (simp add: put_back_def loop_late_def late_def list_update_append)

text \<open>What a step leaves as it is.\<close>

definition same_size :: "('b, 'x, 'k, 'u) loop_world \<Rightarrow> ('b, 'x, 'k, 'u) loop_world \<Rightarrow> bool" where
  "same_size L L' \<longleftrightarrow> length (lp_conns L') = length (lp_conns L) \<and> lp_idle L' = lp_idle L \<and> lp_now L' = lp_now L"

lemma same_size_put_back [simp]: "same_size L (put_back h w L)"
  by (simp add: same_size_def put_back_def)

lemma same_size_trans: "same_size L L1 \<Longrightarrow> same_size L1 L2 \<Longrightarrow> same_size L L2"
  by (simp add: same_size_def)

lemma queued_below:
  assumes "queues_below n (focus h L) w" "h < n" "jobs_below n (el_jobs L)"
  shows "jobs_below n (el_jobs (put_back h w L))"
  using assms by (simp add: queues_below_def put_back_def focus_def Let_def)

lemma exec_late:
  assumes f: "unaware (length (lp_conns L)) c OnClose" and hj: "fst hj < length (lp_conns L)"
    and jobs: "jobs_below (length (lp_conns L)) (el_jobs L)" and res: "loop_exec OnClose hj L = (out, L')"
  shows "loop_exec OnClose hj (loop_late c L) = (out, loop_late c L') \<and> same_size L L' \<and>
    jobs_below (length (lp_conns L)) (el_jobs L')"
proof -
  let ?n = "length (lp_conns L)"
  obtain h j where h: "hj = (h, j)" "h < ?n" using hj by (cases hj) auto
  obtain r w where w: "tcp_job_call OnClose j (focus h L) = (r, w)" by fastforce
  have "queues_below ?n (focus h L) w"
    using queue.job_keeps [of ?n OnClose "focus h L" j] w unawareD(2) [OF f] by (simp add: queue.keeps_OnClose_def)
  moreover have "tcp_job_call OnClose j (focus h (loop_late c L)) = (r, late ?n c w)"
    using late.job_ctx [OF unawareD(1) [OF f], of j "focus h L"] w focus_late [OF h(2)] by simp
  ultimately show ?thesis
    using res w h queued_below [of ?n h L w] jobs
    by (cases r) (auto simp: loop_exec_def tcp_exec_def tcp_outcome_def put_back_late)
qed

lemma jobs_late:
  "unaware (length (lp_conns L)) c OnClose \<Longrightarrow> jobs_below (length (lp_conns L)) js \<Longrightarrow>
    jobs_below (length (lp_conns L)) (el_jobs L) \<Longrightarrow> run_jobs (loop_exec OnClose) js L = (out, L') \<Longrightarrow>
    run_jobs (loop_exec OnClose) js (loop_late c L) = (out, loop_late c L') \<and> same_size L L' \<and>
    jobs_below (length (lp_conns L)) (el_jobs L')"
proof (induction js arbitrary: L)
  case (Cons hj js)
  obtain out1 L1 where L1: "loop_exec OnClose hj L = (out1, L1)" by fastforce
  have "fst hj < length (lp_conns L)" using Cons.prems(2) by (cases hj) simp
  from exec_late [OF Cons.prems(1) this Cons.prems(3) L1]
  have 1: "loop_exec OnClose hj (loop_late c L) = (out1, loop_late c L1)" "same_size L L1"
    "jobs_below (length (lp_conns L1)) (el_jobs L1)" "length (lp_conns L1) = length (lp_conns L)"
    by (simp_all add: same_size_def)
  have js: "jobs_below (length (lp_conns L1)) js" using Cons.prems(2) 1(4) by (cases hj) simp
  show ?case
  proof (cases "\<exists>v. out1 = Panicked v")
    case True
    with 1 L1 Cons.prems(4) show ?thesis by auto
  next
    case False
    with Cons.prems L1 1 have "run_jobs (loop_exec OnClose) js L1 = (out, L')" "unaware (length (lp_conns L1)) c OnClose"
      by (auto split: outcome.splits)
    from Cons.IH [OF this(2) js 1(3) this(1)] False 1 show ?thesis by (auto simp: same_size_def split: outcome.split)
  qed
qed (simp add: same_size_def)

text \<open>The callbacks of a loop that a new connection was not given to.\<close>

definition callbacks_ok ::
  "nat \<Rightarrow> ('b, 'x) slot \<Rightarrow> (('b, 'x, 'k, 'u) focused \<Rightarrow> unit call \<times> ('b, 'x, 'k, 'u) focused) \<Rightarrow>
   (bytes \<Rightarrow> ('b, 'x, 'k, 'u) focused \<Rightarrow> bytes call \<times> ('b, 'x, 'k, 'u) focused) \<Rightarrow>
   (('b, 'x, 'k, 'u) focused \<Rightarrow> bytes option call \<times> ('b, 'x, 'k, 'u) focused) \<Rightarrow> bool" where
  "callbacks_ok n c OnClose OnPacket unPacket \<longleftrightarrow>
     OnClose_ok OnClose \<and> OnPacket_ok OnPacket \<and> unPacket_ok unPacket \<and> unPacket_apart unPacket \<and>
     unaware n c OnClose \<and> (\<forall>p. unaware n c (OnPacket p)) \<and> unaware n c unPacket"

lemma handler_late:
  assumes cb: "callbacks_ok (length (lp_conns L)) c OnClose OnPacket unPacket" and ok: "loop_ok (\<lambda>_. True) L"
    and hd: "el_handlers L fd = Some h" and jobs: "jobs_below (length (lp_conns L)) (el_jobs L)"
    and res: "loop_handler OnClose OnPacket unPacket h fd ev L = (out, L')"
  shows "loop_handler OnClose OnPacket unPacket h fd ev (loop_late c L) = (out, loop_late c L') \<and> same_size L L' \<and>
    jobs_below (length (lp_conns L)) (el_jobs L')"
proof -
  let ?n = "length (lp_conns L)"
  note cbs = cb [unfolded callbacks_ok_def]
  from loop_okD(2) [OF ok hd] have h: "h < ?n" "connected (focus h L)" "own_fd (focus h L) = fd" by simp_all
  then have "tcp_inv (focus h L)" using loop_okD(3) [OF ok h(1)] by simp
  then obtain r w where w: "tcp_Handle OnClose OnPacket unPacket fd ev (focus h L) = Some (r, w)"
    using tcp_Handle_inv [of OnClose OnPacket unPacket "focus h L" fd ev] cbs h by auto
  have "queues_below ?n (focus h L) w"
    using queue.Handle_keeps [of ?n OnClose OnPacket unPacket fd "focus h L" ev "(r, w)"] w h(3) cbs
    by (auto simp: queue.keeps_OnClose_def queue.keeps_OnPacket_def queue.keeps_unPacket_def dest: unawareD(2))
  moreover have "tcp_Handle OnClose OnPacket unPacket fd ev (focus h (loop_late c L)) = Some (r, late ?n c w)"
    using late.Handle_ctx [OF _ _ _ w, of ?n c] cbs focus_late [OF h(1)] by (simp add: unawareD(1))
  ultimately show ?thesis
    using res w h(1) queued_below [of ?n h L w] jobs
    by (cases r) (auto simp: loop_handler_def tcp_handler_def tcp_outcome_def put_back_late)
qed

lemma handleEvent_late:
  assumes cb: "callbacks_ok (length (lp_conns L)) c OnClose OnPacket unPacket" and ok: "loop_ok (\<lambda>_. True) L"
    and jobs: "jobs_below (length (lp_conns L)) (el_jobs L)"
    and res: "handleEvent (loop_handler OnClose OnPacket unPacket) (loop_exec OnClose) fd ev L = (b, L')"
  shows "handleEvent (loop_handler OnClose OnPacket unPacket) (loop_exec OnClose) fd ev (loop_late c L) = (b, loop_late c L') \<and>
    same_size L L' \<and> jobs_below (length (lp_conns L)) (el_jobs L')"
proof -
  let ?n = "length (lp_conns L)" and ?L1 = "L\<lparr>el_eventHandling := True\<rparr>"
  let ?call = "\<lambda>L. if fd \<noteq> -1 then (case el_handlers L fd of
       Some h \<Rightarrow> loop_handler OnClose OnPacket unPacket h fd ev L | None \<Rightarrow> (Returned, L)) else (Returned, L)"
  obtain out L2 where L2: "?call ?L1 = (out, L2)" by fastforce
  have L1: "loop_ok (\<lambda>_. True) ?L1" "lp_conns ?L1 = lp_conns L" "same_size L ?L1" "el_jobs ?L1 = el_jobs L"
    using loop_ok_fields [of "\<lambda>_. True" ?L1 L] ok by (simp_all add: local_to_conn_def same_size_def)
  have called: "?call (loop_late c ?L1) = (out, loop_late c L2) \<and> same_size ?L1 L2 \<and> jobs_below ?n (el_jobs L2)"
  proof (cases "fd \<noteq> -1 \<and> el_handlers ?L1 fd \<noteq> None")
    case True
    then obtain h where h: "el_handlers ?L1 fd = Some h" by blast
    have "loop_handler OnClose OnPacket unPacket h fd ev ?L1 = (out, L2)" using L2 True h by simp
    from handler_late [OF _ L1(1) h _ this] cb jobs True h show ?thesis by simp
  next
    case False
    with L2 jobs show ?thesis by (auto simp: same_size_def)
  qed
  then have size2: "length (lp_conns L2) = ?n" by (simp add: same_size_def)
  let ?L3 = "L2\<lparr>el_eventHandling := False\<rparr>"
  obtain out3 L4 where L4: "run_jobs (loop_exec OnClose) (el_jobs ?L3) (?L3\<lparr>el_jobs := []\<rparr>) = (out3, L4)" by fastforce
  have exec: "run_jobs (loop_exec OnClose) (el_jobs ?L3) (loop_late c (?L3\<lparr>el_jobs := []\<rparr>)) = (out3, loop_late c L4) \<and>
      same_size (?L3\<lparr>el_jobs := []\<rparr>) L4 \<and> jobs_below ?n (el_jobs L4)"
    using jobs_late [of "?L3\<lparr>el_jobs := []\<rparr>" c OnClose "el_jobs ?L3" out3 L4] L4 called size2 cb
    by (simp add: callbacks_ok_def)
  have eq: "(b, L') = (case out of Panicked v \<Rightarrow> (recovered v, L2)
       | _ \<Rightarrow> (case out3 of Panicked v \<Rightarrow> (recovered v, L4) | _ \<Rightarrow> (True, L4)))"
    using L4 unfolding res [symmetric] handleEvent_def Let_def L2 ExecuteJobs_def by (simp split: outcome.split)
  have late: "handleEvent (loop_handler OnClose OnPacket unPacket) (loop_exec OnClose) fd ev (loop_late c L) =
      (case out of Panicked v \<Rightarrow> (recovered v, loop_late c L2)
       | _ \<Rightarrow> (case out3 of Panicked v \<Rightarrow> (recovered v, loop_late c L4) | _ \<Rightarrow> (True, loop_late c L4)))"
    using called exec unfolding handleEvent_def Let_def ExecuteJobs_def loop_late_simps by (simp split: outcome.split)
  show ?thesis using eq late called exec L1(3) by (cases out; cases out3) (auto simp: same_size_def)
qed

subsection \<open>Runs between the two halves\<close>

text \<open>A step that makes no connection, addresses none but the first \<open>n\<close> and does not move the clock.\<close>

fun leaves_alone :: "nat \<Rightarrow> int \<Rightarrow> loop_input \<Rightarrow> bool" where
  "leaves_alone n now (Event fd ev) = True"
| "leaves_alone n now Wakeup = True"
| "leaves_alone n now (WriteOn h p) = (h < n)"
| "leaves_alone n now (CloseOn h) = (h < n)"
| "leaves_alone n now (TimerOn h t) = (h < n \<and> t = now)"
| "leaves_alone n now (Connects i fd addr rb1 rb2 rs ws) = False"

lemma call_late:
  assumes "\<And>n c w. f (late n c w) = apsnd (late n c) (f w)" "\<And>w. lw_queue (snd (f w)) = lw_queue w"
    and "h < length (lp_conns L)" "jobs_below (length (lp_conns L)) (el_jobs L)"
  shows "loop_call h f (loop_late c L) = loop_late c (loop_call h f L) \<and> same_size L (loop_call h f L) \<and>
    jobs_below (length (lp_conns L)) (el_jobs (loop_call h f L))"
  using assms(2) [of "focus h L"] assms(3,4)
  by (simp add: loop_call_def focus_late assms(1) put_back_late) (simp add: put_back_def focus_def Let_def)

lemma calls_queue:
  fixes w :: "('b, 'x, 'k, 'u) focused"
  shows "lw_queue (snd (tcp_Write p w)) = lw_queue w" "lw_queue (snd (tcp_Close w)) = lw_queue w"
    "lw_queue (snd (tcp_closeTimeoutConn w)) = lw_queue w"
  by (simp_all add: tcp_Write_def tcp_Close_def tcp_closeTimeoutConn_def Let_def Trigger_def Push_def Wake_def)

lemma step_late:
  assumes cb: "callbacks_ok (length (lp_conns L)) c OnClose OnPacket unPacket" and ok: "loop_ok (\<lambda>_. True) L"
    and jobs: "jobs_below (length (lp_conns L)) (el_jobs L)" and i: "leaves_alone (length (lp_conns L)) (lp_now L) i"
    and res: "loop_step OnConnect OnClose OnPacket unPacket i L = (b, L')"
  shows "loop_step OnConnect OnClose OnPacket unPacket i (loop_late c L) = (b, loop_late c L') \<and> same_size L L' \<and>
    jobs_below (length (lp_conns L)) (el_jobs L')"
proof (cases i)
  case (Event fd ev)
  with res handleEvent_late [OF cb ok jobs] show ?thesis by simp
next
  case Wakeup
  with res handleEvent_late [OF cb ok jobs] show ?thesis by simp
next
  case (WriteOn h p)
  with res i call_late [where f = "tcp_Write p", OF late.calls_ctx(1) calls_queue(1) _ jobs] show ?thesis by auto
next
  case (CloseOn h)
  with res i call_late [OF late.calls_ctx(2) calls_queue(2) _ jobs] show ?thesis by auto
next
  case (TimerOn h t)
  then have "L\<lparr>lp_now := t\<rparr> = L" using i by simp
  with TimerOn res i call_late [OF late.calls_ctx(3) calls_queue(3) _ jobs] show ?thesis by auto
qed (use i in simp)

lemma run_late:
  assumes f: "OnClose_ok OnConnect" and cb: "callbacks_ok n c OnClose OnPacket unPacket"
  shows "loop_ok (\<lambda>_. True) L \<Longrightarrow> length (lp_conns L) = n \<Longrightarrow> jobs_below n (el_jobs L) \<Longrightarrow>
    \<forall>i \<in> set is. leaves_alone n (lp_now L) i \<Longrightarrow> loop_env OnConnect OnClose OnPacket unPacket is L \<Longrightarrow>
    \<exists>L'. loop_run OnConnect OnClose OnPacket unPacket is L = (True, L') \<and>
      loop_run OnConnect OnClose OnPacket unPacket is (loop_late c L) = (True, loop_late c L') \<and> same_size L L'"
proof (induction "is" arbitrary: L)
  case (Cons i "is")
  note cbs = cb [unfolded callbacks_ok_def]
  obtain b L1 where s: "loop_step OnConnect OnClose OnPacket unPacket i L = (b, L1)" by fastforce
  have P: "local_to_conn (\<lambda>_. True)" "holds_fresh (\<lambda>_. True)" "kept_by_calls (\<lambda>_. True)"
    "kept_by_handler OnClose OnPacket unPacket (\<lambda>_. True)"
    by (simp_all add: local_to_conn_def holds_fresh_def kept_by_calls_def kept_by_handler_def)
  have 1: "b" "loop_ok (\<lambda>_. True) L1"
    using loop_step_ok [OF f _ _ _ _ P Cons.prems(1) _ s] cbs Cons.prems(5) s by (simp_all add: Let_def)
  have 2: "loop_step OnConnect OnClose OnPacket unPacket i (loop_late c L) = (b, loop_late c L1)" "same_size L L1"
    "jobs_below n (el_jobs L1)"
    using step_late [OF _ Cons.prems(1) _ _ s] cb Cons.prems(2-4) by simp_all
  then obtain L' where "loop_run OnConnect OnClose OnPacket unPacket is L1 = (True, L')" "same_size L1 L'"
    "loop_run OnConnect OnClose OnPacket unPacket is (loop_late c L1) = (True, loop_late c L')"
    using Cons.IH [OF 1(2)] Cons.prems(2,4,5) s by (auto simp: same_size_def Let_def)
  with 1 2 s show ?case by (auto simp: same_size_def)
qed (simp add: same_size_def)

text \<open>An OnConnect that sets fields of its connection makes the slot of the new connection.\<close>

lemma create_late:
  assumes "\<forall>w. OnConnect w = (Returns (), w\<lparr>tw_conn := g (tw_conn w)\<rparr>)"
  shows "loop_create OnConnect i fd addr rb1 rb2 rs ws L =
    (None, loop_late \<lparr>sl_conn = g (NewTCPConn i fd addr rb1 rb2 (lp_idle L) (lp_now L)),
       sl_reads = rs, sl_writes = ws, sl_log = []\<rparr> L)"
  by (simp add: loop_create_def loop_late_def assms Let_def put_back_def focus_def)

text \<open>
  C33. A new connection that nothing addresses before it is bound is made in one step as far
  as anybody can tell. However many events, jobs, timers and calls on the other
  connections the loop handles between the two halves of handleNewConnection, they go as
  they would without the new connection, and the loop, the error included, is afterwards
  what it is if both halves are done in one step at the end. (OnConnect sets fields of
  its connection; the clock, of which NewTCPConn takes the second, does not move.)
\<close>
theorem connecting_is_one_step:
  assumes "loop_ok (\<lambda>_. True) L" "jobs_below (length (lp_conns L)) (el_jobs L)"
    and "OnClose_ok OnConnect" "\<forall>w. OnConnect w = (Returns (), w\<lparr>tw_conn := g (tw_conn w)\<rparr>)"
    and "c = \<lparr>sl_conn = g (NewTCPConn i fd addr rb1 rb2 (lp_idle L) (lp_now L)), sl_reads = rs, sl_writes = ws, sl_log = []\<rparr>"
    and "callbacks_ok (length (lp_conns L)) c OnClose OnPacket unPacket"
    and "loop_env OnConnect OnClose OnPacket unPacket xs L"
    and "\<forall>x \<in> set xs. leaves_alone (length (lp_conns L)) (lp_now L) x"
  shows "\<exists>L1 L2. loop_run OnConnect OnClose OnPacket unPacket xs L = (True, L1) \<and>
    loop_run OnConnect OnClose OnPacket unPacket xs (snd (loop_create OnConnect i fd addr rb1 rb2 rs ws L)) = (True, L2) \<and>
    loop_bind fd (length (lp_conns L)) L2 = loop_connect OnConnect i fd addr rb1 rb2 rs ws L1"
proof -
  have create: "loop_create OnConnect i fd addr rb1 rb2 rs ws L' = (None, loop_late c L')" if "same_size L L'" for L'
    using create_late [OF assms(4), of i fd addr rb1 rb2 rs ws L'] that by (simp add: assms(5) same_size_def)
  obtain L1 where L1: "loop_run OnConnect OnClose OnPacket unPacket xs L = (True, L1)"
    "loop_run OnConnect OnClose OnPacket unPacket xs (loop_late c L) = (True, loop_late c L1)" "same_size L L1"
    using run_late [OF assms(3,6,1) HOL.refl assms(2,8,7)] by blast
  have "loop_connect OnConnect i fd addr rb1 rb2 rs ws L1 = loop_bind fd (length (lp_conns L)) (loop_late c L1)"
    using create [OF L1(3)] L1(3) by (simp add: loop_connect_split same_size_def)
  moreover have "snd (loop_create OnConnect i fd addr rb1 rb2 rs ws L) = loop_late c L"
    using create [of L] by (simp add: same_size_def)
  ultimately show ?thesis using L1 by auto
qed

text \<open>
  Two clients that relay to each other while a third connects, whose OnConnect sets its
  status.
\<close>

lemma relay_unaware: "2 \<le> n \<Longrightarrow> unaware n c (relay p)"
  by (auto simp: unaware_def relay_def late_def lw_Write_def lw_connected_def lw_Trigger_def Wake_def queues_below_def
      nth_append Let_def)

lemma on_conn_below: "keeps_fd f \<Longrightarrow> on_conn f w1 = (r, w2) \<Longrightarrow> queues_below n w w1 \<Longrightarrow> queues_below n w w2"
  using queue.on_conn_keeps [of n w w1 f] by (auto simp: keeps_fd_def)

lemma len_unPacket_unaware: "unaware n c (len_unPacket A :: ('b, 'x, 'k, 'u) focused \<Rightarrow> _)"
proof -
  have "len_unPacket A (late n c w) = apsnd (late n c) (len_unPacket A w)" for w :: "('b, 'x, 'k, 'u) focused"
    by (simp add: len_unPacket_def late.on_conn_ctx split: prod.split call.split option.split)
  moreover have "queues_below n w (snd (len_unPacket A w))" for w :: "('b, 'x, 'k, 'u) focused"
    using queue.refl [of n w]
    by (auto simp: len_unPacket_def split: prod.splits call.splits option.splits
        dest!: on_conn_below [OF input_calls_fd(1)] on_conn_below [OF input_calls_fd(3) [simplified]] on_conn_below [OF input_calls_fd(4)])
  ultimately show ?thesis by (simp add: unaware_def)
qed

definition greet :: "('b, 'x, 'k, 'u) focused \<Rightarrow> unit call \<times> ('b, 'x, 'k, 'u) focused" where
  "greet w = (Returns (), w\<lparr>tw_conn := tcp_SetStatus 1 (tw_conn w)\<rparr>)"

definition two_clients :: "(bytes, unit, int \<Rightarrow> 32 word option, unit) loop_world" where
  "two_clients = snd (loop_run Default_OnConnect Default_OnClose relay (len_unPacket bb_list) (take 2 relay_schedule) loop_example)"

definition meanwhile :: "loop_input list" where
  "meanwhile = [Event 7 EventRead, WriteOn 0 [5], Event 7 EventRead, Event 8 EventWrite]"

lemma meanwhile_ok:
  "loop_ok (\<lambda>_. True) two_clients" "loop_env greet Default_OnClose relay (len_unPacket bb_list) meanwhile two_clients"
  "length (lp_conns two_clients) = 2" "el_jobs two_clients = []" "lp_idle two_clients = 0" "lp_now two_clients = 0"
proof -
  have "loop_env Default_OnConnect Default_OnClose relay (len_unPacket bb_list) (take 2 relay_schedule) loop_example"
    by code_simp
  from loop_run_ok [where P = "\<lambda>_. True", OF default_handler_ok(1,3) leaves_input_ok [OF relay_ok]
      unpacks_frames_ok [OF len_unPacket_frames [OF bb_list_laws] len_frame_ok] len_unPacket_apart _ _ _ _ loop_example_ok this]
  obtain L where "loop_run Default_OnConnect Default_OnClose relay (len_unPacket bb_list) (take 2 relay_schedule) loop_example = (True, L)"
    "loop_ok (\<lambda>_. True) L"
    by (auto simp: local_to_conn_def holds_fresh_def kept_by_calls_def kept_by_handler_def)
  then show "loop_ok (\<lambda>_. True) two_clients" by (simp add: two_clients_def)
qed code_simp+

theorem connecting_is_one_step_witness:
  "\<exists>L2 L3. loop_run greet Default_OnClose relay (len_unPacket bb_list) meanwhile
       (snd (loop_create greet 3 9 ''10.0.0.3:4000'' ring8 ring8 [] [] two_clients)) = (True, L2) \<and>
     loop_bind 9 2 L2 = (None, L3) \<and> el_handlers L3 9 = Some 2 \<and>
     map (\<lambda>s. tc_status (sl_conn s)) (lp_conns L3) = [0, 0, 1] \<and>
     map (\<lambda>s. log_accepted (sl_log s)) (lp_conns L3) = [[5], [2, 10, 11, 1, 12], []]"
proof -
  let ?u = "len_unPacket bb_list :: (bytes, unit, int \<Rightarrow> 32 word option, unit) focused \<Rightarrow> _"
  let ?c = "\<lparr>sl_conn = tcp_SetStatus 1 (NewTCPConn 3 9 ''10.0.0.3:4000'' ring8 ring8 (lp_idle two_clients) (lp_now two_clients)),
    sl_reads = [], sl_writes = [], sl_log = []\<rparr>"
  have f: "OnClose_ok (greet :: (bytes, unit, int \<Rightarrow> 32 word option, unit) focused \<Rightarrow> _)"
    by (simp add: OnClose_ok_def greet_def user_step_def tcp_SetStatus_def conn_inv_def conn_avail_def)
  have "unaware 2 ?c (Default_OnClose :: (bytes, unit, int \<Rightarrow> 32 word option, unit) focused \<Rightarrow> _)"
    by (simp add: unaware_def Default_OnClose_def queues_below_def)
  then have cb: "callbacks_ok 2 ?c Default_OnClose relay ?u"
    by (simp add: callbacks_ok_def default_handler_ok(3) leaves_input_ok [OF relay_ok] len_unPacket_apart relay_unaware
        len_unPacket_unaware unpacks_frames_ok [OF len_unPacket_frames [OF bb_list_laws] len_frame_ok])
  have jobs: "jobs_below 2 (el_jobs two_clients)" by (simp add: meanwhile_ok(4))
  have g: "\<forall>w :: (bytes, unit, int \<Rightarrow> 32 word option, unit) focused. greet w = (Returns (), w\<lparr>tw_conn := tcp_SetStatus 1 (tw_conn w)\<rparr>)"
    by (simp add: greet_def)
  have alone: "\<forall>x \<in> set meanwhile. leaves_alone 2 (lp_now two_clients) x" by (simp add: meanwhile_def)
  obtain L1 L2 where L: "loop_run greet Default_OnClose relay ?u meanwhile two_clients = (True, L1)"
    "loop_run greet Default_OnClose relay ?u meanwhile
       (snd (loop_create greet 3 9 ''10.0.0.3:4000'' ring8 ring8 [] [] two_clients)) = (True, L2)"
    "loop_bind 9 2 L2 = loop_connect greet 3 9 ''10.0.0.3:4000'' ring8 ring8 [] [] L1"
    using connecting_is_one_step [where L = two_clients, unfolded meanwhile_ok(3), OF meanwhile_ok(1) jobs f g HOL.refl cb
        meanwhile_ok(2) alone] by blast
  obtain e L3 where e: "loop_connect greet 3 9 ''10.0.0.3:4000'' ring8 ring8 [] [] L1 = (e, L3)" by fastforce
  let ?r = "loop_connect greet 3 9 ''10.0.0.3:4000'' ring8 ring8 [] []
    (snd (loop_run greet Default_OnClose relay ?u meanwhile two_clients))"
  have "(fst ?r, el_handlers (snd ?r) 9, map (\<lambda>s. tc_status (sl_conn s)) (lp_conns (snd ?r)),
      map (\<lambda>s. log_accepted (sl_log s)) (lp_conns (snd ?r))) = (None, Some 2, [0, 0, 1], [[5], [2, 10, 11, 1, 12], []])"
    by code_simp
  with L e show ?thesis by auto
qed

end
