(* ===== verification/Eventfd.thy ===== *)
theory Eventfd
  imports Event_Loop
begin

text \<open>
  The wake-up descriptor of the epoll poller (Wake and wakeHandlerRead of
  pkg/limpoller/epoll.go): an eventfd, a counter in the kernel. The kernel's write and read
  on it are parameters; \<open>None\<close> is a call that blocks, and what eventfd(2) says of them is
  \<open>eventfd_documented\<close>. The other theories count the wake-ups by \<open>el_wakes\<close>; here the counter
  is shown to be that number.
\<close>

definition wakeBytes :: bytes where
  "wakeBytes = [1, 0, 0, 0, 0, 0, 0, 0]"

type_synonym 'k efd_write = "bytes \<Rightarrow> 'k \<Rightarrow> ((nat + nat) \<times> 'k) option"
type_synonym 'k efd_read = "nat \<Rightarrow> 'k \<Rightarrow> ((nat + bytes) \<times> 'k) option"

text \<open>The kernel's side, \<open>ep.buf\<close>, and the errors that wakeHandlerRead has logged.\<close>

record 'k wake_fd =
  wf_kernel :: 'k
  wf_buf :: bytes
  wf_errors :: "nat option list"

definition ep_Wake :: "'k efd_write \<Rightarrow> 'k wake_fd \<Rightarrow> (nat option \<times> 'k wake_fd) option" where
  "ep_Wake write s =
     (case write wakeBytes (wf_kernel s) of
        None \<Rightarrow> None
      | Some (Inl err, k) \<Rightarrow> Some (Some err, s\<lparr>wf_kernel := k\<rparr>)
      | Some (Inr _, k) \<Rightarrow> Some (None, s\<lparr>wf_kernel := k\<rparr>))"

definition ep_wakeHandlerRead :: "'k efd_read \<Rightarrow> 'k wake_fd \<Rightarrow> 'k wake_fd option" where
  "ep_wakeHandlerRead read s =
     (case read (length (wf_buf s)) (wf_kernel s) of
        None \<Rightarrow> None
      | Some (Inl err, k) \<Rightarrow> Some (s\<lparr>wf_kernel := k, wf_errors := wf_errors s @ [Some err]\<rparr>)
      | Some (Inr bs, k) \<Rightarrow>
          (let n = length bs; s1 = s\<lparr>wf_kernel := k, wf_buf := bs @ drop n (wf_buf s)\<rparr>
           in Some (if n \<noteq> 8 then s1\<lparr>wf_errors := wf_errors s1 @ [None]\<rparr> else s1)))"

subsection \<open>The kernel\<close>

text \<open>The eight bytes of a counter, the least significant first, as on the machines epoll runs on here.\<close>

fun le_bytes :: "nat \<Rightarrow> nat \<Rightarrow> bytes" where
  "le_bytes 0 c = []"
| "le_bytes (Suc n) c = of_nat (c mod 256) # le_bytes n (c div 256)"

fun le_value :: "bytes \<Rightarrow> nat" where
  "le_value [] = 0"
| "le_value (b # bs) = unat b + 256 * le_value bs"

lemma length_le_bytes [simp]: "length (le_bytes n c) = n"
  by (induction n arbitrary: c) simp_all

lemma le_value_bytes: "c < 256 ^ n \<Longrightarrow> le_value (le_bytes n c) = c"
proof (induction n arbitrary: c)
  case (Suc n)
  then have "c div 256 < 256 ^ n" by (simp add: less_mult_imp_div_less)
  then show ?case using Suc.IH by (simp add: unsigned_of_nat take_bit_eq_mod)
qed simp

lemma wake_value [simp]: "le_value wakeBytes = 1" "length wakeBytes = 8"
  by (simp_all add: wakeBytes_def)

text \<open>
  A write of eight bytes adds their value unless the sum would pass 2^64 - 2, when it
  blocks; a read into eight bytes gives the counter and clears it, and blocks when it is 0.
  A call may fail and then changes nothing.
\<close>

definition eventfd_documented :: "'k efd_write \<Rightarrow> 'k efd_read \<Rightarrow> ('k \<Rightarrow> nat) \<Rightarrow> bool" where
  "eventfd_documented write read count \<longleftrightarrow>
     (\<forall>bs k. length bs = 8 \<longrightarrow> le_value bs < 2 ^ 64 - 1 \<longrightarrow>
        (case write bs k of
           None \<Rightarrow> 2 ^ 64 - 2 < count k + le_value bs
         | Some (Inl _, k') \<Rightarrow> count k' = count k
         | Some (Inr n, k') \<Rightarrow> n = 8 \<and> count k + le_value bs \<le> 2 ^ 64 - 2 \<and> count k' = count k + le_value bs)) \<and>
     (\<forall>n k. 8 \<le> n \<longrightarrow>
        (case read n k of
           None \<Rightarrow> count k = 0
         | Some (Inl _, k') \<Rightarrow> count k' = count k
         | Some (Inr bs, k') \<Rightarrow> 0 < count k \<and> bs = le_bytes 8 (count k) \<and> count k' = 0))"

text \<open>What it says case by case, for the calls that the poller makes.\<close>

lemma efd_write_cases:
  assumes "eventfd_documented write read count"
  shows "write wakeBytes k = None \<Longrightarrow> 2 ^ 64 - 2 < Suc (count k)"
    and "write wakeBytes k = Some (Inl err, k') \<Longrightarrow> count k' = count k"
    and "write wakeBytes k = Some (Inr n, k') \<Longrightarrow> count k < 2 ^ 64 - 2 \<and> count k' = Suc (count k)"
  using assms [unfolded eventfd_documented_def, THEN conjunct1, rule_format, of wakeBytes k] by simp_all

lemma efd_read_cases:
  assumes "eventfd_documented write read count"
  shows "read 8 k = None \<Longrightarrow> count k = 0"
    and "read 8 k = Some (Inl err, k') \<Longrightarrow> count k' = count k"
    and "read 8 k = Some (Inr bs, k') \<Longrightarrow> 0 < count k \<and> bs = le_bytes 8 (count k) \<and> count k' = 0"
  using assms [unfolded eventfd_documented_def, THEN conjunct2, rule_format, of 8 k] by simp_all

text \<open>A kernel that never fails, with the counter as its state.\<close>

definition counter_write :: "nat efd_write" where
  "counter_write bs c =
     (if length bs < 8 \<or> le_value bs = 2 ^ 64 - 1 then Some (Inl 22, c)
      else if 2 ^ 64 - 2 < c + le_value bs then None
      else Some (Inr 8, c + le_value bs))"

definition counter_read :: "nat efd_read" where
  "counter_read n c =
     (if n < 8 then Some (Inl 22, c) else if c = 0 then None else Some (Inr (le_bytes 8 c), 0))"

lemma counter_documented: "eventfd_documented counter_write counter_read (\<lambda>c. c)"
  by (simp add: eventfd_documented_def counter_write_def counter_read_def)

subsection \<open>The counter is the number of wake-ups\<close>

text \<open>
  The counter \<open>el_wakes\<close> of a loop and its descriptor: the same number, a buffer of eight
  bytes.
\<close>

definition wakes_in :: "('k \<Rightarrow> nat) \<Rightarrow> 'k wake_fd \<Rightarrow> ('h, 'j, 'm) event_loop_scheme \<Rightarrow> bool" where
  "wakes_in count w s \<longleftrightarrow>
     count (wf_kernel w) = el_wakes s \<and> el_wakes s \<le> 2 ^ 64 - 2 \<and> length (wf_buf w) = 8"

lemma ep_Wake_refines:
  assumes "eventfd_documented write read count" "wakes_in count w s"
  shows "case ep_Wake write w of
      None \<Rightarrow> el_wakes s = 2 ^ 64 - 2
    | Some (None, w') \<Rightarrow> wakes_in count w' (Wake s) \<and> wf_errors w' = wf_errors w
    | Some (Some _, w') \<Rightarrow> wakes_in count w' s \<and> wf_errors w' = wf_errors w"
proof (cases "write wakeBytes (wf_kernel w)")
  case None
  then show ?thesis using efd_write_cases(1) [OF assms(1) None] assms(2) by (simp add: ep_Wake_def wakes_in_def)
next
  case (Some r)
  then obtain x k where r: "write wakeBytes (wf_kernel w) = Some (x, k)" by (cases r) simp
  then show ?thesis
    using efd_write_cases(2,3) [OF assms(1)] assms(2)
    by (cases x) (fastforce simp: ep_Wake_def wakes_in_def Wake_def)+
qed

lemma ep_wakeHandlerRead_refines:
  assumes "eventfd_documented write read count" "wakes_in count w s"
  shows "case ep_wakeHandlerRead read w of
      None \<Rightarrow> el_wakes s = 0
    | Some w' \<Rightarrow>
        wf_errors w' = wf_errors w \<and> wakes_in count w' (s\<lparr>el_wakes := 0\<rparr>) \<and> 0 < el_wakes s \<and>
          le_value (wf_buf w') = el_wakes s \<or>
        length (wf_errors w') = Suc (length (wf_errors w)) \<and> wakes_in count w' s"
proof (cases "read 8 (wf_kernel w)")
  case None
  then show ?thesis using efd_read_cases(1) [OF assms(1) None] assms(2) by (simp add: ep_wakeHandlerRead_def wakes_in_def)
next
  case (Some r)
  then obtain x k where r: "read 8 (wf_kernel w) = Some (x, k)" by (cases r) simp
  show ?thesis
  proof (cases x)
    case (Inl err)
    with r efd_read_cases(2) [OF assms(1)] assms(2) show ?thesis by (simp add: ep_wakeHandlerRead_def wakes_in_def)
  next
    case (Inr bs)
    have "bs = le_bytes 8 (el_wakes s)" "0 < el_wakes s" "count k = 0" "el_wakes s < 256 ^ 8"
      using efd_read_cases(3) [OF assms(1) r [unfolded Inr]] assms(2) by (simp_all add: wakes_in_def)
    with r Inr assms(2) show ?thesis
      by (simp add: ep_wakeHandlerRead_def wakes_in_def Let_def le_value_bytes)
  qed
qed

text \<open>
  A reader that is called for a reported wake-up never blocks, whatever number of calls of
  Wake it stands for, and unless read fails the descriptor is drained by one call: the
  next wake-up is reported by a later Wake only.
\<close>

definition wake_all :: "'k efd_write \<Rightarrow> nat \<Rightarrow> 'k wake_fd \<Rightarrow> 'k wake_fd option" where
  "wake_all write n w = ((\<lambda>m. Option.bind m (map_option snd \<circ> ep_Wake write)) ^^ n) (Some w)"

lemma wakes_drained:
  assumes "eventfd_documented write read count" "wakes_in count w (s\<lparr>el_wakes := 0\<rparr>)" "n < 2 ^ 64 - 1"
    and ok: "\<And>k err k'. write wakeBytes k \<noteq> Some (Inl err, k')"
  shows "\<exists>w'. wake_all write n w = Some w' \<and> wakes_in count w' (s\<lparr>el_wakes := n\<rparr>) \<and>
    (ep_wakeHandlerRead read w' = None \<longrightarrow> n = 0)"
proof -
  have "\<exists>w'. wake_all write n w = Some w' \<and> wakes_in count w' (s\<lparr>el_wakes := n\<rparr>)" using assms(3)
  proof (induction n)
    case 0
    then show ?case using assms(2) by (simp add: wake_all_def)
  next
    case (Suc n)
    then obtain w1 where w1: "wake_all write n w = Some w1" "wakes_in count w1 (s\<lparr>el_wakes := n\<rparr>)" by auto
    have "\<exists>w2. ep_Wake write w1 = Some (None, w2) \<and> wakes_in count w2 (Wake (s\<lparr>el_wakes := n\<rparr>))"
    proof (cases "write wakeBytes (wf_kernel w1)")
      case None
      with ep_Wake_refines [OF assms(1) w1(2)] Suc.prems show ?thesis by (simp add: ep_Wake_def)
    next
      case (Some r)
      with ok obtain m k where "write wakeBytes (wf_kernel w1) = Some (Inr m, k)" by (metis prod.exhaust sum.exhaust)
      with ep_Wake_refines [OF assms(1) w1(2)] show ?thesis by (simp add: ep_Wake_def)
    qed
    with w1(1) show ?case by (auto simp: wake_all_def Wake_def)
  qed
  then obtain w' where w': "wake_all write n w = Some w'" "wakes_in count w' (s\<lparr>el_wakes := n\<rparr>)" by blast
  with ep_wakeHandlerRead_refines [OF assms(1) w'(2)] show ?thesis by (auto split: option.splits)
qed

subsection \<open>The user event of kqueue\<close>

text \<open>
  Wake of kqueue.go: one change, which triggers the user event that Create added with
  EV_CLEAR. The kernel keeps whether it is triggered; the wait that reports it clears it.
\<close>

datatype user_note = NOTE_TRIGGER

record user_change =
  uc_ident :: int
  uc_fflags :: user_note

definition kq_Wake :: "(user_change \<Rightarrow> 'k \<Rightarrow> nat option \<times> 'k) \<Rightarrow> 'k \<Rightarrow> nat option \<times> 'k" where
  "kq_Wake Kevent k = Kevent \<lparr>uc_ident = 0, uc_fflags = NOTE_TRIGGER\<rparr> k"

definition user_event_documented ::
  "(user_change \<Rightarrow> 'k \<Rightarrow> nat option \<times> 'k) \<Rightarrow> ('k \<Rightarrow> 'k) \<Rightarrow> ('k \<Rightarrow> bool) \<Rightarrow> bool" where
  "user_event_documented Kevent report triggered \<longleftrightarrow>
     (\<forall>c k e k'. Kevent c k = (e, k') \<longrightarrow> triggered k' = (e = None \<or> triggered k)) \<and>
     (\<forall>k. \<not> triggered (report k))"

text \<open>
  Any number of calls of Wake is one event, which goes with its report; on both pollers an
  event is pending exactly when \<open>el_wakes\<close> is positive.
\<close>

lemma kq_Wake_refines:
  assumes "user_event_documented Kevent report triggered" "triggered k \<longleftrightarrow> 0 < el_wakes s"
    and "kq_Wake Kevent k = (e, k')"
  shows "(e = None \<longrightarrow> (triggered k' \<longleftrightarrow> 0 < el_wakes (Wake s))) \<and>
    (e \<noteq> None \<longrightarrow> (triggered k' \<longleftrightarrow> 0 < el_wakes s)) \<and>
    (triggered (report k) \<longleftrightarrow> 0 < el_wakes (s\<lparr>el_wakes := 0\<rparr>))"
  using assms by (auto simp: user_event_documented_def kq_Wake_def Wake_def)

end
