(* ===== verification/Logging.thy ===== *)
theory Logging
  imports Prelude
begin

text \<open>
  pkg/limlog/logger.go: which logger a message goes to and where that logger writes. A
  logger of zap is a core with a level and its sinks; what a core writes for a message is
  zap's, an argument \<open>zlog\<close>, documented (\<open>zap_documented\<close>) as one line for each sink if the
  threshold is at most the message's level, and nothing otherwise. The level \<open>atom\<close> is
  shared by two of the loggers and set by SetLevel. Encoding a line and rotating the files
  are zap's and lumberjack's and not followed; a string is its UTF-8 bytes.
\<close>

subsection \<open>Loggers\<close>

definition DebugLevel :: int where "DebugLevel = -1"
definition InfoLevel :: int where "InfoLevel = 0"
definition WarnLevel :: int where "WarnLevel = 1"
definition ErrorLevel :: int where "ErrorLevel = 2"

record lumberjack =
  lj_Filename :: string
  lj_MaxSize :: int
  lj_MaxBackups :: int
  lj_MaxAge :: int

datatype sink = Stdout | LogFile lumberjack

datatype level_enabler = Atom | FixedLevel int

record log_core =
  lc_sinks :: "sink list"
  lc_level :: level_enabler

type_synonym 'f log_line = "sink \<times> int \<times> string \<times> 'f list"

record 'f log_state =
  ls_atom :: int
  ls_TestMode :: bool
  ls_lines :: "'f log_line list"

definition log_file :: "string \<Rightarrow> sink" where
  "log_file name = LogFile \<lparr>lj_Filename = name, lj_MaxSize = 500, lj_MaxBackups = 3, lj_MaxAge = 28\<rparr>"

lemma log_file_eq [simp]: "log_file a = log_file b \<longleftrightarrow> a = b" "log_file a \<noteq> Stdout" "Stdout \<noteq> log_file a"
  by (simp_all add: log_file_def)

definition testLogger :: log_core where
  "testLogger = \<lparr>lc_sinks = [Stdout], lc_level = Atom\<rparr>"

definition infoLogger :: log_core where
  "infoLogger = \<lparr>lc_sinks = [Stdout, log_file ''info.log''], lc_level = Atom\<rparr>"

definition errorLogger :: log_core where
  "errorLogger = \<lparr>lc_sinks = [Stdout, log_file ''error.log''], lc_level = FixedLevel ErrorLevel\<rparr>"

definition warnLogger :: log_core where
  "warnLogger = \<lparr>lc_sinks = [Stdout, log_file ''warn.log''], lc_level = FixedLevel WarnLevel\<rparr>"

text \<open>
  What zap writes for a message at a level, given the core and the value of the shared
  level.
\<close>

type_synonym 'f zap = "log_core \<Rightarrow> int \<Rightarrow> int \<Rightarrow> string \<Rightarrow> 'f list \<Rightarrow> 'f log_line list"

definition zap_documented :: "'f zap \<Rightarrow> bool" where
  "zap_documented zlog \<longleftrightarrow>
     (\<forall>core atom level msg fs. zlog core atom level msg fs =
        (if (case lc_level core of Atom \<Rightarrow> atom | FixedLevel l \<Rightarrow> l) \<le> level
         then map (\<lambda>k. (k, level, msg, fs)) (lc_sinks core) else []))"

definition log_with ::
  "'f zap \<Rightarrow> log_core \<Rightarrow> int \<Rightarrow> string \<Rightarrow> 'f list \<Rightarrow> 'f log_state \<Rightarrow> 'f log_state" where
  "log_with zlog core level msg fs s = s\<lparr>ls_lines := ls_lines s @ zlog core (ls_atom s) level msg fs\<rparr>"

subsection \<open>The functions of the package\<close>

definition SetLevel :: "int \<Rightarrow> 'f log_state \<Rightarrow> 'f log_state" where
  "SetLevel l s = s\<lparr>ls_atom := l\<rparr>"

definition log_Info :: "'f zap \<Rightarrow> string \<Rightarrow> 'f list \<Rightarrow> 'f log_state \<Rightarrow> 'f log_state" where
  "log_Info zlog msg fs s =
     (if ls_TestMode s then log_with zlog testLogger InfoLevel msg fs s
      else log_with zlog infoLogger InfoLevel msg fs s)"

definition log_Debug :: "'f zap \<Rightarrow> string \<Rightarrow> 'f list \<Rightarrow> 'f log_state \<Rightarrow> 'f log_state" where
  "log_Debug zlog msg fs s =
     (if ls_TestMode s then log_with zlog testLogger DebugLevel msg fs s
      else log_with zlog infoLogger DebugLevel msg fs s)"

definition log_Error :: "'f zap \<Rightarrow> string \<Rightarrow> 'f list \<Rightarrow> 'f log_state \<Rightarrow> 'f log_state" where
  "log_Error zlog msg fs s =
     (if ls_TestMode s then log_with zlog testLogger ErrorLevel msg fs s
      else log_with zlog errorLogger ErrorLevel msg fs s)"

definition log_Warn :: "'f zap \<Rightarrow> string \<Rightarrow> 'f list \<Rightarrow> 'f log_state \<Rightarrow> 'f log_state" where
  "log_Warn zlog msg fs s =
     (if ls_TestMode s then log_with zlog testLogger WarnLevel msg fs s
      else log_with zlog warnLogger WarnLevel msg fs s)"

text \<open>A logger with a prefix, put between the brackets U+3010 and U+3011.\<close>

record lim_log = ll_prefix :: string

definition NewLIMLog :: "string \<Rightarrow> lim_log" where
  "NewLIMLog prefix = \<lparr>ll_prefix = prefix\<rparr>"

definition prefixed :: "lim_log \<Rightarrow> string \<Rightarrow> string" where
  "prefixed t msg =
     [CHR 0xE3, CHR 0x80, CHR 0x90] @ ll_prefix t @ [CHR 0xE3, CHR 0x80, CHR 0x91] @ msg"

datatype log_method = CallInfo | CallDebug | CallError | CallWarn

fun LIMLog_call ::
  "'f zap \<Rightarrow> lim_log \<Rightarrow> log_method \<Rightarrow> string \<Rightarrow> 'f list \<Rightarrow> 'f log_state \<Rightarrow> 'f log_state" where
  "LIMLog_call zlog t CallInfo msg fs s = log_Info zlog (prefixed t msg) fs s"
| "LIMLog_call zlog t CallDebug msg fs s = log_Debug zlog (prefixed t msg) fs s"
| "LIMLog_call zlog t CallError msg fs s = log_Error zlog (prefixed t msg) fs s"
| "LIMLog_call zlog t CallWarn msg fs s = log_Warn zlog (prefixed t msg) fs s"

text \<open>The state that init leaves: the level of a new atomic level is info.\<close>

definition log_init :: "'f log_state" where
  "log_init = \<lparr>ls_atom = InfoLevel, ls_TestMode = False, ls_lines = []\<rparr>"

subsection \<open>A run of the program\<close>

datatype 'f log_op = OpSetLevel int | OpTestMode bool | OpLog lim_log log_method string "'f list"

fun log_step :: "'f zap \<Rightarrow> 'f log_op \<Rightarrow> 'f log_state \<Rightarrow> 'f log_state" where
  "log_step zlog (OpSetLevel l) s = SetLevel l s"
| "log_step zlog (OpTestMode b) s = s\<lparr>ls_TestMode := b\<rparr>"
| "log_step zlog (OpLog t c msg fs) s = LIMLog_call zlog t c msg fs s"

definition log_run :: "'f zap \<Rightarrow> 'f log_op list \<Rightarrow> 'f log_state \<Rightarrow> 'f log_state" where
  "log_run zlog ops s = fold (log_step zlog) ops s"

text \<open>The lines of a sink, and what each file is to hold.\<close>

definition sink_lines :: "sink \<Rightarrow> 'f log_state \<Rightarrow> (string \<times> 'f list) list" where
  "sink_lines k s = map (\<lambda>(_, _, msg, fs). (msg, fs)) (filter (\<lambda>(k', _). k' = k) (ls_lines s))"

fun call_level :: "log_method \<Rightarrow> int" where
  "call_level CallInfo = InfoLevel"
| "call_level CallDebug = DebugLevel"
| "call_level CallError = ErrorLevel"
| "call_level CallWarn = WarnLevel"

text \<open>
  \<open>logged pass level test ops\<close>: the messages of the calls that \<open>pass\<close> accepts, given the
  level and the mode at the time of the call.
\<close>

fun logged :: "(log_method \<Rightarrow> int \<Rightarrow> bool \<Rightarrow> bool) \<Rightarrow> int \<Rightarrow> bool \<Rightarrow> 'f log_op list \<Rightarrow> (string \<times> 'f list) list" where
  "logged pass level test [] = []"
| "logged pass level test (OpSetLevel l # ops) = logged pass l test ops"
| "logged pass level test (OpTestMode b # ops) = logged pass level b ops"
| "logged pass level test (OpLog t c msg fs # ops) =
     (if pass c level test then (prefixed t msg, fs) # logged pass level test ops
      else logged pass level test ops)"

definition to_info :: "log_method \<Rightarrow> int \<Rightarrow> bool \<Rightarrow> bool" where
  "to_info c level test \<longleftrightarrow> \<not> test \<and> c \<in> {CallInfo, CallDebug} \<and> level \<le> call_level c"

definition to_warn :: "log_method \<Rightarrow> int \<Rightarrow> bool \<Rightarrow> bool" where
  "to_warn c level test \<longleftrightarrow> \<not> test \<and> c = CallWarn"

definition to_error :: "log_method \<Rightarrow> int \<Rightarrow> bool \<Rightarrow> bool" where
  "to_error c level test \<longleftrightarrow> \<not> test \<and> c = CallError"

definition to_stdout :: "log_method \<Rightarrow> int \<Rightarrow> bool \<Rightarrow> bool" where
  "to_stdout c level test \<longleftrightarrow> (\<not> test \<and> c \<in> {CallWarn, CallError}) \<or> level \<le> call_level c"

lemma log_run_lines:
  fixes s :: "'f log_state"
  assumes pass: "\<And>t c msg fs (s :: 'f log_state). sink_lines k (LIMLog_call zlog t c msg fs s) =
      sink_lines k s @ (if pass c (ls_atom s) (ls_TestMode s) then [(prefixed t msg, fs)] else [])"
  shows "sink_lines k (log_run zlog ops s) = sink_lines k s @ logged pass (ls_atom s) (ls_TestMode s) ops"
proof (induction ops arbitrary: s)
  case Nil
  then show ?case by (simp add: log_run_def)
next
  case (Cons op ops)
  have run: "log_run zlog (op # ops) s = log_run zlog ops (log_step zlog op s)"
    by (simp add: log_run_def)
  have call: "ls_atom (LIMLog_call zlog t c msg fs s) = ls_atom s \<and>
      ls_TestMode (LIMLog_call zlog t c msg fs s) = ls_TestMode s" for t c msg fs
    by (cases c) (simp_all add: log_Info_def log_Debug_def log_Error_def log_Warn_def log_with_def Let_def)
  show ?case
  proof (cases op)
    case (OpLog t c msg fs)
    with Cons.IH [of "log_step zlog op s"] run call pass [of t c msg fs s] show ?thesis by auto
  qed (use Cons.IH [of "log_step zlog op s"] run in \<open>simp_all add: SetLevel_def sink_lines_def\<close>)
qed

lemmas log_defs = testLogger_def infoLogger_def errorLogger_def warnLogger_def log_with_def
  log_Info_def log_Debug_def log_Error_def log_Warn_def

lemma zap_writes:
  "zap_documented zlog \<Longrightarrow> zlog core atom level msg fs =
     (if (case lc_level core of Atom \<Rightarrow> atom | FixedLevel l \<Rightarrow> l) \<le> level
      then map (\<lambda>k. (k, level, msg, fs)) (lc_sinks core) else [])"
  by (simp add: zap_documented_def)

text \<open>One call, seen by each sink.\<close>

lemma LIMLog_call_lines:
  assumes "zap_documented zlog"
    and "(k, pass) \<in> {(log_file ''warn.log'', to_warn), (log_file ''error.log'', to_error),
      (log_file ''info.log'', to_info), (Stdout, to_stdout)}"
  shows "sink_lines k (LIMLog_call zlog t c msg fs s) =
      sink_lines k s @ (if pass c (ls_atom s) (ls_TestMode s) then [(prefixed t msg, fs)] else [])"
proof -
  note en = zap_writes [OF assms(1)]
  show ?thesis
    using assms(2)
    by (cases c) (auto simp: log_defs en sink_lines_def to_warn_def to_error_def to_info_def to_stdout_def
        InfoLevel_def DebugLevel_def ErrorLevel_def WarnLevel_def Let_def)
qed

definition log_sinks :: "sink set" where
  "log_sinks = {Stdout, log_file ''info.log'', log_file ''warn.log'', log_file ''error.log''}"

lemma log_step_sinks:
  assumes "zap_documented zlog" "fst ` set (ls_lines s) \<subseteq> log_sinks"
  shows "fst ` set (ls_lines (log_step zlog x s)) \<subseteq> log_sinks"
proof (cases x)
  case (OpLog t c msg fs)
  with assms(2) show ?thesis
    by (cases c) (auto simp: log_defs log_sinks_def zap_writes [OF assms(1)] split: if_splits)
qed (use assms(2) in \<open>auto simp: SetLevel_def\<close>)

lemma log_run_sinks:
  assumes "zap_documented zlog"
  shows "fst ` set (ls_lines s) \<subseteq> log_sinks \<Longrightarrow> fst ` set (ls_lines (log_run zlog ops s)) \<subseteq> log_sinks"
  by (induction ops arbitrary: s) (simp_all add: log_run_def log_step_sinks [OF assms])

text \<open>
  For every sequence of log calls, changes of the level and of the mode: outside the
  test mode warn.log and error.log hold exactly the warnings and the errors, in order,
  whatever SetLevel was called with; info.log holds exactly the other messages at or above
  the level of their time; standard output gets all of these, and in the test mode only
  what is at or above the level. No other file is written.
\<close>
theorem log_files_complete:
  fixes ops :: "'f log_op list"
  assumes "zap_documented zlog"
  shows "sink_lines (log_file ''warn.log'') (log_run zlog ops log_init) = logged to_warn InfoLevel False ops \<and>
    sink_lines (log_file ''error.log'') (log_run zlog ops log_init) = logged to_error InfoLevel False ops \<and>
    sink_lines (log_file ''info.log'') (log_run zlog ops log_init) = logged to_info InfoLevel False ops \<and>
    sink_lines Stdout (log_run zlog ops log_init) = logged to_stdout InfoLevel False ops \<and>
    fst ` set (ls_lines (log_run zlog ops log_init)) \<subseteq>
      {Stdout, log_file ''info.log'', log_file ''warn.log'', log_file ''error.log''}"
proof -
  have init: "sink_lines k (log_init :: 'f log_state) = []" "ls_atom (log_init :: 'f log_state) = InfoLevel"
    "ls_TestMode (log_init :: 'f log_state) = False" "fst ` set (ls_lines (log_init :: 'f log_state)) \<subseteq> log_sinks" for k
    by (simp_all add: log_init_def sink_lines_def)
  have "sink_lines k (log_run zlog ops log_init) = logged pass InfoLevel False ops"
    if "(k, pass) \<in> {(log_file ''warn.log'', to_warn), (log_file ''error.log'', to_error),
      (log_file ''info.log'', to_info), (Stdout, to_stdout)}" for k pass
    using log_run_lines [where pass = pass and s = "log_init :: 'f log_state", OF LIMLog_call_lines [where pass = pass, OF assms that]] init by simp
  then show ?thesis using log_run_sinks [OF assms init(4)] by (simp add: log_sinks_def)
qed

definition log_example :: "string log_op list" where
  "log_example =
     [OpLog (NewLIMLog ''a'') CallDebug ''x'' [], OpLog (NewLIMLog ''a'') CallInfo ''y'' [], OpSetLevel 3,
      OpLog (NewLIMLog ''b'') CallError ''z'' [], OpLog (NewLIMLog ''b'') CallInfo ''u'' [], OpTestMode True,
      OpLog (NewLIMLog ''b'') CallError ''v'' []]"

definition zap_example :: "string zap" where
  "zap_example core atom level msg fs =
     (if (case lc_level core of Atom \<Rightarrow> atom | FixedLevel l \<Rightarrow> l) \<le> level
      then map (\<lambda>k. (k, level, msg, fs)) (lc_sinks core) else [])"

theorem log_files_complete_witness:
  "length (sink_lines (log_file ''error.log'') (log_run zap_example log_example log_init)) = 1 \<and>
   length (sink_lines (log_file ''info.log'') (log_run zap_example log_example log_init)) = 1 \<and>
   length (sink_lines Stdout (log_run zap_example log_example log_init)) = 2"
proof -
  have "zap_documented zap_example" by (simp add: zap_documented_def zap_example_def)
  moreover have "length (logged to_error InfoLevel False log_example) = 1"
    "length (logged to_info InfoLevel False log_example) = 1"
    "length (logged to_stdout InfoLevel False log_example) = 2"
    by code_simp+
  ultimately show ?thesis using log_files_complete [of zap_example log_example] by simp
qed

end
