(* ===== verification/Address_Props.thy ===== *)
theory Address_Props
  imports Address
begin

text \<open>
  Properties of the addresses: parseAddr reads back every address with a host name or an
  IPv4 address and a port, the forms it does not read, and the peer address of a
  connection identifies the peer.
\<close>

subsection \<open>Splitting\<close>

lemma cut_notin: "p \<notin> set s \<Longrightarrow> cut (p # sep) s = None"
  by (induction s) auto

lemma cut_first: "p \<notin> set a \<Longrightarrow> cut (p # sep) (a @ p # sep @ b) = Some (a, b)"
  by (induction a) auto

lemma cut_single_first: "p \<notin> set a \<Longrightarrow> cut [p] (a @ p # b) = Some (a, b)"
  using cut_first [of p a "[]" b] by simp

lemma Split_notin: "p \<notin> set s \<Longrightarrow> Split s (p # sep) = [s]"
  by (subst Split.simps) (simp add: cut_notin)

lemma Split_first: "p \<notin> set a \<Longrightarrow> Split (a @ p # sep @ b) (p # sep) = a # Split b (p # sep)"
  by (subst Split.simps) (simp add: cut_first)

lemma Split_single_first: "p \<notin> set a \<Longrightarrow> Split (a @ p # b) [p] = a # Split b [p]"
  using Split_first [of p a "[]" b] by simp

text \<open>A separator of several characters whose first occurs once and not before the rest.\<close>

lemma cut_other:
  "p \<notin> set a \<Longrightarrow> p \<notin> set b \<Longrightarrow> sep \<noteq> [] \<Longrightarrow> take (length sep) b \<noteq> sep \<Longrightarrow>
    cut (p # sep) (a @ p # b) = None"
  by (induction a) (auto simp: cut_notin)

subsection \<open>Numbers\<close>

lemma of_char_digit [simp]: "d < 10 \<Longrightarrow> (of_char (digit_char d) :: nat) = 48 + d"
  by (simp add: digit_char_def)

lemma digit_val_digit [simp]: "d < 10 \<Longrightarrow> digit_val (digit_char d) = Some (int d)"
  by (simp add: digit_val_def)

lemma uint_loop_append:
  "uint_loop (xs @ ys) n = (case uint_loop xs n of (None, m) \<Rightarrow> uint_loop ys m | e \<Rightarrow> e)"
  by (induction xs arbitrary: n) (auto split: option.split)

lemma nat_digits_ind [case_names one more]:
  assumes "\<And>n. n < 10 \<Longrightarrow> P n" "\<And>n. 10 \<le> n \<Longrightarrow> P (n div 10) \<Longrightarrow> P n"
  shows "P (n :: nat)"
  by (induction n rule: nat_digits.induct) (use assms in \<open>metis not_less\<close>)

lemma nat_digits_one: "n < 10 \<Longrightarrow> nat_digits n = [digit_char n]"
  and nat_digits_more: "10 \<le> n \<Longrightarrow> nat_digits n = nat_digits (n div 10) @ [digit_char (n mod 10)]"
  by (subst nat_digits.simps, simp)+

lemma nat_digits_set: "c \<in> set (nat_digits n) \<Longrightarrow> \<exists>d<10. c = digit_char d"
proof (induction n rule: nat_digits_ind)
  case (more n)
  have "n mod 10 < 10" by simp
  with more show ?case unfolding nat_digits_more [OF more(1)] set_append by fastforce
qed (auto simp: nat_digits_one)

lemma nat_digits_not_Nil [simp]: "nat_digits n \<noteq> []"
  by (subst nat_digits.simps) simp

lemma not_digit: "digit_val c = None \<Longrightarrow> c \<notin> set (nat_digits n)"
  using nat_digits_set [of c n] by auto

lemma punctuation [simp]:
  "digit_val CHR '':'' = None" "digit_val CHR ''.'' = None" "digit_val CHR ''/'' = None"
  "digit_val CHR ''-'' = None" "digit_val CHR ''+'' = None"
  by code_simp+

lemma uint_loop_digits: "int n < 2 ^ 64 \<Longrightarrow> uint_loop (nat_digits n) 0 = (None, int n)"
proof (induction n rule: nat_digits_ind)
  case (more n)
  have "int (n div 10 * 10 + n mod 10) = int n" by (simp only: div_mult_mod_eq)
  then have "int (n div 10) * 10 + int (n mod 10) = int n"
    by (simp only: of_nat_add of_nat_mult of_nat_numeral)
  moreover from this have "int (n div 10) < 2 ^ 64" "\<not> int (n div 10) \<ge> 2 ^ 64 div 10 + 1"
    using more.prems by linarith+
  ultimately show ?case using more by (simp add: nat_digits_more uint_loop_append)
qed (simp add: nat_digits_one)

lemma ParseInt_Itoa: "0 \<le> i \<Longrightarrow> i < 2 ^ 63 \<Longrightarrow> ParseInt (Itoa i) = (None, i)"
proof -
  assume i: "0 \<le> i" "i < 2 ^ 63"
  have "hd (nat_digits (nat i)) \<in> set (nat_digits (nat i))" by simp
  then have "hd (nat_digits (nat i)) \<noteq> CHR ''-''" "hd (nat_digits (nat i)) \<noteq> CHR ''+''"
    using not_digit by (metis punctuation(4), metis punctuation(5))
  with i uint_loop_digits [of "nat i"] show ?thesis
    by (simp add: ParseInt_def ParseUint_def Itoa_def Let_def)
qed

lemma Itoa_notin: "0 \<le> i \<Longrightarrow> digit_val c = None \<Longrightarrow> c \<notin> set (Itoa i)"
  by (simp add: Itoa_def not_digit)

subsection \<open>Lower case\<close>

lemma lower_char_punct:
  "lower_char c = CHR '':'' \<longleftrightarrow> c = CHR '':''" "lower_char c = CHR ''/'' \<longleftrightarrow> c = CHR ''/''"
  "CHR '':'' = lower_char c \<longleftrightarrow> c = CHR '':''"
  by (auto simp: lower_char_def dest!: arg_cong [where f = "of_char :: char \<Rightarrow> nat"])

lemma lower_punct [simp]: "lower_char CHR '':'' = CHR '':''" "lower_char CHR ''/'' = CHR ''/''"
  by code_simp+

lemma lower_digit [simp]: "d < 10 \<Longrightarrow> lower_char (digit_char d) = digit_char d"
  by (simp add: lower_char_def)

lemma ToLower_append [simp]: "ToLower (a @ b) = ToLower a @ ToLower b"
  and ToLower_Cons [simp]: "ToLower (c # b) = lower_char c # ToLower b"
  and ToLower_Nil [simp]: "ToLower [] = []"
  by (simp_all add: ToLower_def)

lemma ToLower_Itoa [simp]: "0 \<le> i \<Longrightarrow> ToLower (Itoa i) = Itoa i"
  using nat_digits_set [of _ "nat i"] by (force simp: ToLower_def Itoa_def intro: map_idI)

lemma ToLower_colon [simp]: "CHR '':'' \<in> set (ToLower s) \<longleftrightarrow> CHR '':'' \<in> set s"
  by (auto simp: ToLower_def image_iff lower_char_punct)

subsection \<open>The listening address\<close>

lemma not_Contains: "\<not> Contains s sep \<longleftrightarrow> cut sep s = None"
  by (cases "cut sep s") (simp_all add: Contains_def)

lemma parseAddr_scheme:
  assumes "CHR '':'' \<notin> set scheme" "\<not> Contains (ToLower rest) ''://''"
  shows "parseAddr (scheme @ ''://'' @ rest) =
    do { portStr \<leftarrow> index_get (Split (ToLower rest) '':'') 1;
         Some (ToLower scheme, ToLower rest, snd (ParseInt portStr)) }"
proof -
  have low: "ToLower (scheme @ ''://'' @ rest) = ToLower scheme @ ''://'' @ ToLower rest"
    by simp
  have "cut ''://'' (ToLower scheme @ ''://'' @ ToLower rest) = Some (ToLower scheme, ToLower rest)"
    using cut_first [of "CHR '':''" "ToLower scheme" "''//''" "ToLower rest"] assms(1) by simp
  with assms(2) have "Contains (ToLower scheme @ ''://'' @ ToLower rest) ''://''"
    "Split (ToLower scheme @ ''://'' @ ToLower rest) ''://'' = [ToLower scheme, ToLower rest]"
    by (simp_all add: not_Contains Split.simps [of _ "''://''"]) (simp add: Contains_def)
  then show ?thesis by (simp add: parseAddr_def low Let_def index_get_def)
qed

text \<open>
  C24. An address with a scheme, a host without a colon (a name or an IPv4 address) and a
  port below 2^63 is read back: parseAddr gives the scheme and the host in lower case and
  the port.
\<close>
theorem parse_addr_roundtrip:
  assumes "CHR '':'' \<notin> set scheme" "CHR '':'' \<notin> set host" "0 \<le> port" "port < 2 ^ 63"
  shows "parseAddr (scheme @ ''://'' @ host @ '':'' @ Itoa port) =
    Some (ToLower scheme, ToLower host @ '':'' @ Itoa port, port)"
proof -
  let ?h = "ToLower host"
  have port: "CHR '':'' \<notin> set (Itoa port)" "CHR ''/'' \<notin> set (Itoa port)"
    using Itoa_notin [OF assms(3)] by simp_all
  then have "take 2 (Itoa port) \<noteq> ''//''" using in_set_takeD [of "CHR ''/''" 2 "Itoa port"] by auto
  then have "\<not> Contains (?h @ '':'' @ Itoa port) ''://''"
    using cut_other [of "CHR '':''" ?h "Itoa port" "''//''"] port(1) assms(2)
    by (simp add: not_Contains numeral_2_eq_2)
  moreover have "Split (?h @ '':'' @ Itoa port) '':'' = [?h, Itoa port]"
    using Split_single_first [of "CHR '':''" ?h "Itoa port"] Split_notin [OF port(1), of "[]"] assms(2) by simp
  ultimately show ?thesis
    using parseAddr_scheme [OF assms(1), of "host @ '':'' @ Itoa port"] assms(3,4)
    by (simp add: index_get_def ParseInt_Itoa)
qed

theorem parse_addr_roundtrip_witness:
  "parseAddr ''TCP://LocalHost:6666'' = Some (''tcp'', ''localhost:6666'', 6666)"
proof -
  have "Itoa 6666 = ''6666''"
    by (simp add: Itoa_def nat_digits.simps digit_char_def) code_simp
  moreover have "ToLower ''TCP'' = ''tcp''" "ToLower ''LocalHost'' = ''localhost''" by code_simp+
  ultimately show ?thesis using parse_addr_roundtrip [of "''TCP''" "''LocalHost''" 6666] by simp
qed

text \<open>
  What parseAddr does not read: an address without a scheme has port 0, which lets
  the kernel choose one; one without a port panics; and of an address with more colons,
  such as an IPv6 one, the port is the number between the first two, or 0.
\<close>
theorem parse_addr_misread:
  assumes "\<not> Contains (ToLower addr) ''://''"
    and "CHR '':'' \<notin> set scheme" "CHR '':'' \<notin> set host" "CHR '':'' \<notin> set mid"
    and "\<not> Contains (ToLower (host @ '':'' @ mid @ '':'' @ rest)) ''://''"
  shows "parseAddr addr = Some (''tcp'', ToLower addr, 0) \<and>
    parseAddr (scheme @ ''://'' @ host) = None \<and>
    map_option (snd \<circ> snd) (parseAddr (scheme @ ''://'' @ host @ '':'' @ mid @ '':'' @ rest)) =
      Some (snd (ParseInt (ToLower mid)))"
proof (intro conjI)
  show "parseAddr addr = Some (''tcp'', ToLower addr, 0)" using assms(1) by (simp add: parseAddr_def Let_def)
  have host: "CHR '':'' \<notin> set (ToLower host)" using assms(3) by simp
  then show "parseAddr (scheme @ ''://'' @ host) = None"
    using parseAddr_scheme [OF assms(2), of host] Split_notin [OF host, of "[]"] cut_notin [OF host, of "''//''"]
    by (simp add: not_Contains index_get_def)
  have "Split (ToLower (host @ '':'' @ mid @ '':'' @ rest)) '':'' = ToLower host # ToLower mid # Split (ToLower rest) '':''"
    using Split_single_first [OF host] Split_single_first [of "CHR '':''" "ToLower mid" "ToLower rest"] assms(4)
    by simp
  then show "map_option (snd \<circ> snd) (parseAddr (scheme @ ''://'' @ host @ '':'' @ mid @ '':'' @ rest)) =
      Some (snd (ParseInt (ToLower mid)))"
    unfolding parseAddr_scheme [OF assms(2,5)] by (simp add: index_get_def)
qed

theorem parse_addr_misread_witness:
  "parseAddr ''127.0.0.1:9000'' = Some (''tcp'', ''127.0.0.1:9000'', 0) \<and>
   parseAddr ''tcp://localhost'' = None \<and>
   map_option (snd \<circ> snd) (parseAddr ''tcp://[::1]:6666'') = Some 0"
proof -
  have "\<not> Contains (ToLower ''127.0.0.1:9000'') ''://''" "CHR '':'' \<notin> set ''tcp''"
    "CHR '':'' \<notin> set ''localhost''" "CHR '':'' \<notin> set ''[''" "CHR '':'' \<notin> set []"
    "\<not> Contains (ToLower (''['' @ '':'' @ [] @ '':'' @ ''1]:6666'')) ''://''"
    "\<not> Contains (ToLower (''localhost'' @ '':'' @ [] @ '':'' @ ''1]:6666'')) ''://''"
    "ToLower ''127.0.0.1:9000'' = ''127.0.0.1:9000''" "snd (ParseInt []) = 0"
    by code_simp+
  with parse_addr_misread [of "''127.0.0.1:9000''" "''tcp''" "''localhost''" "[]" "''1]:6666''"]
    parse_addr_misread [of "''127.0.0.1:9000''" "''tcp''" "''[''" "[]" "''1]:6666''"]
  show ?thesis by simp
qed

subsection \<open>The peer address\<close>

definition read_endpoint :: "string \<Rightarrow> int list \<times> int" where
  "read_endpoint s =
     (let parts = Split s '':''
      in (map (snd \<circ> ParseInt) (Split (parts ! 0) ''.''), snd (ParseInt (parts ! 1))))"

lemma ParseInt_byte [simp]: "snd (ParseInt (byte_digits b)) = uint b"
proof -
  have "byte_digits b = Itoa (uint b)" by (simp add: byte_digits_def Itoa_def)
  moreover have "uint b < 2 ^ 63" using unsigned_less [of b, where 'a = int] by simp
  ultimately show ?thesis using ParseInt_Itoa [of "uint b"] by simp
qed

lemma byte_digits_notin [simp]: "digit_val c = None \<Longrightarrow> c \<notin> set (byte_digits b)"
  by (simp add: byte_digits_def not_digit)

lemma read_endpoint_inet4:
  assumes "0 \<le> port" "port < 2 ^ 63"
  shows "read_endpoint (sockAddrToString (SockaddrInet4 a b c d port)) = ([uint a, uint b, uint c, uint d], port)"
proof -
  let ?h = "ipv4_string a b c d"
  have colon: "CHR '':'' \<notin> set ?h" by (simp add: ipv4_string_def)
  have "Split (?h @ '':'' @ Itoa port) '':'' = [?h, Itoa port]"
    using Split_single_first [OF colon] Split_notin [of "CHR '':''" "Itoa port" "[]"] Itoa_notin [OF assms(1)] by simp
  moreover have "Split ?h ''.'' = map byte_digits [a, b, c, d]"
    using Split_single_first [of "CHR ''.''" "byte_digits _"] Split_notin [of "CHR ''.''" "byte_digits d" "[]"]
    by (simp add: ipv4_string_def)
  ultimately show ?thesis
    using colon assms by (simp add: read_endpoint_def sockAddrToString_def JoinHostPort_def ParseInt_Itoa)
qed

lemma group_bytes:
  fixes w :: "16 word"
  shows "uint (ucast (drop_bit 8 w) :: byte) = uint w div 256" "uint (ucast w :: byte) = uint w mod 256"
proof -
  have w: "uint w < 65536" using unsigned_less [of w, where 'a = int] by simp
  then have "uint w div 256 < 256" "0 \<le> uint w div 256" using unsigned_greater_eq [of w, where 'a = int] by linarith+
  moreover have "uint (drop_bit 8 w) = uint w div 256"
    using w by (simp add: unsigned_drop_bit_eq) (simp add: drop_bit_eq_div take_bit_eq_mod)
  ultimately show "uint (ucast (drop_bit 8 w) :: byte) = uint w div 256" "uint (ucast w :: byte) = uint w mod 256"
    by (simp_all add: unsigned_ucast_eq take_bit_eq_mod)
qed

text \<open>
  The address of an IPv4 peer is readable: splitting it at the colon and the dots
  gives back the four bytes and the port, so that different peers have different
  addresses. A peer that the kernel reports as an IPv4-mapped IPv6 address has the same
  text as over IPv4.
\<close>
theorem peer_address_roundtrip:
  assumes "0 \<le> port" "port < 2 ^ 63"
  shows "read_endpoint (sockAddrToString (SockaddrInet4 a b c d port)) = ([uint a, uint b, uint c, uint d], port) \<and>
    read_endpoint (sockAddrToString (SockaddrInet6 [0, 0, 0, 0, 0, 0xffff, g, h] port)) =
      ([uint g div 256, uint g mod 256, uint h div 256, uint h mod 256], port)"
proof
  show "read_endpoint (sockAddrToString (SockaddrInet4 a b c d port)) = ([uint a, uint b, uint c, uint d], port)"
    by (rule read_endpoint_inet4 [OF assms])
  have "sockAddrToString (SockaddrInet6 [0, 0, 0, 0, 0, 0xffff, g, h] port) =
      sockAddrToString (SockaddrInet4 (ucast (drop_bit 8 g)) (ucast g) (ucast (drop_bit 8 h)) (ucast h) port)"
    by (simp add: sockAddrToString_def ipv6_string_def)
  then show "read_endpoint (sockAddrToString (SockaddrInet6 [0, 0, 0, 0, 0, 0xffff, g, h] port)) =
      ([uint g div 256, uint g mod 256, uint h div 256, uint h mod 256], port)"
    using read_endpoint_inet4 [OF assms] by (simp only: group_bytes(1)) (simp only: group_bytes(2))
qed

theorem peer_address_roundtrip_witness:
  "read_endpoint (sockAddrToString (SockaddrInet4 10 0 255 1 40000)) = ([10, 0, 255, 1], 40000)"
  using peer_address_roundtrip [of 40000 10 0 255 1] by simp

end
