(* ===== verification/Log_Format.thy ===== *)
theory Log_Format
  imports Logging Address_Props
begin

text \<open>
  The encoder configuration of pkg/limlog/logger.go (newEncoderConfig, timeEncoder). The
  encoders that zap provides are named, the line ending it defines is an argument; the two
  that the package defines are functions. A time is given by its fields in its location,
  which package time computes.
\<close>

record civil_time =
  ct_year :: int
  ct_month :: nat
  ct_day :: nat
  ct_hour :: nat
  ct_minute :: nat
  ct_second :: nat
  ct_nanosecond :: nat

text \<open>Package time prints a field in decimal, filled up with zeros to a width.\<close>

definition appendInt :: "int \<Rightarrow> nat \<Rightarrow> string" where
  "appendInt x width =
     (let ds = nat_digits (nat \<bar>x\<bar>)
      in (if x < 0 then ''-'' else []) @ replicate (width - length ds) (digit_char 0) @ ds)"

definition format_seconds :: "civil_time \<Rightarrow> string" where
  "format_seconds t =
     appendInt (ct_year t) 4 @ ''-'' @ appendInt (int (ct_month t)) 2 @ ''-'' @ appendInt (int (ct_day t)) 2 @ '' '' @
     appendInt (int (ct_hour t)) 2 @ '':'' @ appendInt (int (ct_minute t)) 2 @ '':'' @ appendInt (int (ct_second t)) 2"

definition timeEncoder :: "civil_time \<Rightarrow> string" where
  "timeEncoder t = format_seconds t @ ''.'' @ appendInt (int (ct_nanosecond t div 1000000)) 3"

text \<open>A duration in nanoseconds is encoded in milliseconds; Go's division rounds to zero.\<close>

definition EncodeDuration :: "int \<Rightarrow> int" where
  "EncodeDuration d = sgn d * (\<bar>d\<bar> div 1000000)"

datatype zap_encoder = LowercaseLevelEncoder | FullCallerEncoder | FullNameEncoder

record encoder_config =
  ec_TimeKey :: string
  ec_LevelKey :: string
  ec_NameKey :: string
  ec_CallerKey :: string
  ec_MessageKey :: string
  ec_StacktraceKey :: string
  ec_LineEnding :: string
  ec_EncodeLevel :: zap_encoder
  ec_EncodeCaller :: zap_encoder
  ec_EncodeName :: zap_encoder
  ec_EncodeTime :: "civil_time \<Rightarrow> string"
  ec_EncodeDuration :: "int \<Rightarrow> int"

definition newEncoderConfig :: "string \<Rightarrow> encoder_config" where
  "newEncoderConfig DefaultLineEnding =
     \<lparr>ec_TimeKey = ''time'', ec_LevelKey = ''level'', ec_NameKey = ''logger'', ec_CallerKey = ''linenum'',
      ec_MessageKey = ''msg'', ec_StacktraceKey = ''stacktrace'', ec_LineEnding = DefaultLineEnding,
      ec_EncodeLevel = LowercaseLevelEncoder, ec_EncodeCaller = FullCallerEncoder, ec_EncodeName = FullNameEncoder,
      ec_EncodeTime = format_seconds, ec_EncodeDuration = EncodeDuration\<rparr>"

subsection \<open>The time of a line can be read back\<close>

definition digits_value :: "string \<Rightarrow> nat" where
  "digits_value s = foldl (\<lambda>n c. 10 * n + (of_char c - 48)) 0 s"

lemma digits_value_append: "digits_value (s @ [c]) = 10 * digits_value s + (of_char c - 48)"
  by (simp add: digits_value_def)

lemma digits_value_digits: "digits_value (nat_digits n) = n"
  by (induction n rule: nat_digits_ind) (simp_all add: nat_digits_one nat_digits_more digits_value_append digits_value_def)

lemma digits_value_zeros: "digits_value (replicate k (digit_char 0) @ s) = digits_value s"
  by (induction k) (simp_all add: digits_value_def)

lemma length_nat_digits: "0 < w \<Longrightarrow> n < 10 ^ w \<Longrightarrow> length (nat_digits n) \<le> w"
proof (induction n arbitrary: w rule: nat_digits_ind)
  case (more n)
  then obtain v where v: "w = Suc v" "0 < v" by (cases w; cases "w - 1") auto
  with more.prems have "n div 10 < 10 ^ v" by (simp add: less_mult_imp_div_less mult.commute)
  with more.IH [OF v(2)] more.hyps v(1) show ?case by (simp add: nat_digits_more)
qed (simp add: nat_digits_one)

lemma appendInt_field:
  assumes "0 < w" "n < 10 ^ w"
  shows "length (appendInt (int n) w) = w" "digits_value (appendInt (int n) w) = n"
  using length_nat_digits [OF assms] by (simp_all add: appendInt_def Let_def digits_value_zeros digits_value_digits)

text \<open>The field of a width at a position.\<close>

definition field_at :: "nat \<Rightarrow> nat \<Rightarrow> string \<Rightarrow> nat" where
  "field_at i w s = digits_value (take w (drop i s))"

definition read_seconds :: "string \<Rightarrow> civil_time" where
  "read_seconds s =
     \<lparr>ct_year = int (field_at 0 4 s), ct_month = field_at 5 2 s, ct_day = field_at 8 2 s,
      ct_hour = field_at 11 2 s, ct_minute = field_at 14 2 s, ct_second = field_at 17 2 s, ct_nanosecond = 0\<rparr>"

definition civil_ok :: "civil_time \<Rightarrow> bool" where
  "civil_ok t \<longleftrightarrow> 0 \<le> ct_year t \<and> ct_year t \<le> 9999 \<and> ct_month t \<le> 12 \<and> ct_day t \<le> 31 \<and>
     ct_hour t < 24 \<and> ct_minute t < 60 \<and> ct_second t < 60"

lemma read_format_seconds:
  assumes "civil_ok t"
  shows "length (format_seconds t) = 19 \<and> read_seconds (format_seconds t) = t\<lparr>ct_nanosecond := 0\<rparr>"
proof -
  obtain y where y: "ct_year t = int y" "y < 10 ^ 4"
    using assms by (auto simp: civil_ok_def intro: that [of "nat (ct_year t)"])
  have two: "length (appendInt (int n) 2) = 2" "digits_value (appendInt (int n) 2) = n" if "n < 60" for n
    using appendInt_field [of 2 n] that by simp_all
  have b: "ct_month t < 60" "ct_day t < 60" "ct_hour t < 60" "ct_minute t < 60" "ct_second t < 60"
    using assms by (simp_all add: civil_ok_def)
  note f = appendInt_field [OF _ y(2)] two [OF b(1)] two [OF b(2)] two [OF b(3)] two [OF b(4)] two [OF b(5)]
  have "t = \<lparr>ct_year = int y, ct_month = ct_month t, ct_day = ct_day t, ct_hour = ct_hour t, ct_minute = ct_minute t,
      ct_second = ct_second t, ct_nanosecond = ct_nanosecond t\<rparr>"
    using y(1) by simp
  then show ?thesis
    using f by (simp add: format_seconds_def read_seconds_def field_at_def y(1))
qed

text \<open>Encoded durations are never longer than the durations, and off by less than a millisecond.\<close>

lemma EncodeDuration_bounds: "\<bar>EncodeDuration d\<bar> * 1000000 \<le> \<bar>d\<bar> \<and> \<bar>d\<bar> < (\<bar>EncodeDuration d\<bar> + 1) * 1000000"
  by (cases d "0 :: int" rule: linorder_cases) (auto simp: EncodeDuration_def abs_mult)

lemma EncodeDuration_odd: "EncodeDuration (- d) = - EncodeDuration d"
  by (simp add: EncodeDuration_def)

end
