(* ===== verification/Third_Party.thy ===== *)
theory Third_Party
  imports Conn_Input
begin

text \<open>
  The two packages that only adapt third-party pools: pkg/bytebuffer, whose Put ignores
  nil, and pkg/pool/goroutine, which fixes the options of a pool of goroutines. The
  third-party functions are arguments.
\<close>

definition bytebuffer_Get :: "('s \<Rightarrow> 'b \<times> 's) \<Rightarrow> 's \<Rightarrow> 'b \<times> 's" where
  "bytebuffer_Get pool_Get s = pool_Get s"

definition bytebuffer_Put :: "('b \<Rightarrow> 's \<Rightarrow> 's) \<Rightarrow> 'b option \<Rightarrow> 's \<Rightarrow> 's" where
  "bytebuffer_Put pool_Put b s = (case b of None \<Rightarrow> s | Some x \<Rightarrow> pool_Put x s)"

text \<open>
  A connection puts its byte buffer at the end of ResetBuffer and of a ShiftN that reaches
  the ring buffer, and sets the field to nil: what follows puts nothing twice.
\<close>

lemma ResetBuffer_puts_once:
  assumes "conn_ResetBuffer c = Some c1"
  shows "bytebuffer_Put pool_Put (ci_byteBuffer c1) s = s"
  using assms by (auto simp: conn_ResetBuffer_def bytebuffer_Put_def split: Option.bind_splits)

lemma ShiftN_puts_once:
  assumes "conn_ShiftN n c = Some (k, c1)" "ci_inbound c = Some rb" "\<not> rb_IsEmpty rb"
  shows "bytebuffer_Put pool_Put (ci_byteBuffer c1) s = s"
  using assms
  by (auto simp: conn_ShiftN_def conn_ResetBuffer_def bytebuffer_Put_def Let_def split: Option.bind_splits if_splits)

record ants_options =
  ao_ExpiryDuration :: int
  ao_Nonblocking :: bool

definition DefaultAntsPoolSize :: int where "DefaultAntsPoolSize = push_bit 18 1"
definition ExpiryDuration :: int where "ExpiryDuration = 10 * 1000000000"
definition Nonblocking :: bool where "Nonblocking = True"

definition goroutine_init :: "('s \<Rightarrow> 's) \<Rightarrow> 's \<Rightarrow> 's" where
  "goroutine_init Release s = Release s"

text \<open>The error of NewPool is dropped: if there is one the pool is what NewPool gave with it.\<close>

definition goroutine_Default ::
  "(int \<Rightarrow> ants_options \<Rightarrow> 's \<Rightarrow> ('p option \<times> 'e option) \<times> 's) \<Rightarrow> 's \<Rightarrow> 'p option \<times> 's" where
  "goroutine_Default NewPool s =
     (let options = \<lparr>ao_ExpiryDuration = ExpiryDuration, ao_Nonblocking = Nonblocking\<rparr>;
          ((defaultAntsPool, _), s') = NewPool DefaultAntsPoolSize options s
      in (defaultAntsPool, s'))"

lemma DefaultAntsPoolSize_value: "DefaultAntsPoolSize = 256 * 1024"
  by (simp add: DefaultAntsPoolSize_def)

end
