(* ===== verification/Spec2Isabelle.thy ===== *)
theory Spec2Isabelle
  imports Ring_Buffer_Props Pool_Props Event_Loop_Props Stop_Delivery Spin_Queue Poller_Life
    Tcp_Edges Packet_Loop Buffer_Reuse Packet_Buffer Loop_Run
    Conn_Interface Ws_Close Server_Props Net_Props Late_Bind Eventfd Log_Format Third_Party
begin

text \<open>
  A verification of limnet, a network library in Go: event loops over epoll or kqueue that
  serve TCP connections, and a websocket server beside them. The user gives an
  EventHandler (OnConnect, OnPacket, OnClose) and an UnPacket function that cuts the
  stream of bytes into packets.

  \<^bold>\<open>The program.\<close> LIMNet (server.go) owns a listener loop and n connection loops, each an
  EventLoop (pkg/eventloop) in a goroutine of its own around a Poller (pkg/limpoller). The
  listener loop calls LIMNet.Handle, which accepts a descriptor, picks the next loop in
  turn, makes a TCPConn (conn.go) with two ring buffers of the pool (pkg/ringbuffer) and
  binds it to the loop. The loop calls TCPConn.Handle for each event: reading fills the
  loop's packet buffer, the packet loop calls UnPacket and OnPacket on it, the rest goes
  to the inbound ring buffer; what the socket does not take of the output goes to the
  outbound one, and the poller watches for writing until it is empty. Other goroutines
  reach a connection by jobs: Trigger queues a function under a spin lock (pkg/limutil) and
  wakes the loop. A WSConn (conn_ws.go) has the same methods but reads messages in a
  goroutine of its own and acts in the caller's.

  \<^bold>\<open>The theories.\<close>
  \<^item> \<open>Prelude\<close>: Go's slices, indices and 64-bit integers; a pure operation that panics is
    \<open>None\<close>. \<open>Power_Of_Two\<close>: CeilToPowerOfTwo and fillBits of ringbuffer.go.
  \<^item> \<open>Ring_Buffer\<close>, \<open>Ring_Buffer_Correct\<close>, \<open>Ring_Buffer_Props\<close>: ringbuffer.go; record
    \<open>ring_buffer\<close>, one definition \<open>rb_X\<close> per method X. \<open>Byte_Stream\<close> is the interface, a
    locale \<open>byte_queue\<close> extended by the operations that look ahead, interpreted on the
    \<open>rb_\<close> functions: the buffer refines a queue of bytes.
  \<^item> \<open>Pool\<close>, \<open>Pool_Props\<close>: pool.go; record \<open>pool\<close>, Pool_Get, Pool_Put, calibrate with
    wrapping 64-bit counters and the rounding of its float64 product, index.
  \<^item> \<open>Poller_Contract\<close>: poller.go and the locales \<open>poller_base\<close> and \<open>poller_full\<close>;
    \<open>Epoll\<close> and \<open>Kqueue\<close>: epoll.go and kqueue.go, both interpreted (kqueue satisfies only
    the base); \<open>Poller_Props\<close>; \<open>Poller_Life\<close>: Create and Close; \<open>Eventfd\<close>: Wake and wakeHandlerRead on
    the eventfd, whose counter is the number of wake-ups that the other theories keep, and
    Wake of kqueue.
  \<^item> \<open>Event_Loop\<close>: queue.go and eventloop.go as the loop's goroutine runs them. The record
    \<open>event_loop\<close> is extended by the connection's and the server's state, and handlers and
    jobs are functions on the whole state. \<open>Job_Delivery\<close>: Trigger, the loop and Close as
    an inductive relation, one step per access to shared data; \<open>Event_Loop_Props\<close> and
    \<open>Stop_Delivery\<close> are about it. \<open>Spin_Queue\<close>: Push and ExecuteJobs down to the single
    loads and stores under SpinLock, a refinement of Push.
  \<^item> \<open>Conn_Input\<close>: Read, ReadN, ShiftN, ResetBuffer, BufferLength of conn.go and the locale
    \<open>packet_source\<close>, interpreted on both kinds of connections. \<open>Tcp_Conn\<close>: the rest of
    conn.go on the record \<open>tcp_world\<close> (event loop, connection, poller, the coming answers of
    the socket, clock, history). \<open>Tcp_Conn_Correct\<close>: the invariant \<open>tcp_inv\<close> and that every
    operation keeps it; \<open>Tcp_Stream\<close>: the packets handed out are those of the received
    stream; \<open>Tcp_Run\<close>: runs of events, jobs and calls; \<open>Tcp_Props\<close>, \<open>Tcp_Edges\<close>,
    \<open>Packet_Loop\<close>: the properties. \<open>Buffer_Reuse\<close>: which byte buffer a packet lies in.
    \<open>Packet_Buffer\<close>: the input side once more with \<open>buffer\<close> as a slice of the packet buffer
    of the loop, definitions \<open>si_X\<close> beside \<open>conn_X\<close>.
  \<^item> \<open>Conn_Loop\<close>: all connections of one loop. The record \<open>loop_world\<close> is the event loop with
    its poller and a list of connections; handlers are positions in the list. An operation
    runs on \<open>focus h L\<close>, the state that Tcp_Conn works on extended by what callbacks see of
    the others, and \<open>put_back\<close> stores its result. \<open>loop_run\<close>: events, wake-ups, timers, calls
    and new connections in any order; \<open>EventLoop_Stop\<close>. \<open>Tcp_Frame\<close>: a locale for relations
    that every operation of a connection respects; its interpretation says that an
    operation touches no other descriptor. \<open>Conn_Loop_Correct\<close>: the invariant \<open>loop_ok\<close>;
    \<open>Conn_Loop_Props\<close>: the properties. \<open>Loop_Run\<close>: EventLoop.Run, the wait loop of
    \<open>Epoll\<close> with these steps as its handler. \<open>Event_Handler\<close>: the defaults of event_handler.go.
  \<^item> \<open>Ws_Conn\<close>, \<open>Ws_Props\<close>: conn_ws.go, one definition \<open>ws_X\<close> per method X; \<open>Ws_Close\<close>: its
    handleClose step by step for several goroutines. \<open>Conn_Interface\<close>: the interface Conn as
    a record of methods, a locale for what callers rely on, interpreted on both kinds of
    connections; the default UnPacket is the one written against it.
  \<^item> \<open>Options\<close>: options.go. \<open>Address\<close>, \<open>Address_Props\<close>: parseAddr and sockAddrToString with
    what they use of strings, strconv and net. \<open>Server\<close>, \<open>Server_Props\<close>: server.go,
    server_tcp.go and the request handler of server_ws.go; record \<open>server\<close>, the
    connections in a store by their identifier. \<open>Lifecycle\<close>: New and Run of server.go with
    Start and Stop of server_ws.go, on \<open>limnet\<close>, which extends \<open>server\<close> by the options, the
    HTTP server (nil until Start) and the timing wheel.
  \<^item> \<open>Net\<close>, \<open>Net_Props\<close>: the whole TCP server. The record \<open>net\<close> extends \<open>limnet\<close> by the
    connection loops with their connections (\<open>loop_world\<close>); of the server's own \<open>sv_loops\<close>
    only the number counts there. \<open>net_step\<close> is an event of the listening descriptor or an
    input of one loop, \<open>net_run\<close> a sequence of them, \<open>net_Stop\<close> Stop with all the loops.
    \<open>Bind_Race\<close>: handleNewConnection in two halves, with the loop's steps in between;
    \<open>Late_Bind\<close>: when they can be taken for one step, by a locale for additions to a state
    that every operation of a connection commutes with.
  \<^item> \<open>Sync\<close>: the atomic values and the wait groups of pkg/limutil. \<open>Logging\<close>, \<open>Log_Format\<close>:
    logger.go, which logger and which files a message goes to and the encoder
    configuration. \<open>Third_Party\<close>: pkg/bytebuffer and pkg/pool/goroutine, which adapt
    third-party pools.

  \<^bold>\<open>What is shown.\<close> The data structures: the ring buffer is a queue of bytes in every
  layout, grows to bounded powers of two and never panics below the address space; the
  pool keeps its buffers well-formed, its size classes and percentile are right. The
  connection: for every behaviour of the socket and every sequence of events, jobs and
  calls, output is accepted in order and nothing is lost while the connection is open,
  pending output is watched for, closing happens once; packets do not depend on how the
  stream is cut into reads; the packet loop ends. Connections that share a loop behave as
  if each were alone, and stopping the loop closes them all. The loop: jobs are executed in order,
  at most once, and all of them without panics and shutdown; Stop's job is executed; the
  queue under its lock is atomic. The server: connections are spread evenly and
  registered, addresses are read back; New returns a server that listens, Run ends with
  its loops. From New to Stop: the server is the interleaving of its loops, each of which
  does its own inputs as if alone, with the connections dealt to it in turn; nothing that
  peers, kernel or other goroutines do ends it before Stop, and Stop leaves every
  connection closed once.

  \<^bold>\<open>What the proofs found\<close> is stated as theorems of kind error: kqueue never stops watching
  for output; a recovered handler panic leaves the loop's flag set; a job can be dropped
  at shutdown; bytes counted twice after an incomplete packet, and then those of another
  connection; an event handed to the next connection on its descriptor; Stop before Run
  dereferences nil; a closed connection used in the packet loop; a connection that
  OnConnect closed is bound after its loop has released it; output before registration stalls; websocket packets that span
  messages are lost, and a websocket connection can be closed twice at once; a rejected
  descriptor is never closed; a packet outlives the pooled buffer that holds it; kqueue's
  Create leaks; addresses without scheme or with
  IPv6 hosts give a wrong port.

  \<^bold>\<open>Parameters.\<close> The kernel (epoll_ctl, kevent, accept, read, write and so on) answers
  through arguments or lists of answers; what is used of epoll_ctl(2) and kevent(2) is
  \<open>epoll_ctl_documented\<close> and \<open>kevent_documented\<close>, with a concrete kernel for the witnesses.
  bytebufferpool is \<open>bb_api\<close> with \<open>bb_laws\<close>, sort.Sort is \<open>sorts_by_calls\<close>, sync.Pool is a
  bag. Callbacks are functions on the whole state that may panic; in \<open>Conn_Loop\<close> they read
  the other connections of the loop and reach them by Write and Close, as jobs. What
  net/http and the timing wheel answer are arguments, zap is \<open>zap_documented\<close>.

  \<^bold>\<open>Bounds.\<close> The address space is 48 bits (\<open>maxAlloc\<close>), lengths are 63 bits, identifiers and
  counters wrap at 64. No fuel: loops that may not end (the packet loops) are partial
  functions whose result \<open>None\<close> is the loop that does not end; waiting loops run over the
  list of what the waits return, so that theorems over all lists cover all runs.
  parseAddr is modelled for ASCII addresses.

  \<^bold>\<open>Not modelled.\<close> How zap encodes a line with its configuration and lumberjack rotates
  files, how the third-party pools work, and the benchmark programs. The timing
  wheel is third-party: the function it calls is modelled, its delays are not. Slices are
  values except where sharing matters: in \<open>Packet_Buffer\<close> for the packet buffer of a loop,
  in \<open>Buffer_Reuse\<close> for the byte buffers of the pool. In the runs of \<open>Conn_Loop\<close> and \<open>Net\<close> a
  connection is created in one step with OnConnect and its registration, although the
  listener's goroutine does this while the loop runs: \<open>Late_Bind\<close> shows that this is no
  restriction while nothing addresses the connection before it is bound, \<open>Bind_Race\<close> what a
  job for it can do; other races of OnConnect with the loop are not followed.
  Websocket connections are not part of \<open>Net\<close>: they belong to no loop. In the concurrent
  models memory is sequentially consistent, as sync/atomic promises for the accesses they
  have.
\<close>

end
